(* ===== verification/Tunely_Prelude.thy ===== *)
theory Tunely_Prelude
  imports Main "HOL-Library.Word" "HOL-Library.AList"
begin

text \<open>
  Shared ground of the development: the machine types, the parts of Rust's standard library the
  sources call (big-endian bytes, ASCII case, \<open>trim\<close>, \<open>split\<close>, UTF-8 validity, decimal
  formatting), hash tables as association lists, handlers as functions that return the new state
  and the list of messages they put on channels, and the interfaces that several components
  share: \<open>keyed_table\<close> (a table with insert and remove), \<open>preserving\<close> (operations that keep an
  invariant), \<open>owned_entry\<close> (an entry that only its owner adds) and \<open>codec\<close>.
\<close>

unbundle bit_operations_syntax

named_theorems act_simps \<open>unfolding of handlers built from the sequencing combinators\<close>
named_theorems table_simps \<open>lookup after insert and remove\<close>

section \<open>Machine types\<close>

type_synonym u8 = "8 word"
type_synonym u16 = "16 word"
type_synonym u32 = "32 word"
type_synonym u64 = "64 word"
type_synonym bytes = "u8 list"

text \<open>A UUID is a 128-bit value; its bytes are the big-endian ones.\<close>

type_synonym uuid = "128 word"

text \<open>
  The handle of a channel's sending half, by the identity of the channel. Whether the receiving
  half is still there is an argument \<open>rx_open\<close> of the handlers that send.
\<close>

type_synonym chan = nat

subsection \<open>Big-endian bytes\<close>

fun be_digits :: "nat \<Rightarrow> nat \<Rightarrow> nat list" where
  "be_digits 0 v = []"
| "be_digits (Suc n) v = be_digits n (v div 256) @ [v mod 256]"

definition be_value :: "nat list \<Rightarrow> nat" where
  "be_value ds = foldl (\<lambda>a d. a * 256 + d) 0 ds"

definition to_be_bytes :: "nat \<Rightarrow> 'a::len word \<Rightarrow> bytes" where
  "to_be_bytes n w = map word_of_nat (be_digits n (unat w))"

definition from_be_bytes :: "bytes \<Rightarrow> 'a::len word" where
  "from_be_bytes bs = word_of_nat (be_value (map unat bs))"

lemma length_be_digits [simp]: "length (be_digits n v) = n"
  by (induction n arbitrary: v) auto

lemma length_to_be_bytes [simp]: "length (to_be_bytes n w) = n"
  by (simp add: to_be_bytes_def)

lemma be_digits_small: "d \<in> set (be_digits n v) \<Longrightarrow> d < 256"
  by (induction n arbitrary: v) auto

lemma be_value_snoc: "be_value (ds @ [d]) = be_value ds * 256 + d"
  by (simp add: be_value_def)

lemma be_value_be_digits: "be_value (be_digits n v) = v mod 256 ^ n"
proof (induction n arbitrary: v)
  case 0
  then show ?case by (simp add: be_value_def)
next
  case (Suc n)
  have "v mod 256 ^ Suc n = v div 256 mod 256 ^ n * 256 + v mod 256"
    using mod_mult2_eq [of v 256 "256 ^ n"] by (simp add: mult.commute)
  with Suc show ?case by (simp add: be_value_snoc)
qed

lemma be_value_bound: "\<forall>d\<in>set ds. d < 256 \<Longrightarrow> be_value ds < 256 ^ length ds"
proof (induction ds rule: rev_induct)
  case Nil
  then show ?case by (simp add: be_value_def)
next
  case (snoc d ds)
  then have "be_value ds + 1 \<le> 256 ^ length ds" and "d < 256" by simp_all
  then have "(be_value ds + 1) * 256 \<le> 256 ^ length ds * 256"
    using mult_le_mono1 by blast
  with \<open>d < 256\<close> show ?case by (simp add: be_value_snoc mult.commute)
qed

lemma be_digits_be_value:
  "\<forall>d\<in>set ds. d < 256 \<Longrightarrow> be_digits (length ds) (be_value ds) = ds"
  by (induction ds rule: rev_induct) (auto simp: be_value_snoc be_value_def)

lemma map_unat_of_nat_small:
  "\<forall>d\<in>set ds. d < 256 \<Longrightarrow> map (\<lambda>d. unat (word_of_nat d :: u8)) ds = ds"
  by (induction ds) (auto simp: unat_of_nat)

lemma unat_less_256 [simp]: "unat (b :: u8) < 256"
  using unsigned_less [of b] by simp

lemma from_to_be_bytes:
  assumes "LENGTH('a::len) = 8 * n"
  shows "from_be_bytes (to_be_bytes n w) = (w :: 'a word)"
proof -
  have "be_value (map unat (to_be_bytes n w)) = unat w mod 256 ^ n"
    using be_digits_small
    by (simp add: to_be_bytes_def comp_def map_unat_of_nat_small be_value_be_digits)
  moreover have "(256::nat) ^ n = 2 ^ LENGTH('a)"
    by (simp add: assms power_mult)
  moreover have "unat w < 2 ^ LENGTH('a)" by (rule unsigned_less)
  ultimately show ?thesis by (simp add: from_be_bytes_def)
qed

lemma to_from_be_bytes:
  assumes "LENGTH('a::len) = 8 * length bs"
  shows "to_be_bytes (length bs) (from_be_bytes bs :: 'a word) = bs"
proof -
  let ?ds = "map unat bs"
  have small: "\<forall>d\<in>set ?ds. d < 256" by auto
  from be_value_bound [OF small] have "be_value ?ds < 2 ^ LENGTH('a)"
    by (simp add: assms power_mult)
  then have "unat (from_be_bytes bs :: 'a word) = be_value ?ds"
    by (simp add: from_be_bytes_def unat_of_nat)
  with be_digits_be_value [OF small] show ?thesis
    by (simp add: to_be_bytes_def comp_def)
qed

subsection \<open>Strings\<close>

text \<open>
  A Rust string is the list of its UTF-8 bytes, kept as HOL characters (8 bits each), so that
  \<open>length\<close> is \<open>str::len\<close>. \<open>utf8_valid\<close> is the well-formedness table of the Unicode
  standard that \<open>std::str::from_utf8\<close> checks.
\<close>

definition as_bytes :: "string \<Rightarrow> bytes" where
  "as_bytes s = map (\<lambda>c. word_of_nat (of_char c)) s"

definition of_bytes :: "bytes \<Rightarrow> string" where
  "of_bytes bs = map (\<lambda>b. char_of (unat b)) bs"

definition utf8_tail :: "u8 \<Rightarrow> bool" where
  "utf8_tail b \<longleftrightarrow> 0x80 \<le> b \<and> b \<le> 0xBF"

fun utf8_valid :: "bytes \<Rightarrow> bool" where
  "utf8_valid [] = True"
| "utf8_valid (a # bs) =
    (if a \<le> 0x7F then utf8_valid bs
     else case bs of
       [] \<Rightarrow> False
     | b # cs \<Rightarrow>
         if 0xC2 \<le> a \<and> a \<le> 0xDF then utf8_tail b \<and> utf8_valid cs
         else case cs of
           [] \<Rightarrow> False
         | c # ds \<Rightarrow>
             if a = 0xE0 then 0xA0 \<le> b \<and> b \<le> 0xBF \<and> utf8_tail c \<and> utf8_valid ds
             else if a = 0xED then 0x80 \<le> b \<and> b \<le> 0x9F \<and> utf8_tail c \<and> utf8_valid ds
             else if 0xE1 \<le> a \<and> a \<le> 0xEF then utf8_tail b \<and> utf8_tail c \<and> utf8_valid ds
             else case ds of
               [] \<Rightarrow> False
             | d # es \<Rightarrow>
                 if a = 0xF0 then 0x90 \<le> b \<and> b \<le> 0xBF \<and> utf8_tail c \<and> utf8_tail d \<and> utf8_valid es
                 else if 0xF1 \<le> a \<and> a \<le> 0xF3
                   then utf8_tail b \<and> utf8_tail c \<and> utf8_tail d \<and> utf8_valid es
                 else if a = 0xF4
                   then 0x80 \<le> b \<and> b \<le> 0x8F \<and> utf8_tail c \<and> utf8_tail d \<and> utf8_valid es
                 else False)"

definition from_utf8 :: "bytes \<Rightarrow> string option" where
  "from_utf8 bs = (if utf8_valid bs then Some (of_bytes bs) else None)"

lemma of_bytes_as_bytes [simp]: "of_bytes (as_bytes s) = s"
  by (induction s) (auto simp: of_bytes_def as_bytes_def unat_of_nat)

lemma length_as_bytes [simp]: "length (as_bytes s) = length s"
  by (simp add: as_bytes_def)

lemma from_utf8_as_bytes: "from_utf8 (as_bytes s) = (if utf8_valid (as_bytes s) then Some s else None)"
  by (simp add: from_utf8_def)

text \<open>ASCII case, prefixes and splitting.\<close>

definition ascii_lower :: "char \<Rightarrow> char" where
  "ascii_lower c =
    (let n = (of_char c :: nat) in if 65 \<le> n \<and> n \<le> 90 then char_of (n + 32) else c)"

definition to_ascii_lowercase :: "string \<Rightarrow> string" where
  "to_ascii_lowercase s = map ascii_lower s"

definition eq_ignore_ascii_case :: "string \<Rightarrow> string \<Rightarrow> bool" where
  "eq_ignore_ascii_case s t \<longleftrightarrow> to_ascii_lowercase s = to_ascii_lowercase t"

definition is_ascii_alphanumeric :: "char \<Rightarrow> bool" where
  "is_ascii_alphanumeric c =
    (let n = (of_char c :: nat)
     in 48 \<le> n \<and> n \<le> 57 \<or> 65 \<le> n \<and> n \<le> 90 \<or> 97 \<le> n \<and> n \<le> 122)"

fun strip_prefix :: "string \<Rightarrow> string \<Rightarrow> string option" where
  "strip_prefix [] s = Some s"
| "strip_prefix (p # ps) [] = None"
| "strip_prefix (p # ps) (c # cs) = (if p = c then strip_prefix ps cs else None)"

definition starts_with :: "string \<Rightarrow> string \<Rightarrow> bool" where
  "starts_with s p \<longleftrightarrow> strip_prefix p s \<noteq> None"

definition strip_suffix :: "string \<Rightarrow> string \<Rightarrow> string option" where
  "strip_suffix p s = map_option rev (strip_prefix (rev p) (rev s))"

definition trim_start_char :: "char \<Rightarrow> string \<Rightarrow> string" where
  "trim_start_char c s = dropWhile (\<lambda>x. x = c) s"

definition trim_end_char :: "char \<Rightarrow> string \<Rightarrow> string" where
  "trim_end_char c s = rev (dropWhile (\<lambda>x. x = c) (rev s))"

fun split_char :: "char \<Rightarrow> string \<Rightarrow> string list" where
  "split_char d [] = [[]]"
| "split_char d (c # cs) =
    (if c = d then [] # split_char d cs
     else case split_char d cs of t # ts \<Rightarrow> (c # t) # ts | [] \<Rightarrow> [[c]])"

fun join_strings :: "string \<Rightarrow> string list \<Rightarrow> string" where
  "join_strings sep [] = []"
| "join_strings sep [s] = s"
| "join_strings sep (s # t # ts) = s @ sep @ join_strings sep (t # ts)"

lemma ascii_lower_idem [simp]: "ascii_lower (ascii_lower c) = ascii_lower c"
  by (auto simp: ascii_lower_def Let_def)

lemma to_ascii_lowercase_idem [simp]:
  "to_ascii_lowercase (to_ascii_lowercase s) = to_ascii_lowercase s"
  by (simp add: to_ascii_lowercase_def)

lemma eq_ignore_ascii_case_refl [simp]: "eq_ignore_ascii_case s s"
  by (simp add: eq_ignore_ascii_case_def)

lemma strip_prefix_append [simp]: "strip_prefix p (p @ s) = Some s"
  by (induction p) auto

lemma strip_prefix_Some: "strip_prefix p s = Some t \<longleftrightarrow> s = p @ t"
  by (induction p s rule: strip_prefix.induct) auto

lemma starts_with_iff: "starts_with s p \<longleftrightarrow> (\<exists>t. s = p @ t)"
  by (auto simp: starts_with_def strip_prefix_Some)

lemma strip_suffix_Some: "strip_suffix p s = Some t \<longleftrightarrow> s = t @ p"
  by (auto simp: strip_suffix_def strip_prefix_Some rev_eq_append_conv intro: rev_rev_ident [symmetric] exI [of _ "rev t"])

lemma split_char_nonempty [simp]: "split_char d s \<noteq> []"
  by (cases s) (auto split: list.splits)

text \<open>The tokens are the pieces between separators: joined again they give the string back.\<close>

lemma split_char_join: "join_strings [d] (split_char d s) = s"
proof (induction s)
  case Nil
  then show ?case by simp
next
  case (Cons c cs)
  then show ?case
    by (cases "split_char d cs"; cases "tl (split_char d cs)") auto
qed

lemma split_char_no_sep: "t \<in> set (split_char d s) \<Longrightarrow> d \<notin> set t"
  by (induction s arbitrary: t) (auto split: list.splits if_splits)

subsection \<open>Trimming\<close>

text \<open>
  \<open>str::trim\<close> removes characters with the Unicode property White\_Space at both ends. The table
  lists their UTF-8 encodings; as a string is valid UTF-8, one of these byte sequences at its end
  is a whole character.
\<close>

definition white_space :: "string list" where
  "white_space = map (map char_of)
    ([[9], [10], [11], [12], [13], [32 :: nat], [0xC2, 0x85], [0xC2, 0xA0], [0xE1, 0x9A, 0x80]]
     @ map (\<lambda>b. [0xE2, 0x80, b]) [0x80, 0x81, 0x82, 0x83, 0x84, 0x85, 0x86, 0x87, 0x88, 0x89, 0x8A]
     @ [[0xE2, 0x80, 0xA8], [0xE2, 0x80, 0xA9], [0xE2, 0x80, 0xAF], [0xE2, 0x81, 0x9F],
        [0xE3, 0x80, 0x80]])"

fun strip_one :: "string list \<Rightarrow> string \<Rightarrow> string option" where
  "strip_one [] s = None"
| "strip_one (w # ws) s =
    (case strip_prefix w s of Some t \<Rightarrow> Some t | None \<Rightarrow> strip_one ws s)"

fun strip_all :: "nat \<Rightarrow> string list \<Rightarrow> string \<Rightarrow> string" where
  "strip_all 0 ws s = s"
| "strip_all (Suc n) ws s = (case strip_one ws s of None \<Rightarrow> s | Some t \<Rightarrow> strip_all n ws t)"

text \<open>Every step removes at least one byte, so the string's length is fuel enough.\<close>

definition trim_start :: "string \<Rightarrow> string" where
  "trim_start s = strip_all (length s) white_space s"

definition trim_end :: "string \<Rightarrow> string" where
  "trim_end s = rev (strip_all (length s) (map rev white_space) (rev s))"

definition trim :: "string \<Rightarrow> string" where
  "trim s = trim_end (trim_start s)"

lemma strip_one_Some: "strip_one ws s = Some t \<Longrightarrow> \<exists>w\<in>set ws. s = w @ t"
  by (induction ws) (auto simp: strip_prefix_Some split: option.splits)

lemma strip_one_None: "strip_one ws s = None \<longleftrightarrow> (\<forall>w\<in>set ws. \<forall>t. s \<noteq> w @ t)"
  by (induction ws) (auto simp: strip_prefix_Some split: option.splits; metis option.distinct(1) strip_prefix_append)+

lemma strip_one_take:
  "strip_one ws (p @ q) = None \<Longrightarrow> strip_one ws p = None"
  by (auto simp: strip_one_None)

lemma strip_all_suffix: "\<exists>p. s = p @ strip_all n ws s"
proof (induction n arbitrary: s)
  case 0
  then show ?case by simp
next
  case (Suc n)
  then show ?case
    by (auto split: option.splits dest!: strip_one_Some) (metis append.assoc)
qed

lemma strip_all_None:
  "[] \<notin> set ws \<Longrightarrow> length s \<le> n \<Longrightarrow> strip_one ws (strip_all n ws s) = None"
proof (induction n arbitrary: s)
  case 0
  then show ?case by (auto simp: strip_one_None)
next
  case (Suc n)
  show ?case
  proof (cases "strip_one ws s")
    case (Some t)
    then obtain w where "w \<in> set ws" and "s = w @ t" by (blast dest: strip_one_Some)
    with Suc.prems have "length t \<le> n" by (cases w) auto
    with Suc Some show ?thesis by simp
  qed simp
qed

lemma strip_all_id: "strip_one ws s = None \<Longrightarrow> strip_all n ws s = s"
  by (cases n) auto

lemma white_space_nonempty [simp]: "[] \<notin> set white_space"
  by (simp add: white_space_def)

lemma white_space_nonempty_rev [simp]: "[] \<notin> rev ` set white_space"
  by auto

lemma trim_start_None: "strip_one white_space (trim_start s) = None"
  by (simp add: trim_start_def strip_all_None)

lemma trim_end_None: "strip_one (map rev white_space) (rev (trim_end s)) = None"
  by (simp only: trim_end_def rev_rev_ident) (rule strip_all_None, simp_all)

lemma trim_end_prefix: "\<exists>p. s = trim_end s @ p"
proof -
  obtain p where "rev s = p @ strip_all (length s) (map rev white_space) (rev s)"
    using strip_all_suffix by blast
  then have "s = trim_end s @ rev p" by (metis rev_append rev_rev_ident trim_end_def)
  then show ?thesis by blast
qed

text \<open>A trimmed string starts and ends with no white space, so trimming again changes nothing.\<close>

lemma trim_start_trim: "strip_one white_space (trim s) = None"
  using trim_end_prefix [of "trim_start s"] trim_start_None [of s]
  by (metis strip_one_take trim_def)

lemma trim_idem [simp]: "trim (trim s) = trim s"
proof -
  have "trim_start (trim s) = trim s"
    by (simp add: trim_start_def strip_all_id trim_start_trim)
  moreover have "trim_end (trim s) = trim s"
    using trim_end_None [of "trim_start s"]
    by (simp add: trim_end_def [of "trim s"] trim_def [symmetric] strip_all_id)
  ultimately show ?thesis by (simp add: trim_def [of "trim s"])
qed

text \<open>A string that starts and ends with printable ASCII characters is already trimmed.\<close>

definition graphic :: "char \<Rightarrow> bool" where
  "graphic c \<longleftrightarrow> (let n = (of_char c :: nat) in 33 \<le> n \<and> n \<le> 126)"

lemma white_space_not_graphic:
  "\<forall>w\<in>set white_space. w \<noteq> [] \<and> \<not> graphic (hd w) \<and> \<not> graphic (last w)"
  by (simp add: white_space_def graphic_def Let_def)

lemma trim_start_graphic: "graphic (hd s) \<Longrightarrow> strip_one white_space s = None"
  unfolding strip_one_None using white_space_not_graphic by (metis hd_append2)

lemma trim_graphic:
  assumes "s \<noteq> []" and "graphic (hd s)" and "graphic (last s)"
  shows "trim s = s"
proof -
  have "trim_start s = s" using assms(2) by (simp add: trim_start_def strip_all_id trim_start_graphic)
  moreover have "\<forall>w\<in>set white_space. \<forall>t. rev s \<noteq> rev w @ t"
    using white_space_not_graphic assms(1,3) by (metis hd_append2 hd_rev rev_is_Nil_conv)
  then have "trim_end s = s" by (simp add: trim_end_def strip_all_id strip_one_None)
  ultimately show ?thesis by (simp add: trim_def)
qed

lemma trim_space_graphic:
  assumes "s \<noteq> []" and "graphic (hd s)" and "graphic (last s)"
  shows "trim (CHR '' '' # s) = s"
proof -
  have "strip_one white_space (CHR '' '' # s) = Some s"
    by (simp add: white_space_def char_of_def bit_0)
  then have "trim_start (CHR '' '' # s) = trim_start s"
    by (simp add: trim_start_def strip_all_id trim_start_graphic assms(2))
  with trim_graphic [OF assms] show ?thesis by (simp add: trim_def)
qed

subsection \<open>Decimal formatting\<close>

fun show_nat :: "nat \<Rightarrow> string" where
  "show_nat n = (if n < 10 then [char_of (48 + n)] else show_nat (n div 10) @ [char_of (48 + n mod 10)])"

declare show_nat.simps [simp del]

section \<open>Handlers\<close>

text \<open>
  A handler takes the state and returns the new one with the messages it put on channels, in
  order. \<open>andthen\<close> is the sequence of two statements, \<open>for_each\<close> a \<open>for\<close> loop.
\<close>

type_synonym ('s, 'e) act = "'s \<Rightarrow> 's \<times> 'e list"

definition skip :: "('s, 'e) act" where
  "skip s = (s, [])"

definition emit :: "'e list \<Rightarrow> ('s, 'e) act" where
  "emit es s = (s, es)"

definition andthen :: "('s, 'e) act \<Rightarrow> ('s, 'e) act \<Rightarrow> ('s, 'e) act" where
  "andthen f g s = (let (s1, es1) = f s; (s2, es2) = g s1 in (s2, es1 @ es2))"

primrec for_each :: "('a \<Rightarrow> ('s, 'e) act) \<Rightarrow> 'a list \<Rightarrow> ('s, 'e) act" where
  "for_each f [] = skip"
| "for_each f (x # xs) = andthen (f x) (for_each f xs)"

text \<open>A send whose receiver may be gone: the message is delivered or the send is an error.\<close>

definition deliver :: "bool \<Rightarrow> 'e \<Rightarrow> 'e list" where
  "deliver ok e = (if ok then [e] else [])"

lemma fst_andthen: "fst (andthen f g s) = fst (g (fst (f s)))"
  by (simp add: andthen_def split: prod.splits)

lemma snd_andthen: "snd (andthen f g s) = snd (f s) @ snd (g (fst (f s)))"
  by (simp add: andthen_def split: prod.splits)

lemmas andthen_simps [act_simps] = fst_andthen snd_andthen skip_def emit_def

lemma for_each_append: "for_each f (xs @ ys) s = andthen (for_each f xs) (for_each f ys) s"
  by (induction xs arbitrary: s) (auto simp: andthen_def skip_def split: prod.splits)

lemma for_each_map: "for_each f (map g xs) = for_each (\<lambda>x. f (g x)) xs"
  by (induction xs) simp_all

lemma deliver_simps [simp]: "deliver True e = [e]" "deliver False e = []"
  by (simp_all add: deliver_def)

lemma set_deliver [simp]: "x \<in> set (deliver ok e) \<longleftrightarrow> ok \<and> x = e"
  by (auto simp: deliver_def)

subsection \<open>Operations that keep an invariant\<close>

locale preserving =
  fixes step :: "'i \<Rightarrow> ('s, 'e) act" and inv :: "'s \<Rightarrow> bool"
  assumes step_inv: "inv s \<Longrightarrow> inv (fst (step i s))"
begin

lemma run_inv: "inv s \<Longrightarrow> inv (fst (for_each step is s))"
  by (induction "is" arbitrary: s) (auto simp: act_simps step_inv)

end

subsection \<open>Entries that one task owns\<close>

text \<open>
  A task adds an entry and removes it again while other tasks run in between. \<open>held\<close> follows the
  owner's own operations. Whatever the others do, as long as they do not add the entry, it is there
  at the end only if the owner's operations leave it. A step carries whether the owner made it.
\<close>

fun held :: "('o \<Rightarrow> bool) \<Rightarrow> ('o \<Rightarrow> bool) \<Rightarrow> 'o list \<Rightarrow> bool \<Rightarrow> bool" where
  "held add del [] b = b"
| "held add del (op # ops) b = held add del ops (add op \<or> b \<and> \<not> del op)"

lemma held_mono: "held add del ops b \<Longrightarrow> (b \<Longrightarrow> b') \<Longrightarrow> held add del ops b'"
proof (induction ops arbitrary: b b')
  case (Cons op ops)
  then have "held add del ops (add op \<or> b \<and> \<not> del op)" by simp
  then have "held add del ops (add op \<or> b' \<and> \<not> del op)"
    by (rule Cons.IH) (use Cons.prems(2) in blast)
  then show ?case by simp
qed simp

definition interleaved :: "('o \<Rightarrow> bool) \<Rightarrow> 'o list \<Rightarrow> (bool \<times> 'w \<times> 'o) list \<Rightarrow> bool" where
  "interleaved add mine steps \<longleftrightarrow>
    map (snd \<circ> snd) (filter fst steps) = mine \<and> list_all (\<lambda>(own, w, op). own \<or> \<not> add op) steps"

locale owned_entry =
  fixes exec :: "'w \<Rightarrow> 'o \<Rightarrow> ('s, 'e) act"
    and ok :: "'s \<Rightarrow> bool" and here :: "'s \<Rightarrow> bool"
    and add :: "'o \<Rightarrow> bool" and del :: "'o \<Rightarrow> bool"
  assumes exec_ok: "ok s \<Longrightarrow> ok (fst (exec w op s))"
    and exec_here: "ok s \<Longrightarrow> here (fst (exec w op s)) \<Longrightarrow> add op \<or> here s \<and> \<not> del op"
begin

lemma here_held:
  assumes "ok s" and "list_all (\<lambda>(own, w, op). own \<or> \<not> add op) steps"
    and "here (fst (for_each (\<lambda>(w, op). exec w op) (map snd steps) s))"
  shows "held add del (map (snd \<circ> snd) (filter fst steps)) (here s)"
  using assms
proof (induction steps arbitrary: s)
  case (Cons x steps)
  obtain own w op where x: "x = (own, w, op)" by (cases x) auto
  let ?s = "fst (exec w op s)"
  have "held add del (map (snd \<circ> snd) (filter fst steps)) (here ?s)"
    using Cons.prems by (intro Cons.IH) (simp_all add: x exec_ok fst_andthen)
  then have step: "held add del (map (snd \<circ> snd) (filter fst steps)) (add op \<or> here s \<and> \<not> del op)"
    by (rule held_mono) (rule exec_here [OF Cons.prems(1)])
  show ?case
  proof (cases own)
    case True
    with step show ?thesis by (simp add: x comp_def)
  next
    case False
    with Cons.prems(2) have "\<not> add op" by (simp add: x)
    with step have "held add del (map (snd \<circ> snd) (filter fst steps)) (here s)"
      by (auto elim: held_mono)
    with False show ?thesis by (simp add: x comp_def)
  qed
qed (simp add: skip_def)

lemma entry_freed:
  assumes "ok s" and "\<not> here s" and "interleaved add mine steps" and "\<not> held add del mine False"
  shows "\<not> here (fst (for_each (\<lambda>(w, op). exec w op) (map snd steps) s))"
  using here_held [OF assms(1), of steps] assms(2-4) by (auto simp: interleaved_def)

end

section \<open>Codecs\<close>

text \<open>
  The interface of an encoder and its fallible decoder: what \<open>enc\<close> produces for a value that
  satisfies \<open>ok\<close>, \<open>dec\<close> reads back. A client gets that such values are told apart on the
  wire and that a whole sequence of them can be read back in order.
\<close>

locale codec =
  fixes enc :: "'a \<Rightarrow> 'b" and dec :: "'b \<Rightarrow> 'e + 'a" and ok :: "'a \<Rightarrow> bool"
  assumes dec_enc: "ok x \<Longrightarrow> dec (enc x) = Inr x"
begin

lemma enc_inj: "ok x \<Longrightarrow> ok y \<Longrightarrow> enc x = enc y \<Longrightarrow> x = y"
  by (metis dec_enc sum.inject(2))

lemma dec_enc_list: "\<forall>x\<in>set xs. ok x \<Longrightarrow> map dec (map enc xs) = map Inr xs"
  by (simp add: dec_enc)

end

section \<open>Tables\<close>

text \<open>
  The hash maps of the program (\<open>HashMap\<close>, \<open>DashMap\<close>) are association lists with distinct
  keys. The order of the list is the map's iteration order, which the program leaves open; no
  statement depends on it.
\<close>

type_synonym ('k, 'v) table = "('k \<times> 'v) list"

definition tbl_get :: "('k, 'v) table \<Rightarrow> 'k \<Rightarrow> 'v option" where
  "tbl_get t = map_of t"

definition tbl_insert :: "'k \<Rightarrow> 'v \<Rightarrow> ('k, 'v) table \<Rightarrow> ('k, 'v) table" where
  "tbl_insert = AList.update"

definition tbl_remove :: "'k \<Rightarrow> ('k, 'v) table \<Rightarrow> ('k, 'v) table" where
  "tbl_remove = AList.delete"

definition tbl_ok :: "('k, 'v) table \<Rightarrow> bool" where
  "tbl_ok t \<longleftrightarrow> distinct (map fst t)"

lemma tbl_get_insert [table_simps]: "tbl_get (tbl_insert k v t) = (tbl_get t)(k \<mapsto> v)"
  by (simp add: tbl_get_def tbl_insert_def update_conv')

lemma tbl_get_remove [table_simps]: "tbl_get (tbl_remove k t) = (tbl_get t)(k := None)"
  by (simp add: tbl_get_def tbl_remove_def delete_conv')

lemma tbl_get_Nil [simp]: "tbl_get [] k = None"
  by (simp add: tbl_get_def)

lemma tbl_ok_Nil [simp]: "tbl_ok []"
  by (simp add: tbl_ok_def)

lemma tbl_ok_insert [simp]: "tbl_ok t \<Longrightarrow> tbl_ok (tbl_insert k v t)"
  by (simp add: tbl_ok_def tbl_insert_def distinct_update)

lemma tbl_ok_remove [simp]: "tbl_ok t \<Longrightarrow> tbl_ok (tbl_remove k t)"
  by (simp add: tbl_ok_def tbl_remove_def delete_keys distinct_removeAll)

lemma tbl_get_iff: "tbl_ok t \<Longrightarrow> tbl_get t k = Some v \<longleftrightarrow> (k, v) \<in> set t"
  by (simp add: tbl_ok_def tbl_get_def)

lemma fold_tbl_remove: "fold tbl_remove ks t = filter (\<lambda>(k, _). k \<notin> set ks) t"
proof (induction ks arbitrary: t)
  case Nil
  then show ?case by (induction t) auto
next
  case (Cons k ks)
  have "filter (\<lambda>(j, _). j \<notin> set ks) (tbl_remove k t) = filter (\<lambda>(j, _). j \<notin> set (k # ks)) t"
    unfolding tbl_remove_def AList.delete_eq filter_filter by (rule filter_cong) auto
  with Cons show ?case by simp
qed

lemma filter_out_keys:
  assumes "tbl_ok t"
  shows "fold tbl_remove (map fst (filter (\<lambda>(_, v). P v) t)) t = filter (\<lambda>(_, v). \<not> P v) t"
  unfolding fold_tbl_remove
proof (rule filter_cong [OF refl], clarify)
  fix k v assume "(k, v) \<in> set t"
  with assms have uniq: "w = v" if "(k, w) \<in> set t" for w
    using that by (metis eq_key_imp_eq_value tbl_ok_def)
  have "k \<in> set (map fst (filter (\<lambda>(_, v). P v) t)) \<longleftrightarrow> (\<exists>w. (k, w) \<in> set t \<and> P w)"
    by force
  also have "\<dots> \<longleftrightarrow> P v"
    using uniq \<open>(k, v) \<in> set t\<close> by blast
  finally show "(k \<notin> set (map fst (filter (\<lambda>(_, v). P v) t))) = (\<not> P v)"
    by simp
qed

lemma tbl_ok_filter [simp]: "tbl_ok t \<Longrightarrow> tbl_ok (filter P t)"
  by (simp add: tbl_ok_def distinct_map_filter)

lemma tbl_get_filter:
  assumes "tbl_ok t"
  shows "tbl_get (filter (\<lambda>(_, v). P v) t) k =
    (case tbl_get t k of None \<Rightarrow> None | Some v \<Rightarrow> if P v then Some v else None)"
proof -
  let ?f = "tbl_get (filter (\<lambda>(_, v). P v) t) k"
  have key: "?f = Some w \<longleftrightarrow> tbl_get t k = Some w \<and> P w" for w
    by (simp add: tbl_get_iff [OF assms] tbl_get_iff [OF tbl_ok_filter [OF assms]])
  show ?thesis
  proof (cases "tbl_get t k")
    case None
    with key have "?f = None" by (metis not_Some_eq option.distinct(1))
    with None show ?thesis by simp
  next
    case (Some v)
    with key have "?f = (if P v then Some v else None)" by (metis not_Some_eq option.inject)
    with Some show ?thesis by simp
  qed
qed

text \<open>The interface of a component that keeps a table in its state.\<close>

locale keyed_table =
  fixes get :: "'s \<Rightarrow> 'k \<Rightarrow> 'v option"
    and put :: "'k \<Rightarrow> 'v \<Rightarrow> 's \<Rightarrow> 's"
    and del :: "'k \<Rightarrow> 's \<Rightarrow> 's"
  assumes get_put: "get (put k v s) = (get s)(k \<mapsto> v)"
    and get_del: "get (del k s) = (get s)(k := None)"
begin

lemma get_put_same: "get (put k v s) k = Some v"
  by (simp add: get_put)

lemma get_put_other: "j \<noteq> k \<Longrightarrow> get (put k v s) j = get s j"
  by (simp add: get_put)

lemma get_del_same: "get (del k s) k = None"
  by (simp add: get_del)

lemma get_del_other: "j \<noteq> k \<Longrightarrow> get (del k s) j = get s j"
  by (simp add: get_del)

lemma del_after_put: "get (del k (put k v s)) = get (del k s)"
  by (simp add: get_put get_del)

text \<open>
  A loop that takes a list of entries out of the table, one by one, and sends something for each:
  every entry is found, removed and answered exactly once.
\<close>

lemma drain:
  assumes "distinct (map fst es)" and "\<forall>(k, v)\<in>set es. get s k = Some v"
  shows "for_each (\<lambda>k s. case get s k of None \<Rightarrow> (s, []) | Some v \<Rightarrow> (del k s, out v)) (map fst es) s
    = (fold del (map fst es) s, concat (map (\<lambda>(k, v). out v) es))"
  using assms
proof (induction es arbitrary: s)
  case Nil
  then show ?case by (simp add: skip_def)
next
  case (Cons e es)
  obtain k v where e: "e = (k, v)" by fastforce
  with Cons.prems have "\<forall>(j, w)\<in>set es. get (del k s) j = Some w"
    by (force simp: get_del image_iff)
  with Cons e show ?case by (simp add: andthen_def)
qed

lemma get_del_many: "get (fold del ks s) k = (if k \<in> set ks then None else get s k)"
  by (induction ks arbitrary: s) (auto simp: get_del)

end

lemma tbl_remove_subset: "set (tbl_remove k t) \<subseteq> set t"
  by (simp add: tbl_remove_def AList.delete_eq)

end
