(* ===== verification/Protocol_Frame.thy ===== *)
theory Protocol_Frame
  imports Tunely_Prelude
begin

text \<open>
  The binary frames of \<open>crates/protocol/src/frame.rs\<close> and the version constants of
  \<open>lib.rs\<close>: a chunk frame is version, stream kind, 16 bytes of request id, 4 bytes of big-endian
  sequence number, a flags byte and the payload; a WebSocket payload is an opcode byte and the data.
  The lemmas show the two round trips, the exact frames the decoder accepts and the exact error it
  gives for every other one.
\<close>

section \<open>Versions\<close>

definition LEGACY_PROTOCOL_VERSION :: u8 where
  "LEGACY_PROTOCOL_VERSION = 1"

definition PROTOCOL_VERSION :: u8 where
  "PROTOCOL_VERSION = 2"

definition is_supported_protocol_version :: "u8 \<Rightarrow> bool" where
  "is_supported_protocol_version version \<longleftrightarrow>
     version = LEGACY_PROTOCOL_VERSION \<or> version = PROTOCOL_VERSION"

definition CAP_WS_TUNNEL_V1 :: string where
  "CAP_WS_TUNNEL_V1 = ''ws_tunnel_v1''"

section \<open>Stream kinds and opcodes\<close>

datatype stream_kind = RequestBody | ResponseBody | WsClientFrame | WsLocalFrame

datatype ws_opcode = OpText | OpBinary | OpPing | OpPong | OpClose

datatype chunk_decode_error =
    FrameTooShort
  | UnsupportedVersion u8
  | InvalidStreamKind u8
  | MissingWsOpcode
  | InvalidWsOpcode u8

fun chunk_decode_error_text :: "chunk_decode_error \<Rightarrow> string" where
  "chunk_decode_error_text FrameTooShort = ''frame too short''"
| "chunk_decode_error_text (UnsupportedVersion v) =
     ''unsupported protocol version: '' @ show_nat (unat v)"
| "chunk_decode_error_text (InvalidStreamKind b) = ''invalid stream kind: '' @ show_nat (unat b)"
| "chunk_decode_error_text MissingWsOpcode = ''missing websocket opcode''"
| "chunk_decode_error_text (InvalidWsOpcode b) = ''invalid websocket opcode: '' @ show_nat (unat b)"

text \<open>\<open>as u8\<close>: the discriminants of the two \<open>repr(u8)\<close> enums.\<close>

fun stream_kind_u8 :: "stream_kind \<Rightarrow> u8" where
  "stream_kind_u8 RequestBody = 0"
| "stream_kind_u8 ResponseBody = 1"
| "stream_kind_u8 WsClientFrame = 2"
| "stream_kind_u8 WsLocalFrame = 3"

fun ws_opcode_u8 :: "ws_opcode \<Rightarrow> u8" where
  "ws_opcode_u8 OpText = 0"
| "ws_opcode_u8 OpBinary = 1"
| "ws_opcode_u8 OpPing = 2"
| "ws_opcode_u8 OpPong = 3"
| "ws_opcode_u8 OpClose = 4"

definition stream_kind_try_from :: "u8 \<Rightarrow> chunk_decode_error + stream_kind" where
  "stream_kind_try_from value =
    (if value = 0 then Inr RequestBody
     else if value = 1 then Inr ResponseBody
     else if value = 2 then Inr WsClientFrame
     else if value = 3 then Inr WsLocalFrame
     else Inl (InvalidStreamKind value))"

definition ws_opcode_try_from :: "u8 \<Rightarrow> chunk_decode_error + ws_opcode" where
  "ws_opcode_try_from value =
    (if value = 0 then Inr OpText
     else if value = 1 then Inr OpBinary
     else if value = 2 then Inr OpPing
     else if value = 3 then Inr OpPong
     else if value = 4 then Inr OpClose
     else Inl (InvalidWsOpcode value))"

text \<open>Both enums are finite: a statement about all kinds or opcodes is decided by evaluation.\<close>

instantiation stream_kind :: enum
begin

definition "enum_stream_kind = [RequestBody, ResponseBody, WsClientFrame, WsLocalFrame]"

definition "enum_all_stream_kind P \<longleftrightarrow>
  P RequestBody \<and> P ResponseBody \<and> P WsClientFrame \<and> P WsLocalFrame"

definition "enum_ex_stream_kind P \<longleftrightarrow>
  P RequestBody \<or> P ResponseBody \<or> P WsClientFrame \<or> P WsLocalFrame"

instance proof
  show UNIV_kind: "(UNIV :: stream_kind set) = set enum_class.enum"
    using stream_kind.exhaust by (auto simp: enum_stream_kind_def)
  show "distinct (enum_class.enum :: stream_kind list)"
    by (simp add: enum_stream_kind_def)
  show "enum_class.enum_all P \<longleftrightarrow> Ball UNIV P" for P :: "stream_kind \<Rightarrow> bool"
    by (simp add: UNIV_kind enum_all_stream_kind_def enum_stream_kind_def)
  show "enum_class.enum_ex P \<longleftrightarrow> Bex UNIV P" for P :: "stream_kind \<Rightarrow> bool"
    by (simp add: UNIV_kind enum_ex_stream_kind_def enum_stream_kind_def)
qed

end

instantiation ws_opcode :: enum
begin

definition "enum_ws_opcode = [OpText, OpBinary, OpPing, OpPong, OpClose]"

definition "enum_all_ws_opcode P \<longleftrightarrow> P OpText \<and> P OpBinary \<and> P OpPing \<and> P OpPong \<and> P OpClose"

definition "enum_ex_ws_opcode P \<longleftrightarrow> P OpText \<or> P OpBinary \<or> P OpPing \<or> P OpPong \<or> P OpClose"

instance proof
  show UNIV_op: "(UNIV :: ws_opcode set) = set enum_class.enum"
    using ws_opcode.exhaust by (auto simp: enum_ws_opcode_def)
  show "distinct (enum_class.enum :: ws_opcode list)"
    by (simp add: enum_ws_opcode_def)
  show "enum_class.enum_all P \<longleftrightarrow> Ball UNIV P" for P :: "ws_opcode \<Rightarrow> bool"
    by (simp add: UNIV_op enum_all_ws_opcode_def enum_ws_opcode_def)
  show "enum_class.enum_ex P \<longleftrightarrow> Bex UNIV P" for P :: "ws_opcode \<Rightarrow> bool"
    by (simp add: UNIV_op enum_ex_ws_opcode_def enum_ws_opcode_def)
qed

end

lemma stream_kind_round_trip [simp]: "stream_kind_try_from (stream_kind_u8 k) = Inr k"
  by (cases k) (simp_all add: stream_kind_try_from_def)

lemma stream_kind_try_from_Inr: "stream_kind_try_from b = Inr k \<longleftrightarrow> b = stream_kind_u8 k"
  by (cases k) (auto simp: stream_kind_try_from_def)

lemma stream_kind_try_from_Inl:
  "stream_kind_try_from b = Inl e \<longleftrightarrow> 3 < b \<and> e = InvalidStreamKind b"
proof -
  have "b \<noteq> 0 \<Longrightarrow> b \<noteq> 1 \<Longrightarrow> b \<noteq> 2 \<Longrightarrow> b \<noteq> 3 \<Longrightarrow> 3 < b" by unat_arith
  then show ?thesis by (auto simp: stream_kind_try_from_def)
qed

lemma stream_kind_accepts: "(\<exists>k. stream_kind_try_from b = Inr k) \<longleftrightarrow> b \<le> 3"
proof -
  have "b \<le> 3 \<Longrightarrow> b = 0 \<or> b = 1 \<or> b = 2 \<or> b = 3" by unat_arith
  moreover have "stream_kind_u8 k \<le> 3" for k by (cases k) simp_all
  ultimately show ?thesis by (auto simp: stream_kind_try_from_def)
qed

lemma ws_opcode_u8_inj [simp]: "ws_opcode_u8 a = ws_opcode_u8 b \<longleftrightarrow> a = b"
  by (cases a; cases b) simp_all

lemma ws_opcode_round_trip [simp]: "ws_opcode_try_from (ws_opcode_u8 k) = Inr k"
  by (cases k) (simp_all add: ws_opcode_try_from_def)

lemma ws_opcode_try_from_Inr: "ws_opcode_try_from b = Inr k \<longleftrightarrow> b = ws_opcode_u8 k"
  by (cases k) (auto simp: ws_opcode_try_from_def)

section \<open>Chunk frames\<close>

record chunk_header =
  kind :: stream_kind
  request_id :: uuid
  seq :: u32
  fin :: bool

definition HEADER_LEN :: nat where
  "HEADER_LEN = 1 + 1 + 16 + 4 + 1"

definition encode_chunk_frame_with_version :: "u8 \<Rightarrow> chunk_header \<Rightarrow> bytes \<Rightarrow> bytes" where
  "encode_chunk_frame_with_version version header payload =
     [version] @ [stream_kind_u8 (kind header)] @ to_be_bytes 16 (request_id header)
     @ to_be_bytes 4 (seq header) @ [if fin header then 1 else 0] @ payload"

definition encode_chunk_frame :: "chunk_header \<Rightarrow> bytes \<Rightarrow> bytes" where
  "encode_chunk_frame header payload =
     encode_chunk_frame_with_version PROTOCOL_VERSION header payload"

definition decode_chunk_header :: "bytes \<Rightarrow> chunk_decode_error + (chunk_header \<times> bytes)" where
  "decode_chunk_header frame =
    (if length frame < HEADER_LEN then Inl FrameTooShort
     else let version = frame ! 0 in
       if \<not> is_supported_protocol_version version then Inl (UnsupportedVersion version)
       else case stream_kind_try_from (frame ! 1) of
         Inl e \<Rightarrow> Inl e
       | Inr k \<Rightarrow>
           let id_bytes = take 16 (drop 2 frame);
               seq_bytes = take 4 (drop 18 frame);
               flags = frame ! 22;
               payload = drop HEADER_LEN frame
           in Inr (\<lparr>kind = k, request_id = from_be_bytes id_bytes,
                    seq = from_be_bytes seq_bytes, fin = (flags AND 1 = 1)\<rparr>, payload))"

definition encode_ws_payload :: "ws_opcode \<Rightarrow> bytes \<Rightarrow> bytes" where
  "encode_ws_payload opcode payload = [ws_opcode_u8 opcode] @ payload"

definition decode_ws_payload :: "bytes \<Rightarrow> chunk_decode_error + (ws_opcode \<times> bytes)" where
  "decode_ws_payload payload =
    (case payload of
       [] \<Rightarrow> Inl MissingWsOpcode
     | opcode # rest \<Rightarrow>
        (case ws_opcode_try_from opcode of
           Inl e \<Rightarrow> Inl e
         | Inr op \<Rightarrow> Inr (op, rest)))"

text \<open>The parts of a frame, by position.\<close>

lemma encode_length [simp]:
  "length (encode_chunk_frame_with_version v h p) = HEADER_LEN + length p"
  by (simp add: encode_chunk_frame_with_version_def HEADER_LEN_def)

lemma encode_parts:
  defines "f v h p \<equiv> encode_chunk_frame_with_version v h p"
  shows "f v h p ! 0 = v" and "f v h p ! Suc 0 = stream_kind_u8 (kind h)"
    and "take 16 (drop 2 (f v h p)) = to_be_bytes 16 (request_id h)"
    and "take 4 (drop 18 (f v h p)) = to_be_bytes 4 (seq h)"
    and "f v h p ! 22 = (if fin h then 1 else 0)"
    and "drop HEADER_LEN (f v h p) = p"
  by (simp_all add: f_def encode_chunk_frame_with_version_def HEADER_LEN_def nth_append)

lemma frame_split:
  assumes "HEADER_LEN \<le> length f"
  shows "f = [f ! 0, f ! 1] @ take 16 (drop 2 f) @ take 4 (drop 18 f) @ [f ! 22] @ drop HEADER_LEN f"
proof -
  have "take 2 f = [f ! 0, f ! 1]"
    using assms by (cases f; cases "tl f") (simp_all add: HEADER_LEN_def)
  moreover have "take 1 (drop 22 f) = [f ! 22]"
    using assms by (simp add: HEADER_LEN_def take_Suc_conv_app_nth)
  moreover have "take 23 f = take 2 f @ take 21 (drop 2 f)"
    using take_add [of 2 21 f] by simp
  moreover have "take 21 (drop 2 f) = take 16 (drop 2 f) @ take 5 (drop 18 f)"
    using take_add [of 16 5 "drop 2 f"] by simp
  moreover have "take 5 (drop 18 f) = take 4 (drop 18 f) @ take 1 (drop 22 f)"
    using take_add [of 4 1 "drop 18 f"] by simp
  ultimately have "take 23 f = [f ! 0, f ! 1] @ take 16 (drop 2 f) @ take 4 (drop 18 f) @ [f ! 22]"
    by simp
  then have "take 23 f @ drop 23 f
      = ([f ! 0, f ! 1] @ take 16 (drop 2 f) @ take 4 (drop 18 f) @ [f ! 22]) @ drop 23 f"
    by (rule arg_cong)
  then show ?thesis by (simp only: append_take_drop_id append_assoc) (simp add: HEADER_LEN_def)
qed

lemma from_to_be_uuid [simp]: "from_be_bytes (to_be_bytes 16 u) = (u :: uuid)"
  by (rule from_to_be_bytes) simp

lemma from_to_be_u32 [simp]: "from_be_bytes (to_be_bytes 4 n) = (n :: u32)"
  by (rule from_to_be_bytes) simp

lemma to_from_be_uuid: "length bs = 16 \<Longrightarrow> to_be_bytes 16 (from_be_bytes bs :: uuid) = bs"
  using to_from_be_bytes [of bs, where 'a = 128] by simp

lemma to_from_be_u32: "length bs = 4 \<Longrightarrow> to_be_bytes 4 (from_be_bytes bs :: u32) = bs"
  using to_from_be_bytes [of bs, where 'a = 32] by simp

lemma decode_encode:
  "decode_chunk_header (encode_chunk_frame_with_version v h p) =
    (if is_supported_protocol_version v then Inr (h, p) else Inl (UnsupportedVersion v))"
  by (simp add: decode_chunk_header_def encode_parts Let_def)

text \<open>
  C16: the decoder inverts the encoder for every supported version, header and payload, including
  the empty payload and every bit pattern of id and sequence number.
\<close>

theorem chunk_frame_roundtrip:
  assumes "is_supported_protocol_version v"
  shows "decode_chunk_header (encode_chunk_frame_with_version v h p) = Inr (h, p)"
  using assms by (simp add: decode_encode)

theorem chunk_frame_roundtrip_witness:
  "decode_chunk_header (encode_chunk_frame_with_version 2
      \<lparr>kind = ResponseBody, request_id = 7, seq = 42, fin = True\<rparr> [104, 101]) =
    Inr (\<lparr>kind = ResponseBody, request_id = 7, seq = 42, fin = True\<rparr>, [104, 101])"
  by (rule chunk_frame_roundtrip) (simp add: is_supported_protocol_version_def PROTOCOL_VERSION_def)

text \<open>
  The decoder loses nothing but the unused flag bits: encoding what it returns, at the
  frame's own version, gives the frame back with only bit 0 of the flags byte kept.
\<close>

lemma decode_then_encode:
  assumes "decode_chunk_header f = Inr (h, p)"
  shows "encode_chunk_frame_with_version (f ! 0) h p = f[22 := f ! 22 AND 1]"
proof -
  from assms have len: "HEADER_LEN \<le> length f" and k: "stream_kind_u8 (kind h) = f ! 1"
    and h: "request_id h = from_be_bytes (take 16 (drop 2 f))"
      "seq h = from_be_bytes (take 4 (drop 18 f))" "fin h = (f ! 22 AND 1 = 1)"
    and p: "p = drop HEADER_LEN f"
    by (auto simp: decode_chunk_header_def Let_def stream_kind_try_from_Inr
        split: if_splits sum.splits)
  have "to_be_bytes 16 (request_id h) = take 16 (drop 2 f)"
    and "to_be_bytes 4 (seq h) = take 4 (drop 18 f)"
    using len by (simp_all add: h to_from_be_uuid to_from_be_u32 HEADER_LEN_def)
  moreover have "(if fin h then 1 else 0) = f ! 22 AND 1"
    by (auto simp: h and_one_eq odd_iff_mod_2_eq_one even_iff_mod_2_eq_zero)
  ultimately have "encode_chunk_frame_with_version (f ! 0) h p
      = [f ! 0, f ! 1] @ take 16 (drop 2 f) @ take 4 (drop 18 f) @ [f ! 22 AND 1] @ drop HEADER_LEN f"
    by (simp add: encode_chunk_frame_with_version_def k p)
  also have "\<dots> = f[22 := f ! 22 AND 1]"
    by (subst (6) frame_split [OF len])
      (use len in \<open>simp add: HEADER_LEN_def list_update_append numeral_eq_Suc\<close>)
  finally show ?thesis .
qed

lemma decode_then_encode_witness:
  "\<exists>h. encode_chunk_frame_with_version 2 h [9] =
    [2, 1, 0, 0, 0, 0, 0, 0, 0, 0, 0, 0, 0, 0, 0, 0, 0, 0, 0, 0, 0, 5, 1, 9]"
proof -
  let ?f = "[2, 1, 0, 0, 0, 0, 0, 0, 0, 0, 0, 0, 0, 0, 0, 0, 0, 0, 0, 0, 0, 5, 7, 9] :: bytes"
  have "\<exists>h. decode_chunk_header ?f = Inr (h, [9])"
    by (simp add: decode_chunk_header_def HEADER_LEN_def Let_def stream_kind_try_from_def
        is_supported_protocol_version_def PROTOCOL_VERSION_def)
  then obtain h where "decode_chunk_header ?f = Inr (h, [9])" by blast
  from decode_then_encode [OF this] show ?thesis by (intro exI [of _ h]) simp
qed

lemma ws_payload_iff: "decode_ws_payload b = Inr (op, d) \<longleftrightarrow> b = encode_ws_payload op d"
  by (auto simp: decode_ws_payload_def encode_ws_payload_def ws_opcode_try_from_Inr
      split: list.splits sum.splits)

lemma decode_encode_ws [simp]: "decode_ws_payload (encode_ws_payload op d) = Inr (op, d)"
  by (simp add: ws_payload_iff)

text \<open>Both encodings are codecs; the chunk codec is one for each supported version.\<close>

interpretation chunk: codec
  "\<lambda>(h, p). encode_chunk_frame_with_version v h p" decode_chunk_header
  "\<lambda>_. is_supported_protocol_version v" for v
  by unfold_locales (auto simp: decode_encode)

interpretation wsp: codec
  "\<lambda>(op, d). encode_ws_payload op d" decode_ws_payload "\<lambda>_. True"
  by unfold_locales auto

text \<open>
  C35: which frames the decoder accepts. Exactly those of at least 23 bytes with a supported
  version and one of the four stream kinds; the payload is then everything after the header.
\<close>

theorem decode_accepts_iff:
  "(\<exists>h. decode_chunk_header f = Inr (h, p)) \<longleftrightarrow>
     23 \<le> length f \<and> is_supported_protocol_version (f ! 0) \<and> f ! 1 \<le> 3 \<and> p = drop 23 f"
proof (cases "23 \<le> length f \<and> is_supported_protocol_version (f ! 0)")
  case True
  then have "(\<exists>h. decode_chunk_header f = Inr (h, p)) \<longleftrightarrow>
      (\<exists>k. stream_kind_try_from (f ! 1) = Inr k) \<and> p = drop 23 f"
    by (cases "stream_kind_try_from (f ! 1)")
      (auto simp: decode_chunk_header_def HEADER_LEN_def Let_def)
  with True show ?thesis by (simp add: stream_kind_accepts)
qed (auto simp: decode_chunk_header_def HEADER_LEN_def Let_def)

end
