(* ===== verification/Protocol_Message.thy ===== *)
theory Protocol_Message
  imports Protocol_Frame
begin

text \<open>
  The control messages of \<open>crates/protocol/src/message.rs\<close>, the hop-by-hop header test of
  \<open>http.rs\<close>, and the vocabulary both ends share: WebSocket messages on the agent link, header
  lists, and the third-party functions they go through. The JSON codec (\<open>serde_json\<close>) and the
  header conversions (the \<open>http\<close> crate) are not in the repository: they are records of
  functions that the definitions using them take as an argument.
\<close>

section \<open>Control messages\<close>

type_synonym header_list = "(string \<times> string) list"

datatype control_message =
    RegisterAgent string string "u8 option" "string list"
  | RegisterAck bool "string option" "u8 option" "string list"
  | HttpRequestStart uuid string string header_list
  | HttpRequestEnd uuid
  | HttpResponseStart uuid u16 header_list
  | HttpResponseEnd uuid
  | WsConnect uuid string header_list "string list"
  | WsConnectAck uuid bool "string option" "string option"
  | WsClose uuid "u16 option" "string option"
  | ControlError "uuid option" string string
  | ControlPing u64
  | ControlPong u64

text \<open>
  \<open>serde_json::to_string\<close> and \<open>from_str\<close>, over an abstract type \<open>'t\<close> of JSON texts; an
  error is its display string. \<open>json_ok\<close> is what the two ends rely on: every control message
  serialises, and its text parses back to it.
\<close>

record 't json =
  to_string :: "control_message \<Rightarrow> string + 't"
  from_str :: "'t \<Rightarrow> string + control_message"

definition json_ok :: "'t json \<Rightarrow> bool" where
  "json_ok J \<longleftrightarrow> (\<forall>m. \<exists>t. to_string J m = Inr t \<and> from_str J t = Inr m)"

text \<open>An instance: texts that are the messages themselves.\<close>

definition plain_json :: "control_message json" where
  "plain_json = \<lparr>to_string = Inr, from_str = Inr\<rparr>"

lemma plain_json_ok [simp]: "json_ok plain_json"
  by (simp add: json_ok_def plain_json_def)

section \<open>WebSocket messages on the agent link\<close>

record close_frame =
  close_code :: u16
  close_reason :: string

datatype 't message =
    MText 't
  | MBinary bytes
  | MPing bytes
  | MPong bytes
  | MClose "close_frame option"

text \<open>
  One result of reading a WebSocket stream: a message, a raw frame (a case only the agent's
  library has), or a read error with its display string. The end of the stream is the end of the
  list of results.
\<close>

datatype 't read = ReadMsg "'t message" | ReadRawFrame | ReadErr string

section \<open>Headers\<close>

text \<open>
  A \<open>HeaderMap\<close> is the list of its entries in iteration order, with names in lower case as that
  type keeps them; \<open>get\<close> is the first entry of a name and \<open>append\<close> adds one more. The record
  holds \<open>HeaderName::from_bytes\<close>, \<open>HeaderValue::from_str\<close>, \<open>HeaderValue::to_str\<close> and whether
  \<open>StatusCode::from_u16\<close> accepts a number.
\<close>

type_synonym header_map = "(string \<times> bytes) list"

record http_lib =
  header_name :: "string \<Rightarrow> string option"
  header_value :: "string \<Rightarrow> bytes option"
  value_to_str :: "bytes \<Rightarrow> string option"
  status_valid :: "u16 \<Rightarrow> bool"

definition hm_get :: "header_map \<Rightarrow> string \<Rightarrow> bytes option" where
  "hm_get headers name = map_of headers name"

text \<open>An instance: every name and value is accepted as it is, and every three-digit status.\<close>

definition plain_http :: http_lib where
  "plain_http = \<lparr>header_name = Some, header_value = Some \<circ> as_bytes,
     value_to_str = Some \<circ> of_bytes, status_valid = (\<lambda>s. 100 \<le> s \<and> s < 1000)\<rparr>"

definition hop_headers :: "string list" where
  "hop_headers =
    [''connection'', ''keep-alive'', ''proxy-authenticate'', ''proxy-authorization'', ''te'',
     ''trailers'', ''transfer-encoding'', ''upgrade'']"

definition is_hop_header :: "string \<Rightarrow> bool" where
  "is_hop_header name \<longleftrightarrow> to_ascii_lowercase name \<in> set hop_headers"

lemma is_hop_header_lower [simp]: "is_hop_header (to_ascii_lowercase n) = is_hop_header n"
  by (simp add: is_hop_header_def)

lemma is_hop_header_eq: "eq_ignore_ascii_case m n \<Longrightarrow> is_hop_header m = is_hop_header n"
  by (simp add: is_hop_header_def eq_ignore_ascii_case_def)

text \<open>
  Copying headers one way or the other keeps the order and drops entries: \<open>copy_headers\<close> is the
  shape of the four loops over headers, one entry at a time.
\<close>

definition copy_headers :: "('a \<Rightarrow> 'b option) \<Rightarrow> 'a list \<Rightarrow> 'b list" where
  "copy_headers f hs = List.map_filter f hs"

lemma copy_headers_simps [simp]:
  "copy_headers f [] = []"
  "copy_headers f (h # hs) = (case f h of None \<Rightarrow> copy_headers f hs | Some x \<Rightarrow> x # copy_headers f hs)"
  by (simp_all add: copy_headers_def map_filter_simps split: option.splits)

lemma set_copy_headers: "set (copy_headers f hs) = {y. \<exists>x\<in>set hs. f x = Some y}"
  by (induction hs) (auto split: option.splits)

lemma copy_headers_append: "copy_headers f (xs @ ys) = copy_headers f xs @ copy_headers f ys"
  by (induction xs) (auto split: option.splits)

lemma copy_copy_headers: "copy_headers f (copy_headers g hs) = copy_headers (\<lambda>x. Option.bind (g x) f) hs"
  by (induction hs) (auto split: option.splits)

lemma copy_headers_filter:
  "\<forall>x\<in>set hs. f x = (if P x then Some x else None) \<Longrightarrow> copy_headers f hs = filter P hs"
  by (induction hs) auto

end
