(* ===== verification/Relay_State.thy ===== *)
theory Relay_State
  imports Protocol_Message "HOL-Library.Multiset"
begin

text \<open>
  \<open>AppState\<close> of \<open>crates/relay-server/src/state.rs\<close>, the state all tasks of the relay share,
  with every one of its operations, and \<open>send_control\<close> of \<open>ws_wire.rs\<close>. An operation
  returns the new state and the messages it put on channels; the argument \<open>rx\<close> says which
  channels still have their receiver, so that a send to any other channel is the error the code
  handles. Proved here: the tables keep distinct keys, the operations refine their specification
  on maps, the clean-up of a disconnected agent, and how the operations that the code runs in steps
  are made of the others.
\<close>

section \<open>Data\<close>

record agent_handle =
  connection_id :: uuid
  sender :: chan
  capabilities :: "string set"
  protocol_version :: u8

datatype relay_event =
    EvStart u16 header_list
  | EvBody bytes
  | EvEnd
  | EvError string string

record ws_connect_ack =
  ack_ok :: bool
  selected_subprotocol :: "string option"
  ack_reason :: "string option"

datatype ws_relay_event =
    WsEvFrame ws_opcode bytes
  | WsEvClose "u16 option" "string option"

record ws_stream_handle =
  ws_tunnel_id :: string
  ws_sender :: chan

record ws_pending_entry =
  wp_tunnel_id :: string
  wp_tx :: chan

record app_state =
  auth_tokens :: "string set"
  agents :: "(string, agent_handle) table"
  inflight :: "(uuid, chan) table"
  ws_pending :: "(uuid, ws_pending_entry) table"
  ws_streams :: "(uuid, ws_stream_handle) table"
  request_timeout_secs :: u64

text \<open>
  What the relay puts on channels: events for a request, the acknowledgement for a pending
  WebSocket, events for a WebSocket stream, messages for an agent connection.
\<close>

datatype 't relay_out =
    ToRequest chan relay_event
  | ToPending chan ws_connect_ack
  | ToStream chan ws_relay_event
  | ToAgent chan "'t message"

type_synonym 't relay_act = "(app_state, 't relay_out) act"

section \<open>Operations\<close>

definition new_state :: "string set \<Rightarrow> u64 \<Rightarrow> app_state" where
  "new_state tokens timeout =
     \<lparr>auth_tokens = tokens, agents = [], inflight = [], ws_pending = [], ws_streams = [],
      request_timeout_secs = timeout\<rparr>"

definition validate_token :: "app_state \<Rightarrow> string \<Rightarrow> bool" where
  "validate_token st token \<longleftrightarrow> auth_tokens st \<noteq> {} \<and> token \<in> auth_tokens st"

definition get_agent :: "app_state \<Rightarrow> string \<Rightarrow> agent_handle option" where
  "get_agent st tunnel_id = tbl_get (agents st) tunnel_id"

definition insert_agent_if_absent :: "string \<Rightarrow> agent_handle \<Rightarrow> app_state \<Rightarrow> app_state \<times> bool" where
  "insert_agent_if_absent tunnel_id handle st =
    (if tbl_get (agents st) tunnel_id \<noteq> None then (st, False)
     else (st\<lparr>agents := tbl_insert tunnel_id handle (agents st)\<rparr>, True))"

definition add_inflight :: "uuid \<Rightarrow> chan \<Rightarrow> app_state \<Rightarrow> app_state" where
  "add_inflight rid c st = st\<lparr>inflight := tbl_insert rid c (inflight st)\<rparr>"

definition remove_inflight :: "uuid \<Rightarrow> app_state \<Rightarrow> app_state" where
  "remove_inflight rid st = st\<lparr>inflight := tbl_remove rid (inflight st)\<rparr>"

text \<open>
  A notification of a request is two steps of the code, between which the task may wait: the lookup
  of the channel, which for a terminal event also takes the entry out of the table, and the send,
  which fails if the receiver is gone; after a failed start or chunk the entry is removed. A
  method run without interruption is the two in sequence, which is what the four definitions say.
  The two steps are run apart, with any other steps in between, in \<open>Relay_System\<close>.
\<close>

definition terminal :: "relay_event \<Rightarrow> bool" where
  "terminal e = (case e of EvEnd \<Rightarrow> True | EvError _ _ \<Rightarrow> True | _ \<Rightarrow> False)"

definition answer_lookup :: "uuid \<Rightarrow> relay_event \<Rightarrow> app_state \<Rightarrow> app_state \<times> chan option" where
  "answer_lookup rid ev st =
    (case tbl_get (inflight st) rid of
       None \<Rightarrow> (st, None)
     | Some c \<Rightarrow> (if terminal ev then remove_inflight rid st else st, Some c))"

definition answer_send :: "(chan \<Rightarrow> bool) \<Rightarrow> uuid \<Rightarrow> relay_event \<Rightarrow> chan \<Rightarrow> 't relay_act" where
  "answer_send rx rid ev c st =
    (if rx c then (st, [ToRequest c ev])
     else (if terminal ev then st else remove_inflight rid st, []))"

definition answer :: "(chan \<Rightarrow> bool) \<Rightarrow> uuid \<Rightarrow> relay_event \<Rightarrow> 't relay_act" where
  "answer rx rid ev st =
    (case answer_lookup rid ev st of
       (st', None) \<Rightarrow> (st', [])
     | (st', Some c) \<Rightarrow> answer_send rx rid ev c st')"

definition notify_start :: "(chan \<Rightarrow> bool) \<Rightarrow> uuid \<Rightarrow> u16 \<Rightarrow> header_list \<Rightarrow> 't relay_act" where
  "notify_start rx rid status headers = answer rx rid (EvStart status headers)"

definition notify_body :: "(chan \<Rightarrow> bool) \<Rightarrow> uuid \<Rightarrow> bytes \<Rightarrow> 't relay_act" where
  "notify_body rx rid bs = answer rx rid (EvBody bs)"

definition notify_end :: "(chan \<Rightarrow> bool) \<Rightarrow> uuid \<Rightarrow> 't relay_act" where
  "notify_end rx rid = answer rx rid EvEnd"

definition notify_error :: "(chan \<Rightarrow> bool) \<Rightarrow> uuid \<Rightarrow> string \<Rightarrow> string \<Rightarrow> 't relay_act" where
  "notify_error rx rid code message = answer rx rid (EvError code message)"

text \<open>The four methods with the two steps written out.\<close>

lemma notify_eqs:
  shows notify_start_eq: "notify_start rx rid status headers st =
      (case tbl_get (inflight st) rid of
         None \<Rightarrow> (st, [])
       | Some c \<Rightarrow> if rx c then (st, [ToRequest c (EvStart status headers)]) else (remove_inflight rid st, []))"
    and notify_body_eq: "notify_body rx rid bs st =
      (case tbl_get (inflight st) rid of
         None \<Rightarrow> (st, [])
       | Some c \<Rightarrow> if rx c then (st, [ToRequest c (EvBody bs)]) else (remove_inflight rid st, []))"
    and notify_end_eq: "notify_end rx rid st =
      (case tbl_get (inflight st) rid of
         None \<Rightarrow> (st, [])
       | Some c \<Rightarrow> (remove_inflight rid st, deliver (rx c) (ToRequest c EvEnd)))"
    and notify_error_eq: "notify_error rx rid code message st =
      (case tbl_get (inflight st) rid of
         None \<Rightarrow> (st, [])
       | Some c \<Rightarrow> (remove_inflight rid st, deliver (rx c) (ToRequest c (EvError code message))))"
  by (simp_all add: notify_start_def notify_body_def notify_end_def notify_error_def answer_def answer_lookup_def
      answer_send_def terminal_def deliver_def split: option.split)

definition add_ws_pending :: "uuid \<Rightarrow> string \<Rightarrow> chan \<Rightarrow> app_state \<Rightarrow> app_state" where
  "add_ws_pending sid tunnel_id tx st =
    st\<lparr>ws_pending := tbl_insert sid \<lparr>wp_tunnel_id = tunnel_id, wp_tx = tx\<rparr> (ws_pending st)\<rparr>"

definition remove_ws_pending :: "uuid \<Rightarrow> app_state \<Rightarrow> app_state" where
  "remove_ws_pending sid st = st\<lparr>ws_pending := tbl_remove sid (ws_pending st)\<rparr>"

definition notify_ws_connect_ack ::
    "(chan \<Rightarrow> bool) \<Rightarrow> uuid \<Rightarrow> bool \<Rightarrow> string option \<Rightarrow> string option \<Rightarrow> 't relay_act" where
  "notify_ws_connect_ack rx sid ok subprotocol reason st =
    (case tbl_get (ws_pending st) sid of
       None \<Rightarrow> (st, [])
     | Some p \<Rightarrow>
        (remove_ws_pending sid st,
         deliver (rx (wp_tx p)) (ToPending (wp_tx p)
           \<lparr>ack_ok = ok, selected_subprotocol = subprotocol, ack_reason = reason\<rparr>)))"

definition add_ws_stream :: "uuid \<Rightarrow> string \<Rightarrow> chan \<Rightarrow> app_state \<Rightarrow> app_state" where
  "add_ws_stream sid tunnel_id tx st =
    st\<lparr>ws_streams := tbl_insert sid \<lparr>ws_tunnel_id = tunnel_id, ws_sender = tx\<rparr> (ws_streams st)\<rparr>"

definition remove_ws_stream :: "uuid \<Rightarrow> app_state \<Rightarrow> app_state" where
  "remove_ws_stream sid st = st\<lparr>ws_streams := tbl_remove sid (ws_streams st)\<rparr>"

definition notify_ws_frame :: "(chan \<Rightarrow> bool) \<Rightarrow> uuid \<Rightarrow> ws_opcode \<Rightarrow> bytes \<Rightarrow> 't relay_act" where
  "notify_ws_frame rx sid opcode payload st =
    (case tbl_get (ws_streams st) sid of
       None \<Rightarrow> (st, [])
     | Some h \<Rightarrow>
        if rx (ws_sender h) then (st, [ToStream (ws_sender h) (WsEvFrame opcode payload)])
        else (remove_ws_stream sid st, []))"

definition notify_ws_close ::
    "(chan \<Rightarrow> bool) \<Rightarrow> uuid \<Rightarrow> u16 option \<Rightarrow> string option \<Rightarrow> 't relay_act" where
  "notify_ws_close rx sid code reason st =
    (case tbl_get (ws_streams st) sid of
       None \<Rightarrow> (st, [])
     | Some h \<Rightarrow>
        (remove_ws_stream sid st,
         deliver (rx (ws_sender h)) (ToStream (ws_sender h) (WsEvClose code reason))))"

text \<open>
  The two clean-up loops collect the ids of a tunnel first and then take the entries out one by
  one, which is what \<open>notify_ws_connect_ack\<close> and \<open>notify_ws_close\<close> do for one id.
\<close>

definition fail_ws_pending_for_tunnel :: "(chan \<Rightarrow> bool) \<Rightarrow> string \<Rightarrow> string \<Rightarrow> 't relay_act" where
  "fail_ws_pending_for_tunnel rx tunnel_id reason st =
    (let ids = map fst (filter (\<lambda>(_, p). wp_tunnel_id p = tunnel_id) (ws_pending st))
     in for_each (\<lambda>sid st.
          case tbl_get (ws_pending st) sid of
            None \<Rightarrow> (st, [])
          | Some p \<Rightarrow>
             (remove_ws_pending sid st,
              deliver (rx (wp_tx p)) (ToPending (wp_tx p)
                \<lparr>ack_ok = False, selected_subprotocol = None, ack_reason = Some reason\<rparr>))) ids st)"

definition close_ws_for_tunnel ::
    "(chan \<Rightarrow> bool) \<Rightarrow> string \<Rightarrow> u16 option \<Rightarrow> string \<Rightarrow> 't relay_act" where
  "close_ws_for_tunnel rx tunnel_id code reason st =
    (let ids = map fst (filter (\<lambda>(_, h). ws_tunnel_id h = tunnel_id) (ws_streams st))
     in for_each (\<lambda>sid st.
          case tbl_get (ws_streams st) sid of
            None \<Rightarrow> (st, [])
          | Some h \<Rightarrow>
             (remove_ws_stream sid st,
              deliver (rx (ws_sender h)) (ToStream (ws_sender h) (WsEvClose code (Some reason)))))
          ids st)"

definition remove_agent :: "string \<Rightarrow> app_state \<Rightarrow> app_state" where
  "remove_agent tunnel_id st = st\<lparr>agents := tbl_remove tunnel_id (agents st)\<rparr>"

text \<open>
  \<open>remove_agent_if\<close> takes the agent out under the lock of the agent table, which it keeps, and then
  goes over the two other tables, which have their own locks: it is the removal and the two loops in
  sequence, and the steps it consists of are operations other tasks' steps may come between.
\<close>

definition drop_agent :: "string \<Rightarrow> uuid \<Rightarrow> app_state \<Rightarrow> app_state \<times> bool" where
  "drop_agent tunnel_id cid st =
    (let should_remove =
       (case tbl_get (agents st) tunnel_id of None \<Rightarrow> False | Some a \<Rightarrow> connection_id a = cid)
     in (if should_remove then remove_agent tunnel_id st else st, should_remove))"

lemma drop_agent_eq:
  "drop_agent tid cid st =
    (if map_option connection_id (tbl_get (agents st) tid) = Some cid
     then (st\<lparr>agents := tbl_remove tid (agents st)\<rparr>, True) else (st, False))"
  by (auto simp: drop_agent_def remove_agent_def Let_def split: option.split)

definition remove_agent_if :: "(chan \<Rightarrow> bool) \<Rightarrow> string \<Rightarrow> uuid \<Rightarrow> 't relay_act" where
  "remove_agent_if rx tunnel_id cid st =
    (case drop_agent tunnel_id cid st of
       (st', should_remove) \<Rightarrow>
         if should_remove then
           andthen (fail_ws_pending_for_tunnel rx tunnel_id ''agent disconnected'')
             (close_ws_for_tunnel rx tunnel_id (Some 1011) ''agent disconnected'') st'
         else (st', []))"

definition is_valid_tunnel_id :: "string \<Rightarrow> bool" where
  "is_valid_tunnel_id tunnel_id \<longleftrightarrow>
    (if tunnel_id = [] \<or> length tunnel_id > 64 then False
     else list_all (\<lambda>c. is_ascii_alphanumeric c \<or> c = CHR ''-'' \<or> c = CHR ''_'') tunnel_id)"

text \<open>
  \<open>send_control\<close> (\<open>ws_wire.rs\<close>): serialise, then put the text on the agent's channel.
\<close>

definition send_control ::
    "'t json \<Rightarrow> (chan \<Rightarrow> bool) \<Rightarrow> chan \<Rightarrow> control_message \<Rightarrow> (string + unit) \<times> 't relay_out list" where
  "send_control J rx c msg =
    (case to_string J msg of
       Inl e \<Rightarrow> (Inl e, [])
     | Inr t \<Rightarrow> if rx c then (Inr (), [ToAgent c (MText t)])
                else (Inl ''agent websocket channel closed'', []))"

lemma send_control_ok:
  assumes "json_ok J"
  shows "\<exists>t. from_str J t = Inr msg \<and> send_control J rx c msg =
     (if rx c then (Inr (), [ToAgent c (MText t)]) else (Inl ''agent websocket channel closed'', []))"
proof -
  from assms obtain t where "to_string J msg = Inr t" and "from_str J t = Inr msg"
    unfolding json_ok_def by blast
  then show ?thesis by (intro exI [of _ t]) (simp add: send_control_def)
qed

section \<open>The tables\<close>

lemma ws_pending_entry_eta [simp]: "\<lparr>wp_tunnel_id = wp_tunnel_id p, wp_tx = wp_tx p\<rparr> = p"
  by (cases p) simp

lemma ws_stream_handle_eta [simp]: "\<lparr>ws_tunnel_id = ws_tunnel_id h, ws_sender = ws_sender h\<rparr> = h"
  by (cases h) simp

interpretation infl: keyed_table "\<lambda>st. tbl_get (inflight st)" add_inflight remove_inflight
  by unfold_locales (simp_all add: add_inflight_def remove_inflight_def table_simps)

interpretation pend: keyed_table "\<lambda>st. tbl_get (ws_pending st)"
  "\<lambda>sid p. add_ws_pending sid (wp_tunnel_id p) (wp_tx p)" remove_ws_pending
  by unfold_locales (simp_all add: add_ws_pending_def remove_ws_pending_def table_simps)

interpretation strm: keyed_table "\<lambda>st. tbl_get (ws_streams st)"
  "\<lambda>sid h. add_ws_stream sid (ws_tunnel_id h) (ws_sender h)" remove_ws_stream
  by unfold_locales (simp_all add: add_ws_stream_def remove_ws_stream_def table_simps)

definition state_ok :: "app_state \<Rightarrow> bool" where
  "state_ok st \<longleftrightarrow> tbl_ok (agents st) \<and> tbl_ok (inflight st) \<and> tbl_ok (ws_pending st) \<and> tbl_ok (ws_streams st)"

text \<open>The messages of the two clean-up loops.\<close>

definition pending_failure :: "(chan \<Rightarrow> bool) \<Rightarrow> string \<Rightarrow> ws_pending_entry \<Rightarrow> 't relay_out list" where
  "pending_failure rx reason p = deliver (rx (wp_tx p)) (ToPending (wp_tx p)
     \<lparr>ack_ok = False, selected_subprotocol = None, ack_reason = Some reason\<rparr>)"

definition stream_closure ::
    "(chan \<Rightarrow> bool) \<Rightarrow> u16 option \<Rightarrow> string \<Rightarrow> ws_stream_handle \<Rightarrow> 't relay_out list" where
  "stream_closure rx code reason h =
     deliver (rx (ws_sender h)) (ToStream (ws_sender h) (WsEvClose code (Some reason)))"

lemma fold_remove_ws_pending:
  "fold remove_ws_pending ids st = st\<lparr>ws_pending := fold tbl_remove ids (ws_pending st)\<rparr>"
  by (induction ids arbitrary: st) (simp_all add: remove_ws_pending_def)

lemma fold_remove_ws_stream:
  "fold remove_ws_stream ids st = st\<lparr>ws_streams := fold tbl_remove ids (ws_streams st)\<rparr>"
  by (induction ids arbitrary: st) (simp_all add: remove_ws_stream_def)

lemma fail_ws_pending_for_tunnel_eq:
  assumes "tbl_ok (ws_pending st)"
  shows "fail_ws_pending_for_tunnel rx tid reason st =
    (st\<lparr>ws_pending := filter (\<lambda>(_, p). wp_tunnel_id p \<noteq> tid) (ws_pending st)\<rparr>,
     concat (map (\<lambda>(_, p). pending_failure rx reason p)
       (filter (\<lambda>(_, p). wp_tunnel_id p = tid) (ws_pending st))))"
proof -
  let ?es = "filter (\<lambda>(_, p). wp_tunnel_id p = tid) (ws_pending st)"
  have "distinct (map fst ?es)" and "\<forall>(k, v)\<in>set ?es. tbl_get (ws_pending st) k = Some v"
    using assms by (auto simp: tbl_get_iff) (simp add: tbl_ok_def distinct_map_filter)
  from pend.drain [OF this, of "pending_failure rx reason"] show ?thesis
    unfolding fail_ws_pending_for_tunnel_def pending_failure_def Let_def
    by (simp add: fold_remove_ws_pending filter_out_keys assms)
qed

lemma close_ws_for_tunnel_eq:
  assumes "tbl_ok (ws_streams st)"
  shows "close_ws_for_tunnel rx tid code reason st =
    (st\<lparr>ws_streams := filter (\<lambda>(_, h). ws_tunnel_id h \<noteq> tid) (ws_streams st)\<rparr>,
     concat (map (\<lambda>(_, h). stream_closure rx code reason h)
       (filter (\<lambda>(_, h). ws_tunnel_id h = tid) (ws_streams st))))"
proof -
  let ?es = "filter (\<lambda>(_, h). ws_tunnel_id h = tid) (ws_streams st)"
  have "distinct (map fst ?es)" and "\<forall>(k, v)\<in>set ?es. tbl_get (ws_streams st) k = Some v"
    using assms by (auto simp: tbl_get_iff) (simp add: tbl_ok_def distinct_map_filter)
  from strm.drain [OF this, of "stream_closure rx code reason"] show ?thesis
    unfolding close_ws_for_tunnel_def stream_closure_def Let_def
    by (simp add: fold_remove_ws_stream filter_out_keys assms)
qed

lemma remove_agent_if_eq:
  assumes "state_ok st"
  shows "remove_agent_if rx tid cid st =
    (case get_agent st tid of
       None \<Rightarrow> (st, [])
     | Some a \<Rightarrow>
        if connection_id a = cid then
          (st\<lparr>agents := tbl_remove tid (agents st),
              ws_pending := filter (\<lambda>(_, p). wp_tunnel_id p \<noteq> tid) (ws_pending st),
              ws_streams := filter (\<lambda>(_, h). ws_tunnel_id h \<noteq> tid) (ws_streams st)\<rparr>,
           concat (map (\<lambda>(_, p). pending_failure rx ''agent disconnected'' p)
             (filter (\<lambda>(_, p). wp_tunnel_id p = tid) (ws_pending st)))
           @ concat (map (\<lambda>(_, h). stream_closure rx (Some 1011) ''agent disconnected'' h)
             (filter (\<lambda>(_, h). ws_tunnel_id h = tid) (ws_streams st))))
        else (st, []))"
  using assms
  by (auto simp: remove_agent_if_def drop_agent_eq get_agent_def state_ok_def andthen_def remove_agent_def Let_def
      fail_ws_pending_for_tunnel_eq close_ws_for_tunnel_eq split: option.split)

section \<open>Every operation as one step\<close>

datatype state_op =
    SInsertAgent string agent_handle
  | SRemoveAgentIf string uuid
  | SDropAgent string uuid
  | SAddInflight uuid chan
  | SRemoveInflight uuid
  | SNotifyStart uuid u16 header_list
  | SNotifyBody uuid bytes
  | SNotifyEnd uuid
  | SNotifyError uuid string string
  | SAddWsPending uuid string chan
  | SRemoveWsPending uuid
  | SNotifyWsConnectAck uuid bool "string option" "string option"
  | SAddWsStream uuid string chan
  | SRemoveWsStream uuid
  | SNotifyWsFrame uuid ws_opcode bytes
  | SNotifyWsClose uuid "u16 option" "string option"

fun exec_op :: "(chan \<Rightarrow> bool) \<Rightarrow> state_op \<Rightarrow> 't relay_act" where
  "exec_op rx (SInsertAgent t h) st = (fst (insert_agent_if_absent t h st), [])"
| "exec_op rx (SRemoveAgentIf t c) st = remove_agent_if rx t c st"
| "exec_op rx (SDropAgent t c) st = (fst (drop_agent t c st), [])"
| "exec_op rx (SAddInflight r c) st = (add_inflight r c st, [])"
| "exec_op rx (SRemoveInflight r) st = (remove_inflight r st, [])"
| "exec_op rx (SNotifyStart r s hs) st = notify_start rx r s hs st"
| "exec_op rx (SNotifyBody r b) st = notify_body rx r b st"
| "exec_op rx (SNotifyEnd r) st = notify_end rx r st"
| "exec_op rx (SNotifyError r c m) st = notify_error rx r c m st"
| "exec_op rx (SAddWsPending s t c) st = (add_ws_pending s t c st, [])"
| "exec_op rx (SRemoveWsPending s) st = (remove_ws_pending s st, [])"
| "exec_op rx (SNotifyWsConnectAck s ok p r) st = notify_ws_connect_ack rx s ok p r st"
| "exec_op rx (SAddWsStream s t c) st = (add_ws_stream s t c st, [])"
| "exec_op rx (SRemoveWsStream s) st = (remove_ws_stream s st, [])"
| "exec_op rx (SNotifyWsFrame s op b) st = notify_ws_frame rx s op b st"
| "exec_op rx (SNotifyWsClose s c r) st = notify_ws_close rx s c r st"

lemmas state_op_defs =
  insert_agent_if_absent_def drop_agent_eq add_inflight_def remove_inflight_def notify_start_eq notify_body_eq
  notify_end_eq notify_error_eq add_ws_pending_def remove_ws_pending_def
  notify_ws_connect_ack_def add_ws_stream_def remove_ws_stream_def notify_ws_frame_def
  notify_ws_close_def

lemma exec_op_state_ok:
  assumes "state_ok st"
  shows "state_ok (fst (exec_op rx op st))"
proof (cases op)
  case (SRemoveAgentIf t c)
  with assms show ?thesis
    by (auto simp: remove_agent_if_eq [OF assms] state_ok_def split: option.split)
qed (use assms in \<open>auto simp: state_op_defs state_ok_def split: option.split\<close>)

interpretation ops: preserving "exec_op rx" state_ok for rx
  by unfold_locales (rule exec_op_state_ok)

text \<open>
  All tasks of the relay change the state through these operations only; the reachable states are
  those of any interleaving. The operations that the code runs in several steps are included whole and
  in steps: a step of a notification leaves the state as it is or is a \<open>SRemoveInflight\<close>, and
  the clean-up of an agent is a \<open>SDropAgent\<close> followed by acknowledgements and closes.
\<close>

inductive reachable :: "app_state \<Rightarrow> bool" where
  reachable_new: "reachable (new_state tokens timeout)"
| reachable_op: "reachable st \<Longrightarrow> reachable (fst ((exec_op rx op :: unit relay_act) st))"

lemma reachable_state_ok: "reachable st \<Longrightarrow> state_ok st"
  by (induction rule: reachable.induct) (simp_all add: exec_op_state_ok, simp add: new_state_def state_ok_def)

subsection \<open>Entries and the tasks that own them\<close>

text \<open>
  Which operations add an entry of a given id and which surely remove it. The other tasks may
  remove it too (a terminal event, a lost receiver, the agent's clean-up), but only the owner adds.
\<close>

fun adds_request :: "uuid \<Rightarrow> state_op \<Rightarrow> bool" where
  "adds_request rid (SAddInflight r _) = (r = rid)" | "adds_request rid _ = False"

fun adds_pending :: "uuid \<Rightarrow> state_op \<Rightarrow> bool" where
  "adds_pending sid (SAddWsPending s _ _) = (s = sid)" | "adds_pending sid _ = False"

fun adds_stream :: "uuid \<Rightarrow> state_op \<Rightarrow> bool" where
  "adds_stream sid (SAddWsStream s _ _) = (s = sid)" | "adds_stream sid _ = False"

interpretation req_entry: owned_entry exec_op state_ok "\<lambda>st. tbl_get (inflight st) rid \<noteq> None"
    "adds_request rid" "\<lambda>op. op = SRemoveInflight rid" for rid
proof
  fix st :: app_state and rx op
  assume "state_ok st" and "tbl_get (inflight (fst (exec_op rx op st :: _ \<times> 'a relay_out list))) rid \<noteq> None"
  then show "adds_request rid op \<or> tbl_get (inflight st) rid \<noteq> None \<and> op \<noteq> SRemoveInflight rid"
    by (cases op) (auto simp: state_op_defs table_simps remove_agent_if_eq split: option.splits if_splits)
qed (rule exec_op_state_ok)

interpretation pend_entry: owned_entry exec_op state_ok "\<lambda>st. tbl_get (ws_pending st) sid \<noteq> None"
    "adds_pending sid" "\<lambda>op. op = SRemoveWsPending sid" for sid
proof
  fix st :: app_state and rx op
  assume "state_ok st" and "tbl_get (ws_pending (fst (exec_op rx op st :: _ \<times> 'a relay_out list))) sid \<noteq> None"
  then show "adds_pending sid op \<or> tbl_get (ws_pending st) sid \<noteq> None \<and> op \<noteq> SRemoveWsPending sid"
    by (cases op)
       (auto simp: state_op_defs table_simps remove_agent_if_eq tbl_get_filter state_ok_def
          split: option.splits if_splits)
qed (rule exec_op_state_ok)

interpretation strm_entry: owned_entry exec_op state_ok "\<lambda>st. tbl_get (ws_streams st) sid \<noteq> None"
    "adds_stream sid" "\<lambda>op. op = SRemoveWsStream sid" for sid
proof
  fix st :: app_state and rx op
  assume "state_ok st" and "tbl_get (ws_streams (fst (exec_op rx op st :: _ \<times> 'a relay_out list))) sid \<noteq> None"
  then show "adds_stream sid op \<or> tbl_get (ws_streams st) sid \<noteq> None \<and> op \<noteq> SRemoveWsStream sid"
    by (cases op)
       (auto simp: state_op_defs table_simps remove_agent_if_eq tbl_get_filter state_ok_def
          split: option.splits if_splits)
qed (rule exec_op_state_ok)

section \<open>Specification on maps\<close>

text \<open>What the state promises: four maps, with the effect of each operation on them.\<close>

record spec_state =
  sp_agents :: "string \<rightharpoonup> agent_handle"
  sp_inflight :: "uuid \<rightharpoonup> chan"
  sp_pending :: "uuid \<rightharpoonup> ws_pending_entry"
  sp_streams :: "uuid \<rightharpoonup> ws_stream_handle"

definition abs_state :: "app_state \<Rightarrow> spec_state" where
  "abs_state st =
     \<lparr>sp_agents = tbl_get (agents st), sp_inflight = tbl_get (inflight st),
      sp_pending = tbl_get (ws_pending st), sp_streams = tbl_get (ws_streams st)\<rparr>"

text \<open>The map without the entries that satisfy a predicate.\<close>

definition without :: "('v \<Rightarrow> bool) \<Rightarrow> ('k \<rightharpoonup> 'v) \<Rightarrow> ('k \<rightharpoonup> 'v)" where
  "without P m k = (case m k of None \<Rightarrow> None | Some v \<Rightarrow> if P v then None else Some v)"

text \<open>A table entry whose channel lost its receiver is dropped by the next message for it.\<close>

definition keep_if :: "bool \<Rightarrow> 'k \<Rightarrow> ('k \<rightharpoonup> 'v) \<Rightarrow> ('k \<rightharpoonup> 'v)" where
  "keep_if b k m = (if b then m else m(k := None))"

definition alive :: "(chan \<Rightarrow> bool) \<Rightarrow> ('v \<Rightarrow> chan) \<Rightarrow> 'v option \<Rightarrow> bool" where
  "alive rx c v = (case v of None \<Rightarrow> False | Some v \<Rightarrow> rx (c v))"

fun spec_op :: "(chan \<Rightarrow> bool) \<Rightarrow> state_op \<Rightarrow> spec_state \<Rightarrow> spec_state" where
  "spec_op rx (SInsertAgent t h) sp =
     (if t \<in> dom (sp_agents sp) then sp else sp\<lparr>sp_agents := (sp_agents sp)(t \<mapsto> h)\<rparr>)"
| "spec_op rx (SRemoveAgentIf t c) sp =
     (if map_option connection_id (sp_agents sp t) = Some c
      then sp\<lparr>sp_agents := (sp_agents sp)(t := None),
              sp_pending := without (\<lambda>p. wp_tunnel_id p = t) (sp_pending sp),
              sp_streams := without (\<lambda>h. ws_tunnel_id h = t) (sp_streams sp)\<rparr>
      else sp)"
| "spec_op rx (SDropAgent t c) sp =
     (if map_option connection_id (sp_agents sp t) = Some c then sp\<lparr>sp_agents := (sp_agents sp)(t := None)\<rparr> else sp)"
| "spec_op rx (SAddInflight r c) sp = sp\<lparr>sp_inflight := (sp_inflight sp)(r \<mapsto> c)\<rparr>"
| "spec_op rx (SRemoveInflight r) sp = sp\<lparr>sp_inflight := (sp_inflight sp)(r := None)\<rparr>"
| "spec_op rx (SNotifyStart r s hs) sp =
     sp\<lparr>sp_inflight := keep_if (alive rx id (sp_inflight sp r)) r (sp_inflight sp)\<rparr>"
| "spec_op rx (SNotifyBody r b) sp =
     sp\<lparr>sp_inflight := keep_if (alive rx id (sp_inflight sp r)) r (sp_inflight sp)\<rparr>"
| "spec_op rx (SNotifyEnd r) sp = sp\<lparr>sp_inflight := (sp_inflight sp)(r := None)\<rparr>"
| "spec_op rx (SNotifyError r c m) sp = sp\<lparr>sp_inflight := (sp_inflight sp)(r := None)\<rparr>"
| "spec_op rx (SAddWsPending s t c) sp =
     sp\<lparr>sp_pending := (sp_pending sp)(s \<mapsto> \<lparr>wp_tunnel_id = t, wp_tx = c\<rparr>)\<rparr>"
| "spec_op rx (SRemoveWsPending s) sp = sp\<lparr>sp_pending := (sp_pending sp)(s := None)\<rparr>"
| "spec_op rx (SNotifyWsConnectAck s ok p r) sp = sp\<lparr>sp_pending := (sp_pending sp)(s := None)\<rparr>"
| "spec_op rx (SAddWsStream s t c) sp =
     sp\<lparr>sp_streams := (sp_streams sp)(s \<mapsto> \<lparr>ws_tunnel_id = t, ws_sender = c\<rparr>)\<rparr>"
| "spec_op rx (SRemoveWsStream s) sp = sp\<lparr>sp_streams := (sp_streams sp)(s := None)\<rparr>"
| "spec_op rx (SNotifyWsFrame s op b) sp =
     sp\<lparr>sp_streams := keep_if (alive rx ws_sender (sp_streams sp s)) s (sp_streams sp)\<rparr>"
| "spec_op rx (SNotifyWsClose s c r) sp = sp\<lparr>sp_streams := (sp_streams sp)(s := None)\<rparr>"

lemma upd_None [simp]: "m k = None \<Longrightarrow> m(k := None) = m"
  by auto

lemma without_filter: "tbl_ok t \<Longrightarrow> without P (tbl_get t) = tbl_get (filter (\<lambda>(_, v). \<not> P v) t)"
  by (rule ext) (simp add: without_def tbl_get_filter split: option.split)

text \<open>
  C3: the shared state refines its specification on maps. From any state with distinct keys each
  of the sixteen operations, seen through the lookup functions, does what the specification says,
  whatever order the hash tables are iterated in.
\<close>

theorem exec_op_refines:
  assumes "state_ok st"
  shows "abs_state (fst (exec_op rx op st)) = spec_op rx op (abs_state st)"
proof (cases op)
  case (SRemoveAgentIf t c)
  with assms show ?thesis
    by (auto simp: remove_agent_if_eq [OF assms] abs_state_def get_agent_def state_ok_def
        table_simps without_filter split: option.split)
qed (auto simp: state_op_defs abs_state_def table_simps keep_if_def alive_def split: option.split)

text \<open>A concrete state: one agent, an in-flight request, a pending and an open WebSocket.\<close>

definition sample_state :: app_state where
  "sample_state =
     \<lparr>auth_tokens = {''tok''},
      agents = [(''demo'', \<lparr>connection_id = 1, sender = 10, capabilities = {CAP_WS_TUNNEL_V1},
        protocol_version = 2\<rparr>)],
      inflight = [(100, 20)],
      ws_pending = [(200, \<lparr>wp_tunnel_id = ''demo'', wp_tx = 30\<rparr>),
                    (201, \<lparr>wp_tunnel_id = ''other'', wp_tx = 31\<rparr>)],
      ws_streams = [(300, \<lparr>ws_tunnel_id = ''demo'', ws_sender = 40\<rparr>)],
      request_timeout_secs = 60\<rparr>"

lemma sample_state_ok [simp]: "state_ok sample_state"
  by (simp add: sample_state_def state_ok_def tbl_ok_def)

theorem exec_op_refines_witness:
  "abs_state (fst ((exec_op (\<lambda>_. True) (SNotifyEnd 100) :: unit relay_act) sample_state)) =
     spec_op (\<lambda>_. True) (SNotifyEnd 100) (abs_state sample_state)"
  by (rule exec_op_refines) simp

section \<open>A disconnected agent\<close>

text \<open>The entries of a tunnel whose receiver is still there.\<close>

definition tunnel_pending :: "(chan \<Rightarrow> bool) \<Rightarrow> string \<Rightarrow> app_state \<Rightarrow> (uuid \<times> ws_pending_entry) set" where
  "tunnel_pending rx tid st = {(sid, p). tbl_get (ws_pending st) sid = Some p \<and> wp_tunnel_id p = tid \<and> rx (wp_tx p)}"

definition tunnel_streams :: "(chan \<Rightarrow> bool) \<Rightarrow> string \<Rightarrow> app_state \<Rightarrow> (uuid \<times> ws_stream_handle) set" where
  "tunnel_streams rx tid st = {(sid, h). tbl_get (ws_streams st) sid = Some h \<and> ws_tunnel_id h = tid \<and> rx (ws_sender h)}"

lemma mset_deliveries:
  assumes "tbl_ok t"
  shows "mset (concat (map (\<lambda>(_, v). deliver (b v) (f v)) (filter (\<lambda>(_, v). P v) t))) =
    image_mset (\<lambda>(_, v). f v) (mset_set {(k, v). tbl_get t k = Some v \<and> P v \<and> b v})"
proof -
  have "mset (concat (map (\<lambda>(_, v). deliver (b v) (f v)) (filter (\<lambda>(_, v). P v) t))) =
      image_mset (\<lambda>(_, v). f v) (mset (filter (\<lambda>(_, v). P v \<and> b v) t))"
    by (induction t) (auto simp: deliver_def split: if_splits)
  also have "mset (filter (\<lambda>(_, v). P v \<and> b v) t) = mset_set (set (filter (\<lambda>(_, v). P v \<and> b v) t))"
    by (rule mset_set_set [symmetric]) (use assms in \<open>simp add: tbl_ok_def distinct_map\<close>)
  also have "set (filter (\<lambda>(_, v). P v \<and> b v) t) = {(k, v). tbl_get t k = Some v \<and> P v \<and> b v}"
    by (auto simp: tbl_get_iff [OF assms])
  finally show ?thesis .
qed

text \<open>
  C18: when the connection that owns a tunnel ends, and its clean-up is not interrupted, the tunnel's
  agent is gone and no other is, its pending and open WebSockets are removed and those of other
  tunnels are untouched. What is sent is, in some order, exactly one negative acknowledgement for
  each pending and one close with code 1011 for each open WebSocket of the tunnel whose task is
  still there, and nothing else to anyone.
\<close>

theorem disconnect_cleanup:
  assumes "state_ok st" and "map_option connection_id (get_agent st tid) = Some cid"
    and "remove_agent_if rx tid cid st = (st', out)"
  shows "tbl_get (agents st') = (tbl_get (agents st))(tid := None) \<and>
    tbl_get (ws_pending st') = without (\<lambda>p. wp_tunnel_id p = tid) (tbl_get (ws_pending st)) \<and>
    tbl_get (ws_streams st') = without (\<lambda>h. ws_tunnel_id h = tid) (tbl_get (ws_streams st)) \<and>
    inflight st' = inflight st \<and>
    mset out =
      image_mset (\<lambda>(_, p). ToPending (wp_tx p) \<lparr>ack_ok = False, selected_subprotocol = None,
          ack_reason = Some ''agent disconnected''\<rparr>) (mset_set (tunnel_pending rx tid st)) +
      image_mset (\<lambda>(_, h). ToStream (ws_sender h) (WsEvClose (Some 1011) (Some ''agent disconnected'')))
        (mset_set (tunnel_streams rx tid st))"
proof -
  from assms(1) have ok: "tbl_ok (ws_pending st)" "tbl_ok (ws_streams st)"
    by (simp_all add: state_ok_def)
  from assms(2,3) have st': "st' = st\<lparr>agents := tbl_remove tid (agents st),
        ws_pending := filter (\<lambda>(_, p). wp_tunnel_id p \<noteq> tid) (ws_pending st),
        ws_streams := filter (\<lambda>(_, h). ws_tunnel_id h \<noteq> tid) (ws_streams st)\<rparr>"
    and out: "out = concat (map (\<lambda>(_, p). pending_failure rx ''agent disconnected'' p)
        (filter (\<lambda>(_, p). wp_tunnel_id p = tid) (ws_pending st)))
      @ concat (map (\<lambda>(_, h). stream_closure rx (Some 1011) ''agent disconnected'' h)
        (filter (\<lambda>(_, h). ws_tunnel_id h = tid) (ws_streams st)))"
    by (auto simp: remove_agent_if_eq [OF assms(1)])
  have tables: "tbl_get (agents st') = (tbl_get (agents st))(tid := None)"
    "tbl_get (ws_pending st') = without (\<lambda>p. wp_tunnel_id p = tid) (tbl_get (ws_pending st))"
    "tbl_get (ws_streams st') = without (\<lambda>h. ws_tunnel_id h = tid) (tbl_get (ws_streams st))"
    "inflight st' = inflight st"
    by (simp_all add: st' table_simps without_filter ok)
  show ?thesis unfolding tables out mset_append pending_failure_def stream_closure_def tunnel_pending_def tunnel_streams_def
    by (simp only: mset_deliveries [OF ok(1)] mset_deliveries [OF ok(2)])
qed

theorem disconnect_cleanup_witness:
  "\<exists>st' out. remove_agent_if (\<lambda>_. True) ''demo'' 1 sample_state = (st', out :: unit relay_out list) \<and>
     mset out = {# ToPending 30 \<lparr>ack_ok = False, selected_subprotocol = None, ack_reason = Some ''agent disconnected''\<rparr>,
       ToStream 40 (WsEvClose (Some 1011) (Some ''agent disconnected'')) #}"
proof -
  obtain st' and out :: "unit relay_out list"
    where r: "remove_agent_if (\<lambda>_. True) ''demo'' 1 sample_state = (st', out)"
    by fastforce
  have "map_option connection_id (get_agent sample_state ''demo'') = Some 1"
    by (simp add: sample_state_def get_agent_def tbl_get_def)
  note cleanup = disconnect_cleanup [OF sample_state_ok this r]
  have "tunnel_pending (\<lambda>_. True) ''demo'' sample_state = {(200, \<lparr>wp_tunnel_id = ''demo'', wp_tx = 30\<rparr>)}"
    "tunnel_streams (\<lambda>_. True) ''demo'' sample_state = {(300, \<lparr>ws_tunnel_id = ''demo'', ws_sender = 40\<rparr>)}"
    by (auto simp: tunnel_pending_def tunnel_streams_def sample_state_def tbl_get_def split: if_splits)
  with cleanup r show ?thesis by simp
qed

text \<open>
  A connection can only take itself out. If the tunnel is not registered, or registered by
  another connection, the clean-up of a connection changes nothing and sends nothing.
\<close>

lemma remove_agent_if_not_owner:
  assumes "map_option connection_id (get_agent st tid) \<noteq> Some cid"
  shows "remove_agent_if rx tid cid st = (st, [])"
  using assms by (auto simp: remove_agent_if_def drop_agent_eq get_agent_def Let_def split: option.split)

lemma remove_agent_if_not_owner_witness:
  "remove_agent_if (\<lambda>_. True) ''demo'' 2 sample_state = (sample_state, [] :: unit relay_out list)"
  by (rule remove_agent_if_not_owner) (simp add: sample_state_def get_agent_def tbl_get_def)

section \<open>Events of one request\<close>

definition events_to :: "chan \<Rightarrow> 't relay_out list \<Rightarrow> relay_event list" where
  "events_to c out = List.map_filter
     (\<lambda>m. case m of ToRequest d e \<Rightarrow> if d = c then Some e else None | _ \<Rightarrow> None) out"

lemma events_to_simps [simp]:
  "events_to c [] = []"
  "events_to c (m # ms) = (case m of ToRequest d e \<Rightarrow> if d = c then [e] else [] | _ \<Rightarrow> []) @ events_to c ms"
  "events_to c (xs @ ys) = events_to c xs @ events_to c ys"
proof -
  show cons: "events_to c (m # ms) =
      (case m of ToRequest d e \<Rightarrow> if d = c then [e] else [] | _ \<Rightarrow> []) @ events_to c ms" for m ms
    by (auto simp: events_to_def map_filter_simps split: relay_out.split)
  show "events_to c [] = []" by (simp add: events_to_def map_filter_simps)
  then show "events_to c (xs @ ys) = events_to c xs @ events_to c ys"
    by (induction xs) (simp_all add: cons)
qed

lemma events_to_deliver [simp]:
  "events_to c (deliver b m) = (if b then events_to c [m] else [])"
  by (simp add: deliver_def)

lemma events_to_cleanup [simp]:
  "events_to c (concat (map (\<lambda>(_, p). pending_failure rx r p) es)) = []"
  "events_to c (concat (map (\<lambda>(_, h). stream_closure rx code r h) fs)) = []"
  by (induction es) (auto simp: pending_failure_def,
      induction fs, auto simp: stream_closure_def)

lemma remove_agent_if_inflight:
  assumes "state_ok st"
  shows "inflight (fst (remove_agent_if rx tid cid st)) = inflight st"
    and "events_to c (snd (remove_agent_if rx tid cid st)) = []"
  by (auto simp: remove_agent_if_eq [OF assms] split: option.split)

lemma remove_agent_if_no_event:
  fixes out :: "'t relay_out list"
  assumes "state_ok st" and "remove_agent_if rx tid cid st = (st', out)"
  shows "events_to c out = []"
  using remove_agent_if_inflight(2) [OF assms(1), of c rx tid cid] assms(2)
  by (auto simp: remove_agent_if_eq [OF assms(1)] split: option.splits if_splits)

text \<open>
  The clean-up of a disconnected agent does not reach the requests in flight: their entries
  stay in the table and their channels get neither an event nor a closed sender, so such a request
  ends by its own timeout, and a response already being streamed is not ended at all.
\<close>

lemma disconnect_leaves_inflight:
  assumes "state_ok st"
  shows "inflight (fst (remove_agent_if rx tid cid st)) = inflight st \<and>
    events_to c (snd (remove_agent_if rx tid cid st)) = []"
  by (simp add: remove_agent_if_inflight [OF assms])

lemma disconnect_leaves_inflight_witness:
  "tbl_get (inflight (fst ((remove_agent_if (\<lambda>_. True) ''demo'' 1 :: unit relay_act) sample_state))) 100
     = Some 20"
  by (simp only: disconnect_leaves_inflight [OF sample_state_ok, THEN conjunct1])
     (simp add: sample_state_def tbl_get_def)

abbreviation run_ops :: "((chan \<Rightarrow> bool) \<times> state_op) list \<Rightarrow> 't relay_act" where
  "run_ops ops \<equiv> for_each (\<lambda>(rx, op). exec_op rx op) ops"

section \<open>The operations the code runs in steps\<close>

text \<open>
  The steps of a notification change the state as \<open>SRemoveInflight\<close> does or not at all, and the
  clean-up of an agent is \<open>SDropAgent\<close> and then, for each entry the loops have collected, what
  \<open>SNotifyWsConnectAck\<close> or \<open>SNotifyWsClose\<close> does. So what holds of every sequence of operations holds
  also where other tasks come between these steps.
\<close>

lemma answer_lookup_op:
  "fst (answer_lookup rid ev st) = st \<or>
   fst (answer_lookup rid ev st) = fst ((exec_op rx (SRemoveInflight rid) :: 't relay_act) st)"
  by (simp add: answer_lookup_def split: option.split)

lemma answer_send_op:
  "fst (answer_send rx rid ev c st) = st \<or> fst (answer_send rx rid ev c st) = fst (exec_op rx (SRemoveInflight rid) st)"
  by (simp add: answer_send_def)

lemma fail_ws_pending_steps:
  "fail_ws_pending_for_tunnel rx tid reason st =
    run_ops (map (\<lambda>sid. (rx, SNotifyWsConnectAck sid False None (Some reason)))
      (map fst (filter (\<lambda>(_, p). wp_tunnel_id p = tid) (ws_pending st)))) st"
  unfolding fail_ws_pending_for_tunnel_def Let_def for_each_map
  by (rule arg_cong [where f = "\<lambda>f. for_each f _ st"]) (simp add: fun_eq_iff notify_ws_connect_ack_def)

lemma close_ws_steps:
  "close_ws_for_tunnel rx tid code reason st =
    run_ops (map (\<lambda>sid. (rx, SNotifyWsClose sid code (Some reason)))
      (map fst (filter (\<lambda>(_, h). ws_tunnel_id h = tid) (ws_streams st)))) st"
  unfolding close_ws_for_tunnel_def Let_def for_each_map
  by (rule arg_cong [where f = "\<lambda>f. for_each f _ st"]) (simp add: fun_eq_iff notify_ws_close_def)

lemma remove_agent_if_steps:
  fixes rx :: "chan \<Rightarrow> bool"
  assumes "state_ok st" and "map_option connection_id (get_agent st tid) = Some cid"
  shows "remove_agent_if rx tid cid st =
    (run_ops (map (Pair rx) (SDropAgent tid cid #
      map (\<lambda>sid. SNotifyWsConnectAck sid False None (Some ''agent disconnected''))
        (map fst (filter (\<lambda>(_, p). wp_tunnel_id p = tid) (ws_pending st))) @
      map (\<lambda>sid. SNotifyWsClose sid (Some 1011) (Some ''agent disconnected''))
        (map fst (filter (\<lambda>(_, h). ws_tunnel_id h = tid) (ws_streams st))))) :: 't relay_act) st"
proof -
  let ?st = "st\<lparr>agents := tbl_remove tid (agents st)\<rparr>"
  let ?p = "fail_ws_pending_for_tunnel rx tid ''agent disconnected'' :: 't relay_act"
  have ok: "tbl_ok (ws_pending ?st)" using assms(1) by (simp add: state_ok_def)
  have streams: "ws_streams (fst (?p ?st)) = ws_streams st"
    by (simp add: fail_ws_pending_for_tunnel_eq [OF ok])
  have "drop_agent tid cid st = (?st, True)" using assms(2) by (simp add: drop_agent_eq get_agent_def)
  then have "remove_agent_if rx tid cid st =
      andthen ?p (close_ws_for_tunnel rx tid (Some 1011) ''agent disconnected'') ?st"
    by (simp add: remove_agent_if_def)
  also have "\<dots> = andthen (run_ops (map (\<lambda>sid. (rx, SNotifyWsConnectAck sid False None (Some ''agent disconnected'')))
        (map fst (filter (\<lambda>(_, p). wp_tunnel_id p = tid) (ws_pending st)))))
      (run_ops (map (\<lambda>sid. (rx, SNotifyWsClose sid (Some 1011) (Some ''agent disconnected'')))
        (map fst (filter (\<lambda>(_, h). ws_tunnel_id h = tid) (ws_streams st))))) ?st"
    (is "andthen ?p ?c ?st = andthen ?q ?d ?st")
  proof -
    have q: "?p ?st = ?q ?st" using fail_ws_pending_steps [of rx tid _ ?st] by simp
    have "?c (fst (?p ?st)) = ?d (fst (?p ?st))" unfolding close_ws_steps streams ..
    then show ?thesis unfolding andthen_def case_prod_unfold Let_def q by simp
  qed
  also have "\<dots> = (run_ops (map (Pair rx) (SDropAgent tid cid #
      map (\<lambda>sid. SNotifyWsConnectAck sid False None (Some ''agent disconnected''))
        (map fst (filter (\<lambda>(_, p). wp_tunnel_id p = tid) (ws_pending st))) @
      map (\<lambda>sid. SNotifyWsClose sid (Some 1011) (Some ''agent disconnected''))
        (map fst (filter (\<lambda>(_, h). ws_tunnel_id h = tid) (ws_streams st))))) :: 't relay_act) st"
    using \<open>drop_agent tid cid st = (?st, True)\<close>
    by (simp add: for_each_append comp_def andthen_def split: prod.split)
  finally show ?thesis .
qed

end
