(* ===== verification/Relay_Http.thy ===== *)
theory Relay_Http
  imports Relay_State
begin

text \<open>
  The public side of the relay for plain HTTP: \<open>crates/relay-server/src/http_ingress.rs\<close> and
  the choice between HTTP and WebSocket of \<open>ingress.rs\<close>. A request handler runs beside the agent
  sessions, so it is modelled by its trace: the operations on the shared state and the messages to
  the agent, in the order of the code, given what it read from the world (the agent lookup, the
  request body, whether each send still finds the connection open, the response channel). The
  lemmas show the target path, the headers that pass, the request frames, the waiting loop with its
  deadline, the response body and that the request's table entry is removed on every exit.
\<close>

section \<open>Paths and headers\<close>

definition extract_target_path :: "string option \<Rightarrow> string \<Rightarrow> string \<Rightarrow> string" where
  "extract_target_path path_and_query tunnel_id tail_path =
    (case path_and_query of
       Some pq \<Rightarrow>
         (let base = ''/t/'' @ tunnel_id;
              trimmed = (case strip_prefix base pq of Some rest \<Rightarrow> rest | None \<Rightarrow> pq)
          in if trimmed = [] then ''/'' else trimmed)
     | None \<Rightarrow> if tail_path = [] then ''/'' else ''/'' @ tail_path)"

definition flatten_headers :: "http_lib \<Rightarrow> header_map \<Rightarrow> header_list" where
  "flatten_headers H headers =
     copy_headers (\<lambda>(name, value).
       if is_hop_header name \<or> eq_ignore_ascii_case name ''host'' then None
       else case value_to_str H value of Some v \<Rightarrow> Some (name, v) | None \<Rightarrow> None) headers"

definition apply_forwarded_headers :: "http_lib \<Rightarrow> header_map \<Rightarrow> header_list \<Rightarrow> header_map" where
  "apply_forwarded_headers H headers forwarded =
     headers @ copy_headers (\<lambda>(key, value).
       if is_hop_header key then None
       else case header_name H key of None \<Rightarrow> None
         | Some name \<Rightarrow> (case header_value H value of None \<Rightarrow> None | Some v \<Rightarrow> Some (name, v))) forwarded"

definition has_csv_token :: "http_lib \<Rightarrow> header_map \<Rightarrow> string \<Rightarrow> string \<Rightarrow> bool" where
  "has_csv_token H headers name expected =
    (case Option.bind (hm_get headers name) (value_to_str H) of
       None \<Rightarrow> False
     | Some value \<Rightarrow>
         list_ex (\<lambda>token. eq_ignore_ascii_case (trim token) expected) (split_char CHR '','' value))"

definition header_eq :: "http_lib \<Rightarrow> header_map \<Rightarrow> string \<Rightarrow> string \<Rightarrow> bool" where
  "header_eq H headers name expected =
    (case Option.bind (hm_get headers name) (value_to_str H) of
       None \<Rightarrow> False
     | Some value \<Rightarrow> eq_ignore_ascii_case value expected)"

definition is_ws_upgrade_candidate :: "http_lib \<Rightarrow> string \<Rightarrow> header_map \<Rightarrow> bool" where
  "is_ws_upgrade_candidate H method headers =
    (if method \<noteq> ''GET'' then False
     else has_csv_token H headers ''connection'' ''upgrade''
       \<and> header_eq H headers ''upgrade'' ''websocket''
       \<and> hm_get headers ''sec-websocket-key'' \<noteq> None
       \<and> has_csv_token H headers ''sec-websocket-version'' ''13'')"

text \<open>
  \<open>ingress_root\<close> and \<open>ingress_path\<close>: a WebSocket tunnel to the target path if the request is a
  candidate and the server library accepts the upgrade, else an HTTP request. The root route has
  the empty tail.
\<close>

datatype ingress_route = RouteWs string | RouteHttp

definition ingress_dispatch ::
    "http_lib \<Rightarrow> string \<Rightarrow> header_map \<Rightarrow> bool \<Rightarrow> string option \<Rightarrow> string \<Rightarrow> string \<Rightarrow> ingress_route" where
  "ingress_dispatch H method headers upgrade_ok path_and_query tunnel_id tail =
    (if is_ws_upgrade_candidate H method headers then
       let ws = (if method \<noteq> ''GET'' then False else upgrade_ok)
       in if ws then RouteWs (extract_target_path path_and_query tunnel_id tail) else RouteHttp
     else RouteHttp)"

section \<open>The request handler\<close>

datatype 't action = Do state_op | Put "'t relay_out"

datatype body_item = Chunk bytes | BodyErr string

record http_response =
  rsp_status :: u16
  rsp_headers :: header_map
  rsp_body :: "bytes list"
  rsp_complete :: bool

definition simple_response :: "u16 \<Rightarrow> string \<Rightarrow> http_response" where
  "simple_response status body =
     \<lparr>rsp_status = status, rsp_headers = [], rsp_body = [as_bytes body], rsp_complete = True\<rparr>"

text \<open>
  \<open>stream_request_body\<close>: each item of the body comes with whether the agent's channel is still
  open when the loop reaches it.
\<close>

fun stream_request_body ::
    "chan \<Rightarrow> uuid \<Rightarrow> u8 \<Rightarrow> u32 \<Rightarrow> (body_item \<times> bool) list \<Rightarrow> (string + unit) \<times> 't relay_out list" where
  "stream_request_body c rid version n [] = (Inr (), [])"
| "stream_request_body c rid version n ((BodyErr e, _) # rest) = (Inl e, [])"
| "stream_request_body c rid version n ((Chunk chunk, is_open) # rest) =
    (if chunk = [] then stream_request_body c rid version n rest
     else let frame = encode_chunk_frame_with_version version
                \<lparr>kind = RequestBody, request_id = rid, seq = n, fin = False\<rparr> chunk
          in if \<not> is_open then (Inl ''agent websocket channel closed'', [])
             else case stream_request_body c rid version (n + 1) rest of
               (r, sent) \<Rightarrow> (r, ToAgent c (MBinary frame) # sent))"

text \<open>
  The waiting loop. A poll is the time since the request end was sent (in nanoseconds) at the top of
  a round, and what \<open>timeout(remaining, rx.recv())\<close> gives: \<open>None\<close> when the timeout elapses,
  else the next event or \<open>None\<close> for a closed channel. No polls left: the loop is still waiting.
\<close>

type_synonym poll = "nat \<times> relay_event option option"

datatype start_result = Started u16 header_list "bytes list" | Failed u16 string

fun await_start :: "nat \<Rightarrow> bytes list \<Rightarrow> poll list \<Rightarrow> start_result option" where
  "await_start deadline early [] = None"
| "await_start deadline early ((elapsed, r) # polls) =
    (let remaining = deadline - elapsed
     in if remaining = 0 then Some (Failed 504 ''agent response timeout'')
        else case r of
          Some (Some evt) \<Rightarrow>
            (case evt of
               EvStart status headers \<Rightarrow> Some (Started status headers early)
             | EvBody chunk \<Rightarrow> await_start deadline (early @ [chunk]) polls
             | EvEnd \<Rightarrow> Some (Failed 502 ''agent response ended before start'')
             | EvError code message \<Rightarrow> Some (Failed 502 ''agent request error''))
        | Some None \<Rightarrow> Some (Failed 502 ''agent closed response stream'')
        | None \<Rightarrow> Some (Failed 504 ''agent response timeout''))"

text \<open>
  The response stream after the early chunks, over the results of \<open>rx.recv()\<close>: the chunks it
  yields and whether it has ended. There is no timeout here, and the entry is removed only at the
  end.
\<close>

fun response_stream :: "relay_event option list \<Rightarrow> bytes list \<times> bool" where
  "response_stream [] = ([], False)"
| "response_stream (None # evs) = ([], True)"
| "response_stream (Some (EvBody chunk) # evs) =
     (case response_stream evs of (cs, done) \<Rightarrow> (chunk # cs, done))"
| "response_stream (Some EvEnd # evs) = ([], True)"
| "response_stream (Some (EvError code message) # evs) = ([], True)"
| "response_stream (Some (EvStart _ _) # evs) = response_stream evs"

record ingress_request =
  rq_tunnel :: string
  rq_tail :: string
  rq_path_and_query :: "string option"
  rq_method :: string
  rq_headers :: header_map

text \<open>What the handler meets: the lookup's answer, its fresh id and channel, and the channels.\<close>

record ingress_env =
  in_agent :: "agent_handle option"
  in_rid :: uuid
  in_chan :: chan
  in_start_open :: bool
  in_body :: "(body_item \<times> bool) list"
  in_end_open :: bool
  in_timeout :: u64
  in_polls :: "poll list"
  in_events :: "relay_event option list"

definition nanos :: "u64 \<Rightarrow> nat" where
  "nanos secs = unat secs * 1000000000"

definition handle_ingress ::
    "'t json \<Rightarrow> http_lib \<Rightarrow> ingress_request \<Rightarrow> ingress_env \<Rightarrow> 't action list \<times> http_response option" where
  "handle_ingress J H rq e =
    (case in_agent e of
       None \<Rightarrow> ([], Some (simple_response 502 ''no connected agent for tunnel''))
     | Some agent \<Rightarrow>
        (let rid = in_rid e;
             target_path = extract_target_path (rq_path_and_query rq) (rq_tunnel rq) (rq_tail rq);
             start = HttpRequestStart rid (rq_method rq) target_path (flatten_headers H (rq_headers rq))
         in case send_control J (\<lambda>_. in_start_open e) (sender agent) start of
              (Inl _, s) \<Rightarrow>
                (map Put s, Some (simple_response 502 ''failed to deliver request start to agent''))
            | (Inr _, s) \<Rightarrow>
               (let t1 = map Put s @ [Do (SAddInflight rid (in_chan e))]
                in case stream_request_body (sender agent) rid (protocol_version agent) 0 (in_body e) of
                     (Inl _, sb) \<Rightarrow>
                       (t1 @ map Put sb @ [Do (SRemoveInflight rid)],
                        Some (simple_response 502 ''failed to stream request body''))
                   | (Inr _, sb) \<Rightarrow>
                      (case send_control J (\<lambda>_. in_end_open e) (sender agent) (HttpRequestEnd rid) of
                         (Inl _, se) \<Rightarrow>
                           (t1 @ map Put (sb @ se) @ [Do (SRemoveInflight rid)],
                            Some (simple_response 502 ''failed to deliver request end to agent''))
                       | (Inr _, se) \<Rightarrow>
                          (let t2 = t1 @ map Put (sb @ se)
                           in case await_start (nanos (in_timeout e)) [] (in_polls e) of
                                None \<Rightarrow> (t2, None)
                              | Some (Failed status body) \<Rightarrow>
                                  (t2 @ [Do (SRemoveInflight rid)], Some (simple_response status body))
                              | Some (Started status headers early) \<Rightarrow>
                                  (case response_stream (in_events e) of
                                     (chunks, finished) \<Rightarrow>
                                       (t2 @ (if finished then [Do (SRemoveInflight rid)] else []),
                                        Some \<lparr>rsp_status = (if status_valid H status then status else 502),
                                          rsp_headers = apply_forwarded_headers H [] headers,
                                          rsp_body = early @ chunks,
                                          rsp_complete = finished\<rparr>)))))))"

section \<open>Target paths\<close>

lemma extract_prefixed:
  "extract_target_path (Some (''/t/'' @ tid @ rest)) tid tail = (if rest = [] then ''/'' else rest)"
proof -
  have "strip_prefix (''/t/'' @ tid) ((''/t/'' @ tid) @ rest) = Some rest" by (rule strip_prefix_append)
  then show ?thesis by (simp add: extract_target_path_def Let_def)
qed

lemma extract_unprefixed:
  "\<nexists>rest. pq = ''/t/'' @ tid @ rest \<Longrightarrow>
    extract_target_path (Some pq) tid tail = (if pq = [] then ''/'' else pq)"
  by (cases "strip_prefix (''/t/'' @ tid) pq")
     (simp_all add: extract_target_path_def Let_def strip_prefix_Some)

lemma extract_nonempty: "extract_target_path p tid tail \<noteq> []"
  by (cases p) (simp_all add: extract_target_path_def Let_def)

text \<open>
  The path an agent is asked for. If the request's path and query start, byte for byte, with
  the tunnel's prefix, it is what follows, or \<open>/\<close> if nothing does; if they do not (a
  percent-encoded tunnel id reaches the same route), they are passed on whole, prefix included; the
  target is never empty.
\<close>

lemma extract_target_path_cases:
  "extract_target_path (Some (''/t/'' @ tid @ rest)) tid tail = (if rest = [] then ''/'' else rest) \<and>
   ((\<exists>r. pq = ''/t/'' @ tid @ r) \<or>
     extract_target_path (Some pq) tid tail = (if pq = [] then ''/'' else pq)) \<and>
   extract_target_path p tid tail \<noteq> []"
proof (intro conjI)
  show "extract_target_path (Some (''/t/'' @ tid @ rest)) tid tail = (if rest = [] then ''/'' else rest)"
    by (rule extract_prefixed)
  show "(\<exists>r. pq = ''/t/'' @ tid @ r) \<or>
     extract_target_path (Some pq) tid tail = (if pq = [] then ''/'' else pq)"
    using extract_unprefixed by blast
  show "extract_target_path p tid tail \<noteq> []" by (rule extract_nonempty)
qed

section \<open>Headers\<close>

lemma flatten_headers_filter:
  "flatten_headers H hs =
    map (\<lambda>(n, b). (n, the (value_to_str H b)))
      (filter (\<lambda>(n, b). \<not> is_hop_header n \<and> \<not> eq_ignore_ascii_case n ''host'' \<and> value_to_str H b \<noteq> None) hs)"
  by (induction hs) (auto simp: flatten_headers_def split: option.splits)

text \<open>
  The request headers an agent sees are the client's, in order and with repetitions, less
  exactly the hop-by-hop ones and \<open>Host\<close> in any case and those whose value is not text.
\<close>

lemma flatten_headers_exact:
  "map fst (flatten_headers H hs) =
     map fst (filter (\<lambda>(n, b). \<not> is_hop_header n \<and> to_ascii_lowercase n \<noteq> ''host''
       \<and> value_to_str H b \<noteq> None) hs) \<and>
   set (flatten_headers H hs) =
     {(n, v). \<not> is_hop_header n \<and> to_ascii_lowercase n \<noteq> ''host'' \<and>
       (\<exists>b. (n, b) \<in> set hs \<and> value_to_str H b = Some v)}"
proof -
  have host: "eq_ignore_ascii_case n ''host'' \<longleftrightarrow> to_ascii_lowercase n = ''host''" for n
    by (simp add: eq_ignore_ascii_case_def to_ascii_lowercase_def ascii_lower_def)
  show ?thesis
    by (auto simp: flatten_headers_filter host comp_def case_prod_unfold image_iff) force+
qed

section \<open>Request frames\<close>

text \<open>The frames of a list of chunks, numbered from \<open>n\<close>.\<close>

fun request_frames :: "uuid \<Rightarrow> u8 \<Rightarrow> u32 \<Rightarrow> bytes list \<Rightarrow> bytes list" where
  "request_frames rid v n [] = []"
| "request_frames rid v n (b # bs) =
     encode_chunk_frame_with_version v \<lparr>kind = RequestBody, request_id = rid, seq = n, fin = False\<rparr> b
       # request_frames rid v (n + 1) bs"

lemma stream_request_body_ok:
  "stream_request_body c rid v n (map (\<lambda>b. (Chunk b, True)) bs) =
    (Inr (), map (\<lambda>f. ToAgent c (MBinary f)) (request_frames rid v n (filter (\<lambda>b. b \<noteq> []) bs)))"
  by (induction bs arbitrary: n) (auto simp: Let_def)

lemma request_frames_decode:
  assumes "is_supported_protocol_version v"
  shows "map decode_chunk_header (request_frames rid v n bs) =
    map (\<lambda>(i, b). Inr (\<lparr>kind = RequestBody, request_id = rid, seq = n + word_of_nat i, fin = False\<rparr>, b))
      (enumerate 0 bs)"
proof (induction bs arbitrary: n)
  case (Cons b bs)
  have "enumerate (Suc 0) bs = map (\<lambda>(i, b). (Suc i, b)) (enumerate 0 bs)"
    by (simp add: enumerate_eq_zip zip_map1 [symmetric] map_Suc_upt)
  with Cons assms show ?case
    by (simp add: decode_encode comp_def case_prod_unfold add.assoc)
qed simp

text \<open>
  A request body reaches the agent complete and in order. When no read and no send fails,
  the frames put on the agent's channel decode, at either version, to request-body chunks of this
  request numbered from 0 (modulo \<open>2^32\<close>), never marked final, whose payloads are the client's
  chunks without the empty ones; so their concatenation is the body.
\<close>

lemma request_body_frames:
  assumes "is_supported_protocol_version v"
  shows "\<exists>fs. stream_request_body c rid v 0 (map (\<lambda>b. (Chunk b, True)) bs) =
      (Inr (), map (\<lambda>f. ToAgent c (MBinary f)) fs) \<and>
    map decode_chunk_header fs =
      map (\<lambda>(i, b). Inr (\<lparr>kind = RequestBody, request_id = rid, seq = word_of_nat i, fin = False\<rparr>, b))
        (enumerate 0 (filter (\<lambda>b. b \<noteq> []) bs)) \<and>
    concat (map snd (map projr (map decode_chunk_header fs))) = concat bs"
proof -
  have "concat (filter (\<lambda>b. b \<noteq> []) bs) = concat bs" by (induction bs) auto
  then show ?thesis
    by (intro exI [of _ "request_frames rid v 0 (filter (\<lambda>b. b \<noteq> []) bs)"])
       (simp add: stream_request_body_ok request_frames_decode [OF assms] comp_def case_prod_unfold)
qed

section \<open>Waiting for the response to start\<close>

text \<open>The polls that found the given chunks at the given times, all before the deadline.\<close>

definition body_polls :: "nat list \<Rightarrow> bytes list \<Rightarrow> poll list" where
  "body_polls ts chunks = map (\<lambda>(t, b). (t, Some (Some (EvBody b)))) (zip ts chunks)"

lemma await_start_bodies:
  assumes "length ts = length chunks" and "\<forall>t\<in>set ts. t < d"
  shows "await_start d early (body_polls ts chunks @ polls) = await_start d (early @ chunks) polls"
  using assms by (induction ts chunks arbitrary: early rule: list_induct2) (simp_all add: body_polls_def)

text \<open>Any other poll ends the loop: at the deadline, or with an answer that the event alone gives.\<close>

lemma await_start_final:
  assumes "\<not> (t < d \<and> (\<exists>b. r = Some (Some (EvBody b))))"
  obtains (failed) status msg where "\<And>early rest. await_start d early ((t, r) # rest) = Some (Failed status msg)"
      and "status \<in> {502, 504}"
  | (started) s hs where "t < d" and "r = Some (Some (EvStart s hs))"
      and "\<And>early rest. await_start d early ((t, r) # rest) = Some (Started s hs early)"
proof (cases "d \<le> t")
  case True
  then show thesis by (intro failed [of 504]) simp_all
next
  case False
  show thesis
  proof (cases r)
    case None
    with False show thesis by (intro failed [of 504]) simp_all
  next
    case (Some o1)
    show thesis
    proof (cases o1)
      case None
      with False Some show thesis by (intro failed [of 502]) simp_all
    next
      case (Some e)
      with False \<open>r = Some o1\<close> assms show thesis
        by (cases e) (auto intro: failed started)
    qed
  qed
qed

lemma await_start_body:
  "t < d \<Longrightarrow> await_start d early ((t, Some (Some (EvBody b))) # polls) = await_start d (early @ [b]) polls"
  by simp

declare await_start.simps(2) [simp del]

lemma await_start_Started:
  assumes "await_start d early polls = Some (Started s hs out)"
  shows "\<exists>ts chunks t rest. polls = body_polls ts chunks @ (t, Some (Some (EvStart s hs))) # rest \<and>
    length ts = length chunks \<and> (\<forall>t'\<in>set (t # ts). t' < d) \<and> out = early @ chunks"
  using assms
proof (induction polls arbitrary: early)
  case (Cons p polls)
  obtain t r where p: "p = (t, r)" by fastforce
  show ?case
  proof (cases "t < d \<and> (\<exists>b. r = Some (Some (EvBody b)))")
    case True
    then obtain b where b: "t < d" "r = Some (Some (EvBody b))" by blast
    with Cons p obtain ts chunks t' rest where
      "polls = body_polls ts chunks @ (t', Some (Some (EvStart s hs))) # rest"
      "length ts = length chunks" "\<forall>x\<in>set (t' # ts). x < d" "out = (early @ [b]) @ chunks"
      using Cons.IH [of "early @ [b]"] by (auto simp: await_start_body)
    with b p show ?thesis
      by (intro exI [of _ "t # ts"] exI [of _ "b # chunks"] exI [of _ t'] exI [of _ rest])
         (simp add: body_polls_def)
  next
    case False
    then show ?thesis
    proof (cases rule: await_start_final)
      case (started s' hs')
      with Cons.prems p show ?thesis
        by (intro exI [of _ "[]"] exI [of _ t] exI [of _ polls]) (simp add: body_polls_def)
    qed (use Cons.prems p in simp)
  qed
qed simp

lemma await_start_pre:
  assumes "d \<le> t \<or> r = None"
  shows "\<exists>x. await_start d early (pre @ (t, r) # rest) = Some x \<and>
    await_start d early (pre @ [(t, r)]) = Some x \<and>
    (case x of Failed status _ \<Rightarrow> status \<in> {502, 504} | Started _ _ _ \<Rightarrow> pre \<noteq> [])"
proof (induction pre arbitrary: early)
  case Nil
  from assms have "\<not> (t < d \<and> (\<exists>b. r = Some (Some (EvBody b))))" by auto
  then show ?case by (cases rule: await_start_final) (use assms in auto)
next
  case (Cons p pre)
  obtain t' r' where p: "p = (t', r')" by fastforce
  show ?case
  proof (cases "t' < d \<and> (\<exists>b. r' = Some (Some (EvBody b)))")
    case True
    then obtain b where b: "t' < d" "r' = Some (Some (EvBody b))" by blast
    from Cons.IH [of "early @ [b]"] obtain x where
      "await_start d (early @ [b]) (pre @ (t, r) # rest) = Some x"
      "await_start d (early @ [b]) (pre @ [(t, r)]) = Some x"
      "case x of Failed status _ \<Rightarrow> status \<in> {502, 504} | Started _ _ _ \<Rightarrow> pre \<noteq> []"
      by blast
    with b show ?thesis
      by (intro exI [of _ x]) (cases x, simp_all add: p await_start_body)
  next
    case False
    then show ?thesis by (cases rule: await_start_final) (auto simp: p)
  qed
qed

text \<open>
  The response starts exactly when the agent's start event is read in time. The loop goes on to
  the response iff, before the deadline, it reads body events and then a start; it takes the
  start's status and headers, and the bodies that came early are kept in order.
\<close>

lemma await_start_started_iff:
  "await_start d [] polls = Some (Started s hs out) \<longleftrightarrow>
    (\<exists>ts t rest. polls = body_polls ts out @ (t, Some (Some (EvStart s hs))) # rest \<and>
       length ts = length out \<and> (\<forall>t'\<in>set (t # ts). t' < d))"
proof
  assume "await_start d [] polls = Some (Started s hs out)"
  from await_start_Started [OF this] show "\<exists>ts t rest.
      polls = body_polls ts out @ (t, Some (Some (EvStart s hs))) # rest \<and>
      length ts = length out \<and> (\<forall>t'\<in>set (t # ts). t' < d)"
    by auto
next
  assume "\<exists>ts t rest. polls = body_polls ts out @ (t, Some (Some (EvStart s hs))) # rest \<and>
      length ts = length out \<and> (\<forall>t'\<in>set (t # ts). t' < d)"
  then show "await_start d [] polls = Some (Started s hs out)"
    by (auto simp: await_start_bodies await_start.simps(2))
qed

lemma await_start_started_iff_witness:
  "await_start 5 [] [(1, Some (Some (EvBody [7]))), (2, Some (Some (EvStart 200 [])))]
     = Some (Started 200 [] [[7]])"
proof -
  have "[(1, Some (Some (EvBody [7]))), (2, Some (Some (EvStart 200 [])))]
      = body_polls [1] [[7]] @ [(2, Some (Some (EvStart 200 [])))]"
    by (simp add: body_polls_def)
  then show ?thesis
    by (subst await_start_started_iff) (rule exI [of _ "[1]"], rule exI [of _ 2], rule exI [of _ "[]"], simp)
qed

text \<open>
  C32: the wait ends, whatever the agent does. If the polls reach one made at or after the deadline,
  or one whose timeout elapsed, the loop has left with a start that was read before it or with a
  502 or 504 response; it never waits past its deadline, however many body events arrive.
\<close>

theorem await_start_ends:
  assumes "polls = pre @ (t, r) # rest" and "d \<le> t \<or> r = None"
  shows "\<exists>x. await_start d early polls = Some x \<and>
    await_start d early (pre @ [(t, r)]) = Some x \<and>
    (case x of Failed status _ \<Rightarrow> status \<in> {502, 504} | Started _ _ _ \<Rightarrow> pre \<noteq> [])"
  unfolding assms(1) by (rule await_start_pre [OF assms(2)])

theorem await_start_ends_witness:
  "\<exists>x. await_start 5 [] [(1, Some (Some (EvBody [7]))), (6, Some (Some (EvBody [8])))] = Some x"
  using await_start_ends [of _ "[(1, Some (Some (EvBody [7])))]" 6 "Some (Some (EvBody [8]))" "[]" 5 "[]", OF refl]
  by auto

section \<open>The response stream\<close>

lemma response_stream_events:
  "response_stream (map Some (map EvBody bs @ evs)) =
    (bs @ fst (response_stream (map Some evs)), snd (response_stream (map Some evs)))"
  by (induction bs) (auto split: prod.splits)

lemma handle_ingress_events:
  assumes "response_stream es = response_stream es'"
  shows "handle_ingress J H rq (e\<lparr>in_events := es\<rparr>) = handle_ingress J H rq (e\<lparr>in_events := es'\<rparr>)"
  by (cases e, hypsubst)
     (unfold handle_ingress_def ingress_env.select_convs ingress_env.update_convs assms, rule refl)

text \<open>
  A response that the agent breaks off looks complete to the client. Once the response has
  started, an error event of the agent and its end event give the same trace and the same,
  finished response with the chunks read so far; nothing tells the client that the body is cut.
\<close>

lemma error_ends_like_end:
  "handle_ingress J H rq (e\<lparr>in_events := map Some (map EvBody bs @ [EvError code message])\<rparr>) =
   handle_ingress J H rq (e\<lparr>in_events := map Some (map EvBody bs @ [EvEnd])\<rparr>) \<and>
   response_stream (map Some (map EvBody bs @ [EvError code message])) = (bs, True)"
proof -
  have "response_stream (map Some (map EvBody bs @ [EvError code message])) = (bs, True)"
    and "response_stream (map Some (map EvBody bs @ [EvEnd])) = (bs, True)"
    by (simp_all only: response_stream_events) simp_all
  then show ?thesis using handle_ingress_events by metis
qed

section \<open>The trace of a request\<close>

definition ops_of :: "'t action list \<Rightarrow> state_op list" where
  "ops_of tr = List.map_filter (\<lambda>a. case a of Do op \<Rightarrow> Some op | Put _ \<Rightarrow> None) tr"

definition puts_of :: "'t action list \<Rightarrow> 't relay_out list" where
  "puts_of tr = List.map_filter (\<lambda>a. case a of Put m \<Rightarrow> Some m | Do _ \<Rightarrow> None) tr"

lemma trace_simps [simp]:
  "ops_of [] = []" "puts_of [] = []"
  "ops_of (Do op # tr) = op # ops_of tr" "ops_of (Put m # tr) = ops_of tr"
  "puts_of (Do op # tr) = puts_of tr" "puts_of (Put m # tr) = m # puts_of tr"
  by (simp_all add: ops_of_def puts_of_def map_filter_simps)

lemma trace_append [simp]:
  "ops_of (xs @ ys) = ops_of xs @ ops_of ys" "puts_of (xs @ ys) = puts_of xs @ puts_of ys"
  by (simp_all add: ops_of_def puts_of_def List.map_filter_def)

lemma trace_map_Put [simp]: "ops_of (map Put ms) = []" "puts_of (map Put ms) = ms"
  by (induction ms) simp_all

lemma trace_map_Put_comp [simp]:
  "ops_of (map (Put \<circ> g) xs) = []" "puts_of (map (Put \<circ> g) xs) = map g xs"
  "ops_of (map (\<lambda>x. Put (g x)) xs) = []" "puts_of (map (\<lambda>x. Put (g x)) xs) = map g xs"
  by (induction xs) simp_all

lemma handle_ingress_ops:
  assumes "handle_ingress J H rq e = (tr, Some rsp)" and "rsp_complete rsp"
  shows "ops_of tr = [] \<or> ops_of tr = [SAddInflight (in_rid e) (in_chan e), SRemoveInflight (in_rid e)]"
  using assms
  by (auto simp: handle_ingress_def Let_def split: option.splits sum.splits prod.splits start_result.splits if_splits)

text \<open>
  C8: a finished request leaves nothing behind. Whatever way the handler ends (each of its error
  responses, the timeout, or a response body read to its end), and however the other tasks of the
  relay interleave with it, the request's id is not in the table afterwards.
\<close>

theorem request_entry_freed:
  assumes "handle_ingress J H rq e = (tr, Some rsp)" and "rsp_complete rsp"
    and "state_ok st" and "tbl_get (inflight st) (in_rid e) = None"
    and "interleaved (adds_request (in_rid e)) (ops_of tr) steps"
  shows "tbl_get (inflight (fst ((run_ops (map snd steps) :: 't relay_act) st))) (in_rid e) = None"
proof -
  have "\<not> held (adds_request (in_rid e)) (\<lambda>op. op = SRemoveInflight (in_rid e)) (ops_of tr) False"
    using handle_ingress_ops [OF assms(1,2)] by auto
  from req_entry.entry_freed [OF assms(3) _ assms(5) this] assms(4) show ?thesis by blast
qed

definition sample_request :: ingress_request where
  "sample_request = \<lparr>rq_tunnel = ''demo'', rq_tail = ''x'', rq_path_and_query = Some ''/t/demo/x?y=1'',
     rq_method = ''POST'', rq_headers = [(''host'', as_bytes ''h''), (''accept'', as_bytes ''*'')]\<rparr>"

definition sample_agent :: agent_handle where
  "sample_agent = \<lparr>connection_id = 1, sender = 10, capabilities = {}, protocol_version = 1\<rparr>"

definition sample_env :: ingress_env where
  "sample_env = \<lparr>in_agent = Some sample_agent, in_rid = 7, in_chan = 30, in_start_open = True,
     in_body = [(Chunk [1], True), (Chunk [2, 3], True)], in_end_open = True, in_timeout = 30,
     in_polls = [(5, Some (Some (EvBody [9]))), (6, Some (Some (EvStart 201 [(''a'', ''b'')])))],
     in_events = [Some (EvBody [8]), Some EvEnd]\<rparr>"

lemma sample_supported [simp]: "is_supported_protocol_version 1"
  by (simp add: is_supported_protocol_version_def LEGACY_PROTOCOL_VERSION_def)

text \<open>The handler when every send and every read of the body succeeds, up to the wait.\<close>

lemma handle_ingress_sent:
  fixes J :: "'t json"
  assumes "json_ok J" and "in_agent e = Some a" and "in_start_open e" and "in_end_open e"
    and "in_body e = map (\<lambda>b. (Chunk b, True)) bs"
  obtains ts te where
    "from_str J ts = Inr (HttpRequestStart (in_rid e) (rq_method rq)
        (extract_target_path (rq_path_and_query rq) (rq_tunnel rq) (rq_tail rq)) (flatten_headers H (rq_headers rq)))"
    "from_str J te = Inr (HttpRequestEnd (in_rid e))"
    "handle_ingress J H rq e =
      (let t2 = Put (ToAgent (sender a) (MText ts)) # Do (SAddInflight (in_rid e) (in_chan e))
             # map (\<lambda>f. Put (ToAgent (sender a) (MBinary f)))
                 (request_frames (in_rid e) (protocol_version a) 0 (filter (\<lambda>b. b \<noteq> []) bs))
             @ [Put (ToAgent (sender a) (MText te))]
       in case await_start (nanos (in_timeout e)) [] (in_polls e) of
            None \<Rightarrow> (t2, None)
          | Some (Failed status body) \<Rightarrow>
              (t2 @ [Do (SRemoveInflight (in_rid e))], Some (simple_response status body))
          | Some (Started status headers early) \<Rightarrow>
              (case response_stream (in_events e) of
                 (chunks, finished) \<Rightarrow>
                   (t2 @ (if finished then [Do (SRemoveInflight (in_rid e))] else []),
                    Some \<lparr>rsp_status = (if status_valid H status then status else 502),
                      rsp_headers = apply_forwarded_headers H [] headers,
                      rsp_body = early @ chunks,
                      rsp_complete = finished\<rparr>)))"
proof -
  let ?start = "HttpRequestStart (in_rid e) (rq_method rq)
    (extract_target_path (rq_path_and_query rq) (rq_tunnel rq) (rq_tail rq)) (flatten_headers H (rq_headers rq))"
  obtain ts where ts: "from_str J ts = Inr ?start"
    "send_control J (\<lambda>_. True) (sender a) ?start = (Inr (), [ToAgent (sender a) (MText ts)])"
    using send_control_ok [OF assms(1), of ?start "\<lambda>_. True" "sender a"] by auto
  obtain te where te: "from_str J te = Inr (HttpRequestEnd (in_rid e))"
    "send_control J (\<lambda>_. True) (sender a) (HttpRequestEnd (in_rid e)) = (Inr (), [ToAgent (sender a) (MText te)])"
    using send_control_ok [OF assms(1), of "HttpRequestEnd (in_rid e)" "\<lambda>_. True" "sender a"] by auto
  show thesis
  proof (rule that [OF ts(1) te(1)])
  qed (unfold handle_ingress_def assms(2-5) Let_def option.case,
      simp add: assms(3,4) ts te stream_request_body_ok comp_def
        split: option.split start_result.split prod.split)
qed

text \<open>
  What the client gets. When the request is delivered, the response is decided by the wait: its
  failure is a plain 502 or 504; after a start, the status is the agent's (502 if it is not a
  status), the headers are the agent's less the hop-by-hop ones, and the body is every chunk the
  agent sent before and after the start, in order.
\<close>

lemma handle_ingress_response:
  fixes J :: "'t json"
  assumes "json_ok J" and "in_agent e = Some a" and "in_start_open e" and "in_end_open e"
    and "in_body e = map (\<lambda>b. (Chunk b, True)) bs"
    and "in_events e = map Some (map EvBody chunks @ [EvEnd])"
  shows "snd (handle_ingress J H rq e) =
    map_option (\<lambda>x. case x of
        Failed status body \<Rightarrow> simple_response status body
      | Started status headers early \<Rightarrow>
          \<lparr>rsp_status = (if status_valid H status then status else 502),
           rsp_headers = apply_forwarded_headers H [] headers, rsp_body = early @ chunks, rsp_complete = True\<rparr>)
      (await_start (nanos (in_timeout e)) [] (in_polls e))"
proof -
  have "response_stream (in_events e) = (chunks, True)"
    unfolding assms(6) response_stream_events by simp
  then show ?thesis
    by (rule_tac handle_ingress_sent [OF assms(1-5), of rq H])
       (simp add: Let_def split: option.split start_result.split)
qed

lemma handle_ingress_response_witness:
  "snd (handle_ingress plain_json plain_http sample_request sample_env) =
    Some \<lparr>rsp_status = 201, rsp_headers = [(''a'', as_bytes ''b'')], rsp_body = [[9], [8]], rsp_complete = True\<rparr>"
  by (subst handle_ingress_response [where a = sample_agent and bs = "[[1], [2, 3]]" and chunks = "[[8]]"])
     (simp_all add: sample_env_def nanos_def await_start.simps plain_http_def apply_forwarded_headers_def
        is_hop_header_def hop_headers_def to_ascii_lowercase_def ascii_lower_def)

theorem request_entry_freed_witness:
  "tbl_get (inflight (fst ((run_ops (map snd
     [(True, \<lambda>_. True, SAddInflight 7 30), (False, \<lambda>_. True, SNotifyStart 7 201 []),
      (False, \<lambda>_. False, SNotifyBody 100 [1]), (True, \<lambda>_. True, SRemoveInflight 7)])
     :: control_message relay_act) sample_state))) 7 = None"
proof -
  let ?r = "handle_ingress plain_json plain_http sample_request sample_env"
  have ops: "ops_of (fst ?r) = [SAddInflight 7 30, SRemoveInflight 7]"
    and rsp: "\<exists>rsp. snd ?r = Some rsp \<and> rsp_complete rsp"
    by (simp_all add: handle_ingress_def sample_env_def sample_agent_def nanos_def await_start.simps
        send_control_def plain_json_def Let_def)
  from rsp obtain rsp where "?r = (fst ?r, Some rsp)" "rsp_complete rsp" by (metis prod.collapse)
  then have "tbl_get (inflight (fst ((run_ops (map snd
     [(True, \<lambda>_. True, SAddInflight 7 30), (False, \<lambda>_. True, SNotifyStart 7 201 []),
      (False, \<lambda>_. False, SNotifyBody 100 [1]), (True, \<lambda>_. True, SRemoveInflight 7)])
     :: control_message relay_act) sample_state))) (in_rid sample_env) = None"
    by (rule request_entry_freed [OF _ _ sample_state_ok])
       (simp_all only: ops, simp_all add: interleaved_def sample_env_def sample_state_def tbl_get_def)
  moreover have "in_rid sample_env = 7" by (simp add: sample_env_def)
  ultimately show ?thesis by (simp only:)
qed

text \<open>The operations by which a peer answers a request.\<close>

fun answers :: "uuid \<Rightarrow> state_op \<Rightarrow> bool" where
  "answers rid (SNotifyStart r _ _) = (r = rid)"
| "answers rid (SNotifyBody r _) = (r = rid)"
| "answers rid (SNotifyEnd r) = (r = rid)"
| "answers rid (SNotifyError r _ _) = (r = rid)"
| "answers rid _ = False"

lemma answer_unknown:
  "answers rid op \<Longrightarrow> tbl_get (inflight st) rid = None \<Longrightarrow> exec_op rx op st = (st, [])"
  by (cases op) (auto simp: notify_start_eq notify_body_eq notify_end_eq notify_error_eq)

lemma handle_ingress_first:
  assumes "json_ok J" and "in_agent e = Some a" and "in_start_open e"
  shows "\<exists>ts rest. fst (handle_ingress J H rq e) =
    Put (ToAgent (sender a) (MText ts)) # Do (SAddInflight (in_rid e) (in_chan e)) # rest"
proof -
  let ?start = "HttpRequestStart (in_rid e) (rq_method rq)
    (extract_target_path (rq_path_and_query rq) (rq_tunnel rq) (rq_tail rq)) (flatten_headers H (rq_headers rq))"
  obtain ts where
    "send_control J (\<lambda>_. True) (sender a) ?start = (Inr (), [ToAgent (sender a) (MText ts)])"
    using send_control_ok [OF assms(1), of ?start "\<lambda>_. True" "sender a"] by auto
  then show ?thesis
    using assms(2,3)
    by (intro exI [of _ ts])
       (auto simp: handle_ingress_def Let_def split: sum.split prod.split option.split start_result.split)
qed

text \<open>
  A response that is quicker than the relay is lost. The request start is on the agent's
  channel before the request's entry is in the table; what the agent answers in between (start,
  body, end or error) finds no entry, changes nothing and reaches no one.
\<close>

lemma early_response_lost:
  assumes "json_ok J" and "in_agent e = Some a" and "in_start_open e"
    and "tbl_get (inflight st) (in_rid e) = None" and "list_all (\<lambda>(rx, op). answers (in_rid e) op) early"
  shows "(\<exists>ts rest. fst (handle_ingress J H rq e) =
      Put (ToAgent (sender a) (MText ts)) # Do (SAddInflight (in_rid e) (in_chan e)) # rest) \<and>
    run_ops early st = (st, [] :: 't relay_out list)"
proof
  show "run_ops early st = (st, [] :: 't relay_out list)"
    using assms(5) by (induction early) (auto simp: skip_def andthen_def answer_unknown [OF _ assms(4)])
qed (rule handle_ingress_first [OF assms(1-3)])

lemma early_response_lost_witness:
  "run_ops [(\<lambda>_. True, SNotifyStart 7 200 []), (\<lambda>_. True, SNotifyEnd 7)] sample_state
    = (sample_state, [] :: unit relay_out list)"
  using early_response_lost [OF plain_json_ok, of sample_env sample_agent sample_state
      "[(\<lambda>_. True, SNotifyStart 7 200 []), (\<lambda>_. True, SNotifyEnd 7)]" plain_http sample_request, where 't = unit]
  by (simp add: sample_env_def sample_state_def tbl_get_def)

lemma stream_request_body_error:
  "stream_request_body c rid v n (map (\<lambda>b. (Chunk b, True)) bs @ (BodyErr msg, o1) # rest) =
    (Inl msg, map (\<lambda>f. ToAgent c (MBinary f)) (request_frames rid v n (filter (\<lambda>b. b \<noteq> []) bs)))"
  by (induction bs arbitrary: n) (auto simp: Let_def)

text \<open>
  An upload that breaks off is not reported to the agent. When reading the request body fails,
  the client gets a 502 and the entry is removed, but the agent has the start and the frames so far
  and then nothing more for this request: neither its end nor an error.
\<close>

lemma broken_upload_unreported:
  fixes J :: "'t json"
  assumes "json_ok J" and "in_agent e = Some a" and "in_start_open e"
    and "in_body e = map (\<lambda>b. (Chunk b, True)) bs @ (BodyErr msg, o1) # rest"
  shows "\<exists>ts. from_str J ts = Inr (HttpRequestStart (in_rid e) (rq_method rq)
        (extract_target_path (rq_path_and_query rq) (rq_tunnel rq) (rq_tail rq)) (flatten_headers H (rq_headers rq))) \<and>
    puts_of (fst (handle_ingress J H rq e)) = ToAgent (sender a) (MText ts)
      # map (\<lambda>f. ToAgent (sender a) (MBinary f))
          (request_frames (in_rid e) (protocol_version a) 0 (filter (\<lambda>b. b \<noteq> []) bs)) \<and>
    ops_of (fst (handle_ingress J H rq e)) = [SAddInflight (in_rid e) (in_chan e), SRemoveInflight (in_rid e)] \<and>
    snd (handle_ingress J H rq e) = Some (simple_response 502 ''failed to stream request body'')"
proof -
  let ?start = "HttpRequestStart (in_rid e) (rq_method rq)
    (extract_target_path (rq_path_and_query rq) (rq_tunnel rq) (rq_tail rq)) (flatten_headers H (rq_headers rq))"
  obtain ts where "from_str J ts = Inr ?start"
    "send_control J (\<lambda>_. True) (sender a) ?start = (Inr (), [ToAgent (sender a) (MText ts)])"
    using send_control_ok [OF assms(1), of ?start "\<lambda>_. True" "sender a"] by auto
  then show ?thesis
    by (intro exI [of _ ts]) (simp add: handle_ingress_def Let_def assms(2-4) stream_request_body_error)
qed

lemma broken_upload_unreported_witness:
  "snd (handle_ingress plain_json plain_http sample_request
      (sample_env\<lparr>in_body := [(Chunk [1], True), (BodyErr ''reset'', True)]\<rparr>))
    = Some (simple_response 502 ''failed to stream request body'')"
proof -
  let ?e = "sample_env\<lparr>in_body := [(Chunk [1], True), (BodyErr ''reset'', True)]\<rparr>"
  have "in_agent ?e = Some sample_agent" and "in_start_open ?e"
    and "in_body ?e = map (\<lambda>b. (Chunk b, True)) [[1]] @ (BodyErr ''reset'', True) # []"
    by (simp_all add: sample_env_def)
  from broken_upload_unreported [OF plain_json_ok this] show ?thesis by blast
qed

end
