(* ===== verification/Relay_System.thy ===== *)
theory Relay_System
  imports Relay_Http
begin

text \<open>
  The relay's HTTP requests as one concurrent system. \<open>Relay_Http\<close> gives a request handler as a
  function of what it meets; here any number of handlers (\<open>http_ingress.rs\<close>), agent sessions
  (\<open>ws_session.rs\<close>) that answer them (\<open>notify_start\<close> to \<open>notify_error\<close> of \<open>state.rs\<close>, split where they
  wait for room in a channel) and do their other operations one at a time, the clients, the tunnels'
  operations on the shared state and the clock take steps in any order. Proved here: every step keeps each handler's history such that, once it finishes, its trace
  and its response are those the function gives. \<open>Relay_System_Table\<close> has the invariant of the whole
  system, \<open>Relay_System_Fair\<close> its progress.
\<close>

section \<open>State\<close>

text \<open>
  Where a handler stands: before the request start is sent, before the entry is added, uploading
  with the next sequence number, before the request end, at the top of the waiting loop with the
  early chunks, inside \<open>timeout(remaining, rx.recv())\<close> with the time read at the top, in the
  response stream with the early chunks still to yield, finished with its response, or dropped
  together with its future because the client went away.
\<close>

datatype phase =
    SendStart
  | Register
  | Upload u32
  | SendEnd
  | Top "bytes list"
  | Recv nat "bytes list"
  | Yield u16 header_list "bytes list"
  | Finished http_response
  | Dropped

text \<open>
  The environment and the trace of a task are its history: what it has met and done so far, in the
  form \<open>handle_ingress\<close> takes and returns them.
\<close>

record 't task =
  tk_request :: ingress_request
  tk_env :: ingress_env
  tk_trace :: "'t action list"
  tk_started :: nat
  tk_yielded :: "bytes list"
  tk_phase :: phase

text \<open>
  Besides the shared state: the time in nanoseconds, the handlers by request id, the events queued
  on each response channel and the channels whose receiver is there, what each agent session (by
  its connection id) is sending when it has cloned the sender and waits for room, and which
  connections to agents are open.
\<close>

record 't system =
  sy_app :: app_state
  sy_now :: nat
  sy_tasks :: "uuid \<rightharpoonup> 't task"
  sy_queue :: "chan \<Rightarrow> relay_event list"
  sy_rx :: "chan set"
  sy_sending :: "(uuid, uuid \<times> chan \<times> relay_event) table"
  sy_open :: "chan \<Rightarrow> bool"

definition CHANNEL_CAPACITY :: nat where
  "CHANNEL_CAPACITY = 128"

definition start_message :: "http_lib \<Rightarrow> 't task \<Rightarrow> control_message" where
  "start_message H t = (let rq = tk_request t in
     HttpRequestStart (in_rid (tk_env t)) (rq_method rq)
       (extract_target_path (rq_path_and_query rq) (rq_tunnel rq) (rq_tail rq))
       (flatten_headers H (rq_headers rq)))"

definition new_task :: "ingress_request \<Rightarrow> agent_handle option \<Rightarrow> uuid \<Rightarrow> chan \<Rightarrow> u64 \<Rightarrow> phase \<Rightarrow> 't task" where
  "new_task rq agent rid c timeout ph =
     \<lparr>tk_request = rq,
      tk_env = \<lparr>in_agent = agent, in_rid = rid, in_chan = c, in_start_open = False, in_body = [],
        in_end_open = False, in_timeout = timeout, in_polls = [], in_events = []\<rparr>,
      tk_trace = [], tk_started = 0, tk_yielded = [], tk_phase = ph\<rparr>"

text \<open>
  A channel is closed for its receiver when no sender is left: neither the table's nor the clone
  of a session that is waiting for room. \<open>recv\<close> is ready with the next event, or with \<open>None\<close> if
  the channel is closed and empty; \<open>timeout\<close> asks \<open>recv\<close> first and its timer then.
\<close>

definition closed :: "'t system \<Rightarrow> chan \<Rightarrow> bool" where
  "closed s c \<longleftrightarrow> list_all (\<lambda>(_, d). d \<noteq> c) (inflight (sy_app s)) \<and>
     list_all (\<lambda>(_, _, d, _). d \<noteq> c) (sy_sending s)"

definition recv :: "'t system \<Rightarrow> chan \<Rightarrow> relay_event option option" where
  "recv s c =
    (case sy_queue s c of
       ev # _ \<Rightarrow> Some (Some ev)
     | [] \<Rightarrow> if closed s c then Some None else None)"

definition timeout_recv :: "'t system \<Rightarrow> chan \<Rightarrow> bool \<Rightarrow> relay_event option option option" where
  "timeout_recv s c due =
    (case recv s c of Some r \<Rightarrow> Some (Some r) | None \<Rightarrow> if due then Some None else None)"

definition elapsed :: "'t system \<Rightarrow> 't task \<Rightarrow> nat" where
  "elapsed s t = sy_now s - tk_started t"

abbreviation deadline :: "'t task \<Rightarrow> nat" where
  "deadline t \<equiv> nanos (in_timeout (tk_env t))"

section \<open>Steps of a handler\<close>

text \<open>
  One step of a handler in a system state: what it does and sends, whether it takes an event from
  its channel, and the task after it. The code between two steps has no effect others can see.
\<close>

inductive task_step ::
    "'t json \<Rightarrow> http_lib \<Rightarrow> 't system \<Rightarrow> 't task \<Rightarrow> 't action list \<Rightarrow> bool \<Rightarrow> 't task \<Rightarrow> bool"
  for J H s where
  start_sent:
    "tk_phase t = SendStart \<Longrightarrow> in_agent (tk_env t) = Some a \<Longrightarrow>
     send_control J (sy_open s) (sender a) (start_message H t) = (Inr (), out) \<Longrightarrow>
     task_step J H s t (map Put out) False
       (t\<lparr>tk_env := (tk_env t)\<lparr>in_start_open := sy_open s (sender a)\<rparr>, tk_phase := Register\<rparr>)"
| start_failed:
    "tk_phase t = SendStart \<Longrightarrow> in_agent (tk_env t) = Some a \<Longrightarrow>
     send_control J (sy_open s) (sender a) (start_message H t) = (Inl err, out) \<Longrightarrow>
     task_step J H s t (map Put out) False
       (t\<lparr>tk_env := (tk_env t)\<lparr>in_start_open := sy_open s (sender a)\<rparr>,
          tk_phase := Finished (simple_response 502 ''failed to deliver request start to agent'')\<rparr>)"
| registered_entry:
    "tk_phase t = Register \<Longrightarrow>
     task_step J H s t [Do (SAddInflight (in_rid (tk_env t)) (in_chan (tk_env t)))] False
       (t\<lparr>tk_phase := Upload 0\<rparr>)"
| uploaded:
    "tk_phase t = Upload n \<Longrightarrow> in_agent (tk_env t) = Some a \<Longrightarrow>
     stream_request_body (sender a) (in_rid (tk_env t)) (protocol_version a) n
       [(item, sy_open s (sender a))] = (Inr (), out) \<Longrightarrow>
     task_step J H s t (map Put out) False
       (t\<lparr>tk_env := (tk_env t)\<lparr>in_body := in_body (tk_env t) @ [(item, sy_open s (sender a))]\<rparr>,
          tk_phase := Upload (if item = Chunk [] then n else n + 1)\<rparr>)"
| upload_failed:
    "tk_phase t = Upload n \<Longrightarrow> in_agent (tk_env t) = Some a \<Longrightarrow>
     stream_request_body (sender a) (in_rid (tk_env t)) (protocol_version a) n
       [(item, sy_open s (sender a))] = (Inl err, out) \<Longrightarrow>
     task_step J H s t (map Put out @ [Do (SRemoveInflight (in_rid (tk_env t)))]) False
       (t\<lparr>tk_env := (tk_env t)\<lparr>in_body := in_body (tk_env t) @ [(item, sy_open s (sender a))]\<rparr>,
          tk_phase := Finished (simple_response 502 ''failed to stream request body'')\<rparr>)"
| upload_done:
    "tk_phase t = Upload n \<Longrightarrow> task_step J H s t [] False (t\<lparr>tk_phase := SendEnd\<rparr>)"
| end_sent:
    "tk_phase t = SendEnd \<Longrightarrow> in_agent (tk_env t) = Some a \<Longrightarrow>
     send_control J (sy_open s) (sender a) (HttpRequestEnd (in_rid (tk_env t))) = (Inr (), out) \<Longrightarrow>
     task_step J H s t (map Put out) False
       (t\<lparr>tk_env := (tk_env t)\<lparr>in_end_open := sy_open s (sender a)\<rparr>, tk_started := sy_now s,
          tk_phase := Top []\<rparr>)"
| end_failed:
    "tk_phase t = SendEnd \<Longrightarrow> in_agent (tk_env t) = Some a \<Longrightarrow>
     send_control J (sy_open s) (sender a) (HttpRequestEnd (in_rid (tk_env t))) = (Inl err, out) \<Longrightarrow>
     task_step J H s t (map Put out @ [Do (SRemoveInflight (in_rid (tk_env t)))]) False
       (t\<lparr>tk_env := (tk_env t)\<lparr>in_end_open := sy_open s (sender a)\<rparr>,
          tk_phase := Finished (simple_response 502 ''failed to deliver request end to agent'')\<rparr>)"
| round_late:
    "tk_phase t = Top early \<Longrightarrow> deadline t - elapsed s t = 0 \<Longrightarrow>
     task_step J H s t [Do (SRemoveInflight (in_rid (tk_env t)))] False
       (t\<lparr>tk_env := (tk_env t)\<lparr>in_polls := in_polls (tk_env t) @ [(elapsed s t, None)]\<rparr>,
          tk_phase := Finished (simple_response 504 ''agent response timeout'')\<rparr>)"
| round_waits:
    "tk_phase t = Top early \<Longrightarrow> deadline t - elapsed s t \<noteq> 0 \<Longrightarrow>
     task_step J H s t [] False (t\<lparr>tk_phase := Recv (elapsed s t) early\<rparr>)"
| poll_body:
    "tk_phase t = Recv t0 early \<Longrightarrow>
     timeout_recv s (in_chan (tk_env t)) (deadline t \<le> elapsed s t) = Some r \<Longrightarrow>
     r = Some (Some (EvBody chunk)) \<Longrightarrow>
     task_step J H s t [] True
       (t\<lparr>tk_env := (tk_env t)\<lparr>in_polls := in_polls (tk_env t) @ [(t0, r)]\<rparr>,
          tk_phase := Top (early @ [chunk])\<rparr>)"
| poll_start:
    "tk_phase t = Recv t0 early \<Longrightarrow>
     timeout_recv s (in_chan (tk_env t)) (deadline t \<le> elapsed s t) = Some r \<Longrightarrow>
     r = Some (Some (EvStart status headers)) \<Longrightarrow>
     task_step J H s t [] True
       (t\<lparr>tk_env := (tk_env t)\<lparr>in_polls := in_polls (tk_env t) @ [(t0, r)]\<rparr>,
          tk_phase := Yield status headers early\<rparr>)"
| poll_failed:
    "tk_phase t = Recv t0 early \<Longrightarrow>
     timeout_recv s (in_chan (tk_env t)) (deadline t \<le> elapsed s t) = Some r \<Longrightarrow>
     await_start (deadline t) early [(t0, r)] = Some (Failed status msg) \<Longrightarrow>
     task_step J H s t [Do (SRemoveInflight (in_rid (tk_env t)))] (r \<noteq> None \<and> r \<noteq> Some None)
       (t\<lparr>tk_env := (tk_env t)\<lparr>in_polls := in_polls (tk_env t) @ [(t0, r)]\<rparr>,
          tk_phase := Finished (simple_response status msg)\<rparr>)"
| yielded_early:
    "tk_phase t = Yield status headers (chunk # early) \<Longrightarrow>
     task_step J H s t [] False
       (t\<lparr>tk_yielded := tk_yielded t @ [chunk], tk_phase := Yield status headers early\<rparr>)"
| streamed:
    "tk_phase t = Yield status headers [] \<Longrightarrow> recv s (in_chan (tk_env t)) = Some r \<Longrightarrow>
     response_stream [r] = (chunks, False) \<Longrightarrow>
     task_step J H s t [] True
       (t\<lparr>tk_env := (tk_env t)\<lparr>in_events := in_events (tk_env t) @ [r]\<rparr>,
          tk_yielded := tk_yielded t @ chunks\<rparr>)"
| stream_ended:
    "tk_phase t = Yield status headers [] \<Longrightarrow> recv s (in_chan (tk_env t)) = Some r \<Longrightarrow>
     response_stream [r] = (chunks, True) \<Longrightarrow>
     task_step J H s t [Do (SRemoveInflight (in_rid (tk_env t)))] (r \<noteq> None)
       (t\<lparr>tk_env := (tk_env t)\<lparr>in_events := in_events (tk_env t) @ [r]\<rparr>,
          tk_phase := Finished \<lparr>rsp_status = (if status_valid H status then status else 502),
            rsp_headers = apply_forwarded_headers H [] headers,
            rsp_body = tk_yielded t, rsp_complete = True\<rparr>\<rparr>)"

section \<open>Steps of the system\<close>

text \<open>The receiver lives in the handler from its registration until it ends or is dropped.\<close>

fun live :: "phase \<Rightarrow> bool" where
  "live SendStart = False" | "live Register = False" | "live (Finished _) = False" | "live Dropped = False"
| "live _ = True"

text \<open>A handler's future can be dropped where it waits: for the body, for an event, in the stream.\<close>

fun waits :: "phase \<Rightarrow> bool" where
  "waits (Upload _) = True" | "waits (Recv _ _) = True" | "waits (Yield _ _ _) = True" | "waits _ = False"

definition after_task :: "uuid \<Rightarrow> 't action list \<Rightarrow> bool \<Rightarrow> 't task \<Rightarrow> 't system \<Rightarrow> 't system" where
  "after_task rid acts took t s =
    (let c = in_chan (tk_env t) in
     s\<lparr>sy_app := fst ((for_each (exec_op (\<lambda>c. c \<in> sy_rx s)) (ops_of acts) :: 't relay_act) (sy_app s)),
       sy_tasks := (sy_tasks s)(rid \<mapsto> t\<lparr>tk_trace := tk_trace t @ acts\<rparr>),
       sy_queue := (if took then (sy_queue s)(c := tl (sy_queue s c)) else sy_queue s),
       sy_rx := (if live (tk_phase t) then insert c (sy_rx s) else sy_rx s - {c})\<rparr>)"

text \<open>The event of an answer and the operations that concern requests in flight.\<close>

fun event_of :: "state_op \<Rightarrow> (uuid \<times> relay_event) option" where
  "event_of (SNotifyStart r st hs) = Some (r, EvStart st hs)"
| "event_of (SNotifyBody r b) = Some (r, EvBody b)"
| "event_of (SNotifyEnd r) = Some (r, EvEnd)"
| "event_of (SNotifyError r c m) = Some (r, EvError c m)"
| "event_of _ = None"

fun inflight_op :: "state_op \<Rightarrow> bool" where
  "inflight_op (SAddInflight _ _) = True" | "inflight_op (SRemoveInflight _) = True"
| "inflight_op op = (event_of op \<noteq> None)"

text \<open>
  Whose the other operations are: a session inserts and takes out the agent with its own connection id
  and hands on what its agent sends for WebSockets; the tunnels add and remove their own entries.
\<close>

fun by_session :: "uuid \<Rightarrow> state_op \<Rightarrow> bool" where
  "by_session conn (SInsertAgent _ h) = (connection_id h = conn)"
| "by_session conn (SRemoveAgentIf _ cid) = (cid = conn)"
| "by_session conn (SDropAgent _ cid) = (cid = conn)"
| "by_session conn (SNotifyWsConnectAck _ _ _ _) = True"
| "by_session conn (SNotifyWsFrame _ _ _) = True"
| "by_session conn (SNotifyWsClose _ _ _) = True"
| "by_session conn _ = False"

fun by_tunnel :: "state_op \<Rightarrow> bool" where
  "by_tunnel (SAddWsPending _ _ _) = True" | "by_tunnel (SRemoveWsPending _) = True"
| "by_tunnel (SAddWsStream _ _ _) = True" | "by_tunnel (SRemoveWsStream _) = True"
| "by_tunnel _ = False"

lemma op_kinds:
  "inflight_op op \<or> by_tunnel op \<or> (\<exists>conn. by_session conn op)"
  "by_tunnel op \<Longrightarrow> \<not> inflight_op op" "by_session conn op \<Longrightarrow> \<not> inflight_op op"
  by (cases op; auto)+

definition fresh :: "uuid \<Rightarrow> chan \<Rightarrow> 't system \<Rightarrow> bool" where
  "fresh rid c s \<longleftrightarrow> sy_tasks s rid = None \<and> (\<forall>r t. sy_tasks s r = Some t \<longrightarrow> in_chan (tk_env t) \<noteq> c)"

datatype label = LTask uuid | LClient uuid | LAgent uuid | LOther | LTick

text \<open>
  An agent session is one task, known by its connection id, that does one thing after the other. It
  answers in two steps (\<open>answer_lookup\<close> and \<open>answer_send\<close>): it clones the sender from the table, or
  takes it out for a terminal event, and then waits until the channel has room or lost its receiver.
  Meanwhile it handles no other message: none of its other operations, its clean-up included, can
  happen.
\<close>

inductive sys_step :: "'t json \<Rightarrow> http_lib \<Rightarrow> 't system \<Rightarrow> label \<Rightarrow> 't system \<Rightarrow> bool" for J H where
  arrive_unknown:
    "get_agent (sy_app s) (rq_tunnel rq) = None \<Longrightarrow> fresh rid c s \<Longrightarrow>
     sys_step J H s (LClient rid)
       (s\<lparr>sy_tasks := (sy_tasks s)(rid \<mapsto> new_task rq None rid c (request_timeout_secs (sy_app s))
           (Finished (simple_response 502 ''no connected agent for tunnel'')))\<rparr>)"
| arrive:
    "get_agent (sy_app s) (rq_tunnel rq) = Some a \<Longrightarrow> fresh rid c s \<Longrightarrow>
     sys_step J H s (LClient rid)
       (s\<lparr>sy_tasks := (sy_tasks s)(rid \<mapsto>
           new_task rq (Some a) rid c (request_timeout_secs (sy_app s)) SendStart)\<rparr>)"
| handler:
    "sy_tasks s rid = Some t \<Longrightarrow> task_step J H s t acts took t' \<Longrightarrow>
     sys_step J H s (LTask rid) (after_task rid acts took t' s)"
| client_leaves:
    "sy_tasks s rid = Some t \<Longrightarrow> waits (tk_phase t) \<Longrightarrow>
     sys_step J H s (LClient rid) (after_task rid [] False (t\<lparr>tk_phase := Dropped\<rparr>) s)"
| answer_misses:
    "tbl_get (sy_sending s) conn = None \<Longrightarrow> event_of op = Some (rid, ev) \<Longrightarrow>
     tbl_get (inflight (sy_app s)) rid = None \<Longrightarrow>
     sys_step J H s (LAgent conn) s"
| answer_found:
    "tbl_get (sy_sending s) conn = None \<Longrightarrow> event_of op = Some (rid, ev) \<Longrightarrow>
     tbl_get (inflight (sy_app s)) rid = Some c \<Longrightarrow>
     sys_step J H s (LAgent conn)
       (s\<lparr>sy_app := (if terminal ev then remove_inflight rid (sy_app s) else sy_app s),
          sy_sending := tbl_insert conn (rid, c, ev) (sy_sending s)\<rparr>)"
| answer_sent:
    "tbl_get (sy_sending s) conn = Some (rid, c, ev) \<Longrightarrow> c \<in> sy_rx s \<Longrightarrow>
     length (sy_queue s c) < CHANNEL_CAPACITY \<Longrightarrow>
     sys_step J H s (LAgent conn)
       (s\<lparr>sy_queue := (sy_queue s)(c := sy_queue s c @ [ev]),
          sy_sending := tbl_remove conn (sy_sending s)\<rparr>)"
| answer_lost:
    "tbl_get (sy_sending s) conn = Some (rid, c, ev) \<Longrightarrow> c \<notin> sy_rx s \<Longrightarrow>
     sys_step J H s (LAgent conn)
       (s\<lparr>sy_app := (if terminal ev then sy_app s else remove_inflight rid (sy_app s)),
          sy_sending := tbl_remove conn (sy_sending s)\<rparr>)"
| session_acts:
    "tbl_get (sy_sending s) conn = None \<Longrightarrow> by_session conn op \<Longrightarrow>
     sys_step J H s (LAgent conn) (s\<lparr>sy_app := fst ((exec_op rx op :: 't relay_act) (sy_app s))\<rparr>)"
| tunnel_acts:
    "by_tunnel op \<Longrightarrow>
     sys_step J H s LOther (s\<lparr>sy_app := fst ((exec_op rx op :: 't relay_act) (sy_app s))\<rparr>)"
| agent_gone:
    "sys_step J H s LOther (s\<lparr>sy_open := (sy_open s)(c := False)\<rparr>)"
| tick:
    "sys_step J H s LTick (s\<lparr>sy_now := sy_now s + d\<rparr>)"

text \<open>The two steps of an answer are those of the operation.\<close>

lemma answer_steps:
  "tbl_get (inflight st) rid = None \<Longrightarrow> answer_lookup rid ev st = (st, None)"
  "tbl_get (inflight st) rid = Some c \<Longrightarrow>
     answer_lookup rid ev st = (if terminal ev then remove_inflight rid st else st, Some c)"
  "rx c \<Longrightarrow> answer_send rx rid ev c st = (st, [ToRequest c ev])"
  "\<not> rx c \<Longrightarrow> answer_send rx rid ev c st = (if terminal ev then st else remove_inflight rid st, [])"
  by (simp_all add: answer_lookup_def answer_send_def)

definition new_system :: "string set \<Rightarrow> u64 \<Rightarrow> 't system" where
  "new_system tokens timeout =
     \<lparr>sy_app = new_state tokens timeout, sy_now = 0, sy_tasks = Map.empty, sy_queue = (\<lambda>_. []),
      sy_rx = {}, sy_sending = [], sy_open = (\<lambda>_. True)\<rparr>"

inductive sys_reachable :: "'t json \<Rightarrow> http_lib \<Rightarrow> 't system \<Rightarrow> bool" for J H where
  sys_init: "sys_reachable J H (new_system tokens timeout)"
| sys_next: "sys_reachable J H s \<Longrightarrow> sys_step J H s l s' \<Longrightarrow> sys_reachable J H s'"

inductive_cases task_stepE: "task_step J H s t acts took t'"
inductive_cases sys_stepE: "sys_step J H s l s'"
inductive_cases handler_stepE: "sys_step J H s (LTask rid) s'"
inductive_cases agent_stepE: "sys_step J H s (LAgent conn) s'"

section \<open>Each handler does what the handler function says\<close>

text \<open>What holds of a task's history in each phase.\<close>

definition start_ok :: "'t json \<Rightarrow> http_lib \<Rightarrow> 't task \<Rightarrow> agent_handle \<Rightarrow> 't relay_out list \<Rightarrow> bool" where
  "start_ok J H t a out \<longleftrightarrow> in_agent (tk_env t) = Some a \<and>
     send_control J (\<lambda>_. in_start_open (tk_env t)) (sender a) (start_message H t) = (Inr (), out)"

definition upload_ok :: "'t task \<Rightarrow> agent_handle \<Rightarrow> u32 \<Rightarrow> 't relay_out list \<Rightarrow> bool" where
  "upload_ok t a n sb \<longleftrightarrow>
     (let body = stream_request_body (sender a) (in_rid (tk_env t)) (protocol_version a) in
      \<forall>rest. body 0 (in_body (tk_env t) @ rest) = (case body n rest of (r, s) \<Rightarrow> (r, sb @ s)))"

definition sent_ok :: "'t json \<Rightarrow> http_lib \<Rightarrow> 't task \<Rightarrow> bool" where
  "sent_ok J H t \<longleftrightarrow> (\<exists>a out sb se. start_ok J H t a out \<and>
     stream_request_body (sender a) (in_rid (tk_env t)) (protocol_version a) 0 (in_body (tk_env t)) = (Inr (), sb) \<and>
     send_control J (\<lambda>_. in_end_open (tk_env t)) (sender a) (HttpRequestEnd (in_rid (tk_env t))) = (Inr (), se) \<and>
     tk_trace t = map Put out @ [Do (SAddInflight (in_rid (tk_env t)) (in_chan (tk_env t)))] @ map Put (sb @ se))"

definition wait_ok :: "'t task \<Rightarrow> bytes list \<Rightarrow> bool" where
  "wait_ok t early \<longleftrightarrow> (\<forall>rest. await_start (deadline t) [] (in_polls (tk_env t) @ rest) =
     await_start (deadline t) early rest)"

definition stream_ok :: "'t task \<Rightarrow> bytes list \<Rightarrow> bool" where
  "stream_ok t chunks \<longleftrightarrow> (\<forall>rest. response_stream (in_events (tk_env t) @ rest) =
     (case response_stream rest of (cs, done) \<Rightarrow> (chunks @ cs, done)))"

definition untouched :: "'t task \<Rightarrow> bool" where
  "untouched t \<longleftrightarrow> in_polls (tk_env t) = [] \<and> in_events (tk_env t) = [] \<and> tk_yielded t = []"

definition task_ok :: "'t json \<Rightarrow> http_lib \<Rightarrow> 't task \<Rightarrow> bool" where
  "task_ok J H t \<longleftrightarrow>
    (case tk_phase t of
       SendStart \<Rightarrow> in_agent (tk_env t) \<noteq> None \<and> tk_trace t = [] \<and> in_body (tk_env t) = [] \<and> untouched t
     | Register \<Rightarrow> untouched t \<and> in_body (tk_env t) = [] \<and>
         (\<exists>a out. start_ok J H t a out \<and> tk_trace t = map Put out)
     | Upload n \<Rightarrow> untouched t \<and> (\<exists>a out sb. start_ok J H t a out \<and> upload_ok t a n sb \<and>
         tk_trace t = map Put out @ [Do (SAddInflight (in_rid (tk_env t)) (in_chan (tk_env t)))] @ map Put sb)
     | SendEnd \<Rightarrow> untouched t \<and> (\<exists>a out sb. start_ok J H t a out \<and>
         stream_request_body (sender a) (in_rid (tk_env t)) (protocol_version a) 0 (in_body (tk_env t)) = (Inr (), sb) \<and>
         tk_trace t = map Put out @ [Do (SAddInflight (in_rid (tk_env t)) (in_chan (tk_env t)))] @ map Put sb)
     | Top early \<Rightarrow> sent_ok J H t \<and> wait_ok t early \<and> in_events (tk_env t) = [] \<and> tk_yielded t = []
     | Recv t0 early \<Rightarrow> sent_ok J H t \<and> wait_ok t early \<and> t0 < deadline t \<and>
         in_events (tk_env t) = [] \<and> tk_yielded t = []
     | Yield status headers left \<Rightarrow> sent_ok J H t \<and> (\<exists>early chunks.
         await_start (deadline t) [] (in_polls (tk_env t)) = Some (Started status headers early) \<and>
         stream_ok t chunks \<and> early @ chunks = tk_yielded t @ left \<and> (left \<noteq> [] \<longrightarrow> in_events (tk_env t) = []))
     | Finished rsp \<Rightarrow> handle_ingress J H (tk_request t) (tk_env t) = (tk_trace t, Some rsp)
     | Dropped \<Rightarrow> ops_of (tk_trace t) = [SAddInflight (in_rid (tk_env t)) (in_chan (tk_env t))])"

lemma send_control_at: "send_control J (\<lambda>_. rx c) c m = send_control J rx c m"
  by (simp add: send_control_def split: sum.split)

lemma response_stream_snoc:
  assumes "stream_ok t chunks" and "response_stream [r] = (cs, False)"
  shows "response_stream (in_events (tk_env t) @ r # rest) =
    (case response_stream rest of (cs', done) \<Rightarrow> (chunks @ cs @ cs', done))"
  using assms(1) [unfolded stream_ok_def, THEN spec, of "r # rest"] assms(2)
  by (cases r; cases "the r") (auto split: prod.splits)

lemma upload_snoc:
  assumes "upload_ok t a n sb" and
    "stream_request_body (sender a) (in_rid (tk_env t)) (protocol_version a) n [x] = (Inr (), out)"
  shows "stream_request_body (sender a) (in_rid (tk_env t)) (protocol_version a) 0 (in_body (tk_env t) @ x # rest) =
    (case stream_request_body (sender a) (in_rid (tk_env t)) (protocol_version a)
       (if fst x = Chunk [] then n else n + 1) rest of (r, s) \<Rightarrow> (r, (sb @ out) @ s))"
  using assms(1) [unfolded upload_ok_def Let_def, THEN spec, of "x # rest"] assms(2)
  by (cases x; cases "fst x") (auto simp: Let_def split: prod.splits if_splits)

lemma handle_ingress_waiting:
  assumes "sent_ok J H t"
  shows "handle_ingress J H (tk_request t) (tk_env t) =
    (case await_start (deadline t) [] (in_polls (tk_env t)) of
       None \<Rightarrow> (tk_trace t, None)
     | Some (Failed status body) \<Rightarrow>
         (tk_trace t @ [Do (SRemoveInflight (in_rid (tk_env t)))], Some (simple_response status body))
     | Some (Started status headers early) \<Rightarrow>
         (case response_stream (in_events (tk_env t)) of
            (chunks, finished) \<Rightarrow>
              (tk_trace t @ (if finished then [Do (SRemoveInflight (in_rid (tk_env t)))] else []),
               Some \<lparr>rsp_status = (if status_valid H status then status else 502),
                 rsp_headers = apply_forwarded_headers H [] headers,
                 rsp_body = early @ chunks, rsp_complete = finished\<rparr>)))"
  using assms
  by (auto simp: sent_ok_def start_ok_def handle_ingress_def start_message_def Let_def
      split: option.split start_result.split prod.split)

lemma sent_ok_cong:
  assumes "sent_ok J H t" and "tk_request t' = tk_request t" and "tk_trace t' = tk_trace t"
    and "in_agent (tk_env t') = in_agent (tk_env t)" and "in_rid (tk_env t') = in_rid (tk_env t)"
    and "in_chan (tk_env t') = in_chan (tk_env t)" and "in_start_open (tk_env t') = in_start_open (tk_env t)"
    and "in_body (tk_env t') = in_body (tk_env t)" and "in_end_open (tk_env t') = in_end_open (tk_env t)"
  shows "sent_ok J H t'"
  using assms by (simp add: sent_ok_def start_ok_def start_message_def)

lemma wait_ok_poll:
  assumes "wait_ok t early"
  shows "await_start (deadline t) [] (in_polls (tk_env t) @ p # rest) = await_start (deadline t) early (p # rest)"
  using assms by (simp add: wait_ok_def)

text \<open>The trace of a task after a step holds what the step did.\<close>

abbreviation recorded :: "'t task \<Rightarrow> 't action list \<Rightarrow> 't task" where
  "recorded t acts \<equiv> t\<lparr>tk_trace := tk_trace t @ acts\<rparr>"

lemma task_ok_sending:
  assumes "task_step J H s t acts took t'" and "task_ok J H t"
    and "tk_phase t = SendStart \<or> tk_phase t = Register \<or> tk_phase t = SendEnd"
  shows "task_ok J H (recorded t' acts)"
  using assms(1)
proof cases
  case (start_sent a out)
  with assms show ?thesis
    by (auto simp: task_ok_def start_ok_def start_message_def untouched_def send_control_at)
next
  case (start_failed a err out)
  with assms show ?thesis
    by (auto simp: task_ok_def start_message_def send_control_at handle_ingress_def Let_def)
next
  case registered_entry
  with assms show ?thesis
    by (auto simp: task_ok_def start_ok_def start_message_def untouched_def upload_ok_def split: prod.split)
next
  case (end_sent a out)
  with assms show ?thesis
    by (auto simp: task_ok_def start_ok_def start_message_def untouched_def send_control_at
        sent_ok_def wait_ok_def)
next
  case (end_failed a err out)
  with assms show ?thesis
    by (auto simp: task_ok_def start_ok_def start_message_def send_control_at handle_ingress_def Let_def)
qed (use assms(3) in auto)

lemma task_ok_upload:
  assumes "tk_phase t = Upload n" and "untouched t" and "start_ok J H t a out" and "upload_ok t a n sb"
    and "tk_trace t = map Put out @ [Do (SAddInflight (in_rid (tk_env t)) (in_chan (tk_env t)))] @ map Put sb"
  shows "task_ok J H t"
  unfolding task_ok_def assms(1) phase.case using assms(2-5) by blast

lemma task_ok_uploading:
  assumes "task_step J H s t acts took t'" and "task_ok J H t" and "tk_phase t = Upload n"
  shows "task_ok J H (recorded t' acts)"
proof -
  from assms(2,3) obtain a out sb where ut: "untouched t" and st: "start_ok J H t a out"
    and up: "upload_ok t a n sb"
    and tr: "tk_trace t = map Put out @ [Do (SAddInflight (in_rid (tk_env t)) (in_chan (tk_env t)))] @ map Put sb"
    by (auto simp: task_ok_def)
  from assms(1) show ?thesis
  proof cases
    case (uploaded m a' item out')
    with assms(3) st have same: "m = n" "a' = a" by (auto simp: start_ok_def)
    let ?t = "recorded t' acts"
    have "upload_ok ?t a (if item = Chunk [] then n else n + 1) (sb @ out')"
      using upload_snoc [OF up, of "(item, sy_open s (sender a))" out'] uploaded
      by (simp add: upload_ok_def Let_def same)
    moreover have "start_ok J H ?t a out" using st uploaded by (simp add: start_ok_def start_message_def)
    moreover have "untouched ?t" using ut uploaded by (simp add: untouched_def)
    moreover have "tk_phase ?t = Upload (if item = Chunk [] then n else n + 1)"
      and "tk_trace ?t = map Put out @ [Do (SAddInflight (in_rid (tk_env ?t)) (in_chan (tk_env ?t)))]
        @ map Put (sb @ out')"
      using uploaded tr by (simp_all add: same)
    ultimately show ?thesis by (rule_tac task_ok_upload)
  next
    case (upload_failed m a' item err out')
    with assms(3) st have same: "m = n" "a' = a" by (auto simp: start_ok_def)
    have body: "stream_request_body (sender a) (in_rid (tk_env t)) (protocol_version a) 0
        (in_body (tk_env t) @ [(item, sy_open s (sender a))]) = (Inl err, sb @ out')"
      using up [unfolded upload_ok_def Let_def, THEN spec, of "[(item, sy_open s (sender a))]"] upload_failed
      by (simp add: same)
    show ?thesis
      using upload_failed st tr body
      by (auto simp: task_ok_def start_ok_def start_message_def handle_ingress_def Let_def same)
  next
    case (upload_done m)
    have body: "stream_request_body (sender a) (in_rid (tk_env t)) (protocol_version a) 0 (in_body (tk_env t))
        = (Inr (), sb)"
      using up [unfolded upload_ok_def Let_def, THEN spec, of "[]"] by simp
    show ?thesis
      using upload_done st tr ut body
      by (auto simp: task_ok_def start_ok_def start_message_def untouched_def)
  qed (use assms(3) in auto)
qed

lemma finished_ok:
  assumes "sent_ok J H t"
    and "await_start (deadline t) [] (in_polls (tk_env t)) = Some (Failed status msg)"
  shows "handle_ingress J H (tk_request t) (tk_env t) =
    (tk_trace t @ [Do (SRemoveInflight (in_rid (tk_env t)))], Some (simple_response status msg))"
  by (simp add: handle_ingress_waiting [OF assms(1)] assms(2))

lemma task_ok_waiting:
  assumes "task_step J H s t acts took t'" and "task_ok J H t"
    and "tk_phase t = Top early \<or> tk_phase t = Recv t0 early"
  shows "task_ok J H (recorded t' acts)"
proof -
  from assms(2,3) have sent: "sent_ok J H t" and wait: "wait_ok t early"
    and ev: "in_events (tk_env t) = []" "tk_yielded t = []"
    by (auto simp: task_ok_def)
  have sent': "sent_ok J H (t\<lparr>tk_env := (tk_env t)\<lparr>in_polls := ps\<rparr>, tk_phase := ph\<rparr>)" for ps ph
    by (rule sent_ok_cong [OF sent]) simp_all
  from assms(1) show ?thesis
  proof cases
    case (round_late e)
    with assms(3) have "e = early" by auto
    with round_late show ?thesis
      using finished_ok [OF sent' [where ps = "in_polls (tk_env t) @ [(elapsed s t, None)]"]]
        wait_ok_poll [OF wait, of "(elapsed s t, None)" "[]"]
      by (simp add: task_ok_def await_start.simps(2))
  next
    case (round_waits e)
    with assms(3) have "e = early" by auto
    moreover have "sent_ok J H (recorded t' acts)" by (rule sent_ok_cong [OF sent]) (simp_all add: round_waits)
    ultimately show ?thesis using round_waits wait ev by (simp add: task_ok_def wait_ok_def)
  next
    case (poll_body t1 e r chunk)
    with assms(3) have "e = early" "t1 = t0" by auto
    moreover have "sent_ok J H (recorded t' acts)" by (rule sent_ok_cong [OF sent]) (simp_all add: poll_body)
    moreover have "t0 < deadline t" using assms(2) poll_body calculation by (simp add: task_ok_def)
    ultimately show ?thesis
      using poll_body wait ev by (simp add: task_ok_def wait_ok_def await_start_body)
  next
    case (poll_start t1 e r status headers)
    with assms(3) have "e = early" "t1 = t0" by auto
    moreover have "sent_ok J H (recorded t' acts)" by (rule sent_ok_cong [OF sent]) (simp_all add: poll_start)
    moreover have "t0 < deadline t" using assms(2) poll_start calculation by (simp add: task_ok_def)
    ultimately show ?thesis
      using poll_start ev wait_ok_poll [OF wait, of "(t0, r)" "[]"]
      by (auto simp: task_ok_def stream_ok_def await_start.simps(2) split: prod.split)
  next
    case (poll_failed t1 e r status msg)
    with assms(3) have "e = early" "t1 = t0" by auto
    with poll_failed show ?thesis
      using finished_ok [OF sent' [where ps = "in_polls (tk_env t) @ [(t0, r)]"]] wait_ok_poll [OF wait, of "(t0, r)" "[]"]
      by (simp add: task_ok_def)
  qed (use assms(3) in auto)
qed

lemma task_ok_streaming:
  assumes "task_step J H s t acts took t'" and "task_ok J H t" and "tk_phase t = Yield status headers left"
  shows "task_ok J H (recorded t' acts)"
proof -
  from assms(2,3) obtain early chunks where sent: "sent_ok J H t"
    and st: "await_start (deadline t) [] (in_polls (tk_env t)) = Some (Started status headers early)"
    and so: "stream_ok t chunks" and bytes: "early @ chunks = tk_yielded t @ left"
    and ev: "left \<noteq> [] \<longrightarrow> in_events (tk_env t) = []"
    by (auto simp: task_ok_def)
  from assms(1) show ?thesis
  proof cases
    case (yielded_early st' hs chunk rest)
    with assms(3) have same: "st' = status" "hs = headers" "left = chunk # rest" by auto
    have "sent_ok J H (recorded t' acts)" by (rule sent_ok_cong [OF sent]) (simp_all add: yielded_early)
    with yielded_early st so bytes ev show ?thesis
      by (auto simp: task_ok_def stream_ok_def same)
  next
    case (streamed st' hs r cs)
    with assms(3) have same: "st' = status" "hs = headers" "left = []" by auto
    have "sent_ok J H (recorded t' acts)" by (rule sent_ok_cong [OF sent]) (simp_all add: streamed)
    moreover have "stream_ok (recorded t' acts) (chunks @ cs)"
      using response_stream_snoc [OF so] streamed by (simp add: stream_ok_def)
    ultimately show ?thesis
      using streamed st bytes by (auto simp: task_ok_def same)
  next
    case (stream_ended st' hs r cs)
    with assms(3) have same: "st' = status" "hs = headers" "left = []" by auto
    let ?t = "t\<lparr>tk_env := (tk_env t)\<lparr>in_events := in_events (tk_env t) @ [r]\<rparr>\<rparr>"
    have sent': "sent_ok J H ?t" by (rule sent_ok_cong [OF sent]) simp_all
    have cs: "cs = []" using stream_ended by (cases r; cases "the r") (auto split: prod.splits)
    have "response_stream (in_events (tk_env t) @ [r]) = (chunks, True)"
      using so [unfolded stream_ok_def, THEN spec, of "[r]"] stream_ended cs by simp
    then show ?thesis
      using handle_ingress_waiting [OF sent'] stream_ended st bytes by (simp add: task_ok_def same)
  qed (use assms(3) in auto)
qed

lemma task_ok_step:
  assumes "task_step J H s t acts took t'" and "task_ok J H t"
  shows "task_ok J H (recorded t' acts)"
proof (cases "tk_phase t")
  case (Finished rsp)
  from assms(1) show ?thesis by cases (use Finished in auto)
next
  case Dropped
  from assms(1) show ?thesis by cases (use Dropped in auto)
qed (use task_ok_sending [OF assms] task_ok_uploading [OF assms] task_ok_waiting [OF assms]
      task_ok_streaming [OF assms] in auto)

lemma task_ok_drop:
  assumes "task_ok J H t" and "waits (tk_phase t)"
  shows "task_ok J H (t\<lparr>tk_phase := Dropped\<rparr>)"
  using assms by (cases "tk_phase t") (auto simp: task_ok_def sent_ok_def)

end
