(* ===== verification/Relay_System_Table.thy ===== *)
theory Relay_System_Table
  imports Relay_System
begin

text \<open>
  The invariant of the concurrent system of \<open>Relay_System\<close>: how the table of requests in flight,
  the agent sessions and the response channels belong to the handlers. From it follow the properties
  of every reachable system: the handlers refine the handler function, the shared state is one the
  operations reach, the branch for a closed response channel is never taken, a client that leaves
  strands its table entry, and one slow client stops its agent's session.
\<close>

section \<open>The table of requests in flight\<close>

text \<open>
  What the table, the sessions and the channels have to do with the handlers. An entry belongs to
  a handler that is live or was dropped, a session sends to a handler that was registered, a
  channel has its receiver while its handler is live, no two handlers share a channel, and a live
  handler has its entry in the table or a terminal event on its way.
\<close>

definition owned :: "'t system \<Rightarrow> uuid \<Rightarrow> chan \<Rightarrow> (phase \<Rightarrow> bool) \<Rightarrow> bool" where
  "owned s rid c P \<longleftrightarrow>
    (case sy_tasks s rid of None \<Rightarrow> False | Some t \<Rightarrow> in_chan (tk_env t) = c \<and> P (tk_phase t))"

fun holds_entry :: "phase \<Rightarrow> bool" where
  "holds_entry Dropped = True" | "holds_entry ph = live ph"

fun registered_phase :: "phase \<Rightarrow> bool" where
  "registered_phase (Finished _) = True" | "registered_phase ph = holds_entry ph"

definition answered :: "'t system \<Rightarrow> chan \<Rightarrow> bool" where
  "answered s c \<longleftrightarrow> (\<exists>ev\<in>set (sy_queue s c). terminal ev) \<or>
     (\<exists>conn rid ev. tbl_get (sy_sending s) conn = Some (rid, c, ev) \<and> terminal ev)"

definition sys_ok :: "'t system \<Rightarrow> bool" where
  "sys_ok s \<longleftrightarrow> state_ok (sy_app s) \<and> tbl_ok (sy_sending s) \<and>
    (\<forall>rid t. sy_tasks s rid = Some t \<longrightarrow> in_rid (tk_env t) = rid) \<and>
    (\<forall>r1 t1 r2 t2. sy_tasks s r1 = Some t1 \<longrightarrow> sy_tasks s r2 = Some t2 \<longrightarrow>
       in_chan (tk_env t1) = in_chan (tk_env t2) \<longrightarrow> r1 = r2) \<and>
    (\<forall>rid c. tbl_get (inflight (sy_app s)) rid = Some c \<longrightarrow> owned s rid c holds_entry) \<and>
    (\<forall>conn rid c ev. tbl_get (sy_sending s) conn = Some (rid, c, ev) \<longrightarrow> owned s rid c registered_phase) \<and>
    (\<forall>c. c \<in> sy_rx s \<longleftrightarrow> (\<exists>rid. owned s rid c live)) \<and>
    (\<forall>c. length (sy_queue s c) \<le> CHANNEL_CAPACITY) \<and>
    (\<forall>rid c. owned s rid c live \<longrightarrow> tbl_get (inflight (sy_app s)) rid = Some c \<or> answered s c)"

text \<open>The three kinds of effect a handler's step has on the others.\<close>

lemma task_effect:
  assumes "task_step J H s t acts took t'"
  obtains (silent) "ops_of acts = []" "live (tk_phase t') = live (tk_phase t)"
      "registered_phase (tk_phase t) \<Longrightarrow> registered_phase (tk_phase t')" "tk_phase t' \<noteq> Dropped" "tk_phase t \<noteq> Dropped"
      "took \<Longrightarrow> live (tk_phase t) \<and> (\<exists>ev q. sy_queue s (in_chan (tk_env t)) = ev # q \<and> \<not> terminal ev)"
    | (enter) "ops_of acts = [SAddInflight (in_rid (tk_env t)) (in_chan (tk_env t))]" "\<not> took"
      "tk_phase t = Register" "tk_phase t' = Upload 0"
    | (leave) rsp where "ops_of acts = [SRemoveInflight (in_rid (tk_env t))]" "live (tk_phase t)"
      "tk_phase t' = Finished rsp"
  using assms
proof cases
  case (poll_body t0 early r chunk)
  then show thesis
    by (intro silent) (auto simp: timeout_recv_def recv_def terminal_def split: list.splits if_splits option.splits)
next
  case (poll_start t0 early r st hs)
  then show thesis
    by (intro silent) (auto simp: timeout_recv_def recv_def terminal_def split: list.splits if_splits option.splits)
next
  case (streamed st hs r cs)
  then show thesis
    by (intro silent)
       (auto simp: recv_def terminal_def split: list.splits if_splits option.splits prod.splits relay_event.splits)
qed (auto intro: silent enter leave)

lemma task_keeps:
  assumes "task_step J H s t acts took t'"
  shows "in_rid (tk_env t') = in_rid (tk_env t)" and "in_chan (tk_env t') = in_chan (tk_env t)"
    and "in_timeout (tk_env t') = in_timeout (tk_env t)" and "tk_request t' = tk_request t"
    and "tk_trace t' = tk_trace t"
  using assms by (cases, simp_all)+

lemma live_holds: "live ph \<Longrightarrow> holds_entry ph" "holds_entry ph \<Longrightarrow> registered_phase ph"
  by (cases ph; simp)+

lemma owned_upd:
  "owned (s\<lparr>sy_tasks := (sy_tasks s)(rid \<mapsto> t)\<rparr>) r c P \<longleftrightarrow>
    (if r = rid then in_chan (tk_env t) = c \<and> P (tk_phase t) else owned s r c P)"
  by (simp add: owned_def)

lemma owned_frame [simp]:
  "owned (s\<lparr>sy_app := a\<rparr>) = owned s" "owned (s\<lparr>sy_sending := b\<rparr>) = owned s"
  "owned (s\<lparr>sy_queue := q\<rparr>) = owned s" "owned (s\<lparr>sy_rx := x\<rparr>) = owned s"
  "owned (s\<lparr>sy_now := n\<rparr>) = owned s" "owned (s\<lparr>sy_open := p\<rparr>) = owned s"
  by (simp_all add: owned_def fun_eq_iff split: option.split)

lemma owned_after:
  "in_chan (tk_env t) = c0 \<Longrightarrow>
   owned (after_task rid acts took t s) r c P \<longleftrightarrow>
    (if r = rid then c0 = c \<and> P (tk_phase t) else owned s r c P)"
  by (simp add: after_task_def Let_def owned_def)

lemma sys_ok_owner: "sys_ok s \<Longrightarrow> owned s r1 c P \<Longrightarrow> owned s r2 c Q \<Longrightarrow> r1 = r2"
  unfolding sys_ok_def owned_def by (auto split: option.splits)

lemma state_ok_inflight [simp]:
  "state_ok st \<Longrightarrow> state_ok (add_inflight rid c st)" "state_ok st \<Longrightarrow> state_ok (remove_inflight rid st)"
  by (simp_all add: state_ok_def add_inflight_def remove_inflight_def)

lemma sys_okD:
  assumes "sys_ok s"
  shows "state_ok (sy_app s)" and "tbl_ok (sy_sending s)"
    and "sy_tasks s rid = Some t \<Longrightarrow> in_rid (tk_env t) = rid"
    and "sy_tasks s r1 = Some t1 \<Longrightarrow> sy_tasks s r2 = Some t2 \<Longrightarrow> in_chan (tk_env t1) = in_chan (tk_env t2) \<Longrightarrow> r1 = r2"
    and "tbl_get (inflight (sy_app s)) rid = Some c \<Longrightarrow> owned s rid c holds_entry"
    and "tbl_get (sy_sending s) conn = Some (rid, c, ev) \<Longrightarrow> owned s rid c registered_phase"
    and "c \<in> sy_rx s \<longleftrightarrow> (\<exists>rid. owned s rid c live)"
    and "length (sy_queue s c) \<le> CHANNEL_CAPACITY"
    and "owned s rid c live \<Longrightarrow> tbl_get (inflight (sy_app s)) rid = Some c \<or> answered s c"
  using assms unfolding sys_ok_def by blast+

text \<open>A new handler is not in any of the tables.\<close>

lemma sys_ok_arrive:
  assumes "sys_ok s" and "fresh rid c s" and "\<not> live ph"
  shows "sys_ok (s\<lparr>sy_tasks := (sy_tasks s)(rid \<mapsto> new_task rq a rid c timeout ph)\<rparr>)"
proof -
  have none: "\<not> owned s rid d P" and unused: "\<not> owned s r c P" for r d P
    using assms(2) by (auto simp: fresh_def owned_def split: option.splits)
  note D = sys_okD [OF assms(1)]
  have ans: "answered (s\<lparr>sy_tasks := f\<rparr>) = answered s" for f by (simp add: answered_def fun_eq_iff)
  show ?thesis
    unfolding sys_ok_def owned_upd ans
    using D none unused assms(2,3)
    by (auto simp: new_task_def fresh_def) metis+
qed

lemma after_task_sel:
  "sy_tasks (after_task rid acts took t s) = (sy_tasks s)(rid \<mapsto> recorded t acts)"
  "sy_sending (after_task rid acts took t s) = sy_sending s"
  "sy_now (after_task rid acts took t s) = sy_now s" "sy_open (after_task rid acts took t s) = sy_open s"
  "sy_queue (after_task rid acts took t s) c =
    (if took \<and> c = in_chan (tk_env t) then tl (sy_queue s c) else sy_queue s c)"
  "c \<in> sy_rx (after_task rid acts took t s) \<longleftrightarrow>
    (if c = in_chan (tk_env t) then live (tk_phase t) else c \<in> sy_rx s)"
  "sy_app (after_task rid acts took t s) =
     fst ((for_each (exec_op (\<lambda>c. c \<in> sy_rx s)) (ops_of acts) :: 't relay_act) (sy_app s))"
  for s :: "'t system"
  by (auto simp: after_task_def Let_def)

lemma answered_after:
  "answered (after_task rid acts took t s) c \<longleftrightarrow>
    (\<exists>ev\<in>set (if took \<and> c = in_chan (tk_env t) then tl (sy_queue s c) else sy_queue s c). terminal ev) \<or>
    (\<exists>conn rid ev. tbl_get (sy_sending s) conn = Some (rid, c, ev) \<and> terminal ev)"
  by (simp add: answered_def after_task_sel)

lemma sys_ok_handler:
  assumes "sys_ok s" and "sy_tasks s rid = Some t" and "task_step J H s t acts took t'"
  shows "sys_ok (after_task rid acts took t' s)"
proof -
  note D = sys_okD [OF assms(1)]
  note keep = task_keeps [OF assms(3)]
  let ?c = "in_chan (tk_env t)" and ?s = "after_task rid acts took t' s"
  have rid: "in_rid (tk_env t) = rid" using D(3) assms(2) .
  have own: "owned s rid d P \<longleftrightarrow> d = ?c \<and> P (tk_phase t)" for d P
    using assms(2) by (auto simp: owned_def)
  have own': "owned ?s r d P \<longleftrightarrow> (if r = rid then ?c = d \<and> P (tk_phase t') else owned s r d P)" for r d P
    by (rule owned_after) (simp add: keep)
  have other: "owned s r ?c P \<Longrightarrow> r = rid" for r P
    using sys_ok_owner [OF assms(1), of r ?c P rid "\<lambda>_. True"] own by blast
  have basic: "tbl_ok (sy_sending ?s)" "\<forall>r u. sy_tasks ?s r = Some u \<longrightarrow> in_rid (tk_env u) = r"
    "\<forall>r1 t1 r2 t2. sy_tasks ?s r1 = Some t1 \<longrightarrow> sy_tasks ?s r2 = Some t2 \<longrightarrow>
       in_chan (tk_env t1) = in_chan (tk_env t2) \<longrightarrow> r1 = r2"
    using D(2,3) D(4) [OF assms(2)] D(4) [OF _ assms(2)] D(4) rid by (auto simp: after_task_sel keep split: if_splits)
  have rx: "\<forall>d. d \<in> sy_rx ?s \<longleftrightarrow> (\<exists>r. owned ?s r d live)"
  proof
    fix d
    have "owned s r d live \<Longrightarrow> d \<noteq> ?c \<Longrightarrow> r \<noteq> rid" for r using own by blast
    then show "d \<in> sy_rx ?s \<longleftrightarrow> (\<exists>r. owned ?s r d live)"
      using D(7) [of d] other [of _ live] by (cases "d = ?c") (auto simp: after_task_sel keep own' split: if_splits)
  qed
  have "length (tl (sy_queue s d)) \<le> CHANNEL_CAPACITY" for d
    using D(8) [of d] by simp
  with D(8) have queue: "\<forall>d. length (sy_queue ?s d) \<le> CHANNEL_CAPACITY"
    unfolding after_task_sel by (simp split: if_split)
  from assms(3) show ?thesis
  proof (cases rule: task_effect)
    case silent
    have app: "sy_app ?s = sy_app s" by (simp add: after_task_sel silent(1) skip_def)
    have ans: "answered ?s d \<longleftrightarrow> answered s d" for d
    proof (cases "took \<and> d = ?c")
      case True
      with silent(6) obtain ev q where "sy_queue s d = ev # q" "\<not> terminal ev" by blast
      with True show ?thesis unfolding answered_after keep by (simp add: answered_def)
    next
      case False
      then show ?thesis unfolding answered_after keep by (auto simp: answered_def)
    qed
    note reg = silent(3)
    have hold: "holds_entry (tk_phase t')" if "holds_entry (tk_phase t)"
      using that silent(2,5) live_holds(1) [of "tk_phase t'"] by (cases "tk_phase t") simp_all
    show ?thesis
      unfolding sys_ok_def app
    proof (intro conjI basic rx queue)
      show "\<forall>r d. tbl_get (inflight (sy_app s)) r = Some d \<longrightarrow> owned ?s r d holds_entry"
        using hold by (auto simp: own' own dest!: D(5))
      show "\<forall>conn r d ev. tbl_get (sy_sending ?s) conn = Some (r, d, ev) \<longrightarrow> owned ?s r d registered_phase"
        using reg by (auto simp: own' own after_task_sel dest!: D(6))
      show "\<forall>r d. owned ?s r d live \<longrightarrow> tbl_get (inflight (sy_app s)) r = Some d \<or> answered ?s d"
        using D(9) [of rid] D(9) ans silent(2) by (auto simp: own' own)
    qed (rule D(1))
  next
    case enter
    have app: "sy_app ?s = add_inflight rid ?c (sy_app s)"
      by (simp add: after_task_sel enter rid fst_andthen skip_def)
    have ans: "answered ?s d \<longleftrightarrow> answered s d" for d
      unfolding answered_after using enter(2) by (simp add: answered_def)
    show ?thesis
      unfolding sys_ok_def app ans
    proof (intro conjI basic rx queue)
      show "state_ok (add_inflight rid ?c (sy_app s))" using D(1) by simp
      show "\<forall>r d. tbl_get (inflight (add_inflight rid ?c (sy_app s))) r = Some d \<longrightarrow> owned ?s r d holds_entry"
        using enter(4) by (auto simp: own' infl.get_put dest!: D(5) split: if_splits)
      show "\<forall>conn r d ev. tbl_get (sy_sending ?s) conn = Some (r, d, ev) \<longrightarrow> owned ?s r d registered_phase"
        using enter(4) by (auto simp: own' own after_task_sel dest!: D(6))
      show "\<forall>r d. owned ?s r d live \<longrightarrow>
          tbl_get (inflight (add_inflight rid ?c (sy_app s))) r = Some d \<or> answered s d"
        using D(9) by (auto simp: own' infl.get_put)
    qed
  next
    case (leave rsp)
    have app: "sy_app ?s = remove_inflight rid (sy_app s)"
      by (simp add: after_task_sel leave rid fst_andthen skip_def)
    have ans: "answered ?s d \<longleftrightarrow> answered s d" if "owned ?s r d live" for r d
    proof -
      from that leave(3) have "r \<noteq> rid" and "owned s r d live" by (auto simp: own' split: if_splits)
      with other have "d \<noteq> ?c" by blast
      then show ?thesis unfolding answered_after keep by (simp add: answered_def)
    qed
    show ?thesis
      unfolding sys_ok_def app
    proof (intro conjI basic rx queue)
      show "state_ok (remove_inflight rid (sy_app s))" using D(1) by simp
      show "\<forall>r d. tbl_get (inflight (remove_inflight rid (sy_app s))) r = Some d \<longrightarrow> owned ?s r d holds_entry"
        by (auto simp: own' infl.get_del dest!: D(5) split: if_splits)
      show "\<forall>conn r d ev. tbl_get (sy_sending ?s) conn = Some (r, d, ev) \<longrightarrow> owned ?s r d registered_phase"
        using leave(3) by (auto simp: own' own after_task_sel dest!: D(6))
      show "\<forall>r d. owned ?s r d live \<longrightarrow>
          tbl_get (inflight (remove_inflight rid (sy_app s))) r = Some d \<or> answered ?s d"
        using D(9) ans leave(3) by (auto simp: own' infl.get_del)
    qed
  qed
qed

lemma sys_ok_drop:
  assumes "sys_ok s" and "sy_tasks s rid = Some t" and "waits (tk_phase t)"
  shows "sys_ok (after_task rid [] False (t\<lparr>tk_phase := Dropped\<rparr>) s)"
proof -
  note D = sys_okD [OF assms(1)]
  let ?c = "in_chan (tk_env t)" and ?s = "after_task rid [] False (t\<lparr>tk_phase := Dropped\<rparr>) s"
  have own: "owned s rid d P \<longleftrightarrow> d = ?c \<and> P (tk_phase t)" for d P
    using assms(2) by (auto simp: owned_def)
  have own': "owned ?s r d P \<longleftrightarrow> (if r = rid then ?c = d \<and> P Dropped else owned s r d P)" for r d P
    by (simp add: owned_after)
  have other: "owned s r ?c P \<Longrightarrow> r = rid" for r P
    using sys_ok_owner [OF assms(1), of r ?c P rid "\<lambda>_. True"] own by blast
  have lv: "live (tk_phase t)" using assms(3) by (cases "tk_phase t") simp_all
  have ans: "answered ?s d \<longleftrightarrow> answered s d" for d
    unfolding answered_after by (simp add: answered_def)
  have app: "sy_app ?s = sy_app s" by (simp add: after_task_sel skip_def)
  show ?thesis
    unfolding sys_ok_def app ans
  proof (intro conjI D(1))
    show "\<forall>r1 t1 r2 t2. sy_tasks ?s r1 = Some t1 \<longrightarrow> sy_tasks ?s r2 = Some t2 \<longrightarrow>
       in_chan (tk_env t1) = in_chan (tk_env t2) \<longrightarrow> r1 = r2"
      using D(4) [OF assms(2)] D(4) [OF _ assms(2)] D(4) by (auto simp: after_task_sel split: if_splits)
    show "\<forall>d. d \<in> sy_rx ?s \<longleftrightarrow> (\<exists>r. owned ?s r d live)"
    proof
      fix d
      have "owned s r d live \<Longrightarrow> d \<noteq> ?c \<Longrightarrow> r \<noteq> rid" for r using own by blast
      then show "d \<in> sy_rx ?s \<longleftrightarrow> (\<exists>r. owned ?s r d live)"
        using D(7) [of d] other [of _ live] by (cases "d = ?c") (auto simp: after_task_sel own' split: if_splits)
    qed
    show "\<forall>d. length (sy_queue ?s d) \<le> CHANNEL_CAPACITY" using D(8) by (simp add: after_task_sel)
    show "\<forall>conn r d ev. tbl_get (sy_sending ?s) conn = Some (r, d, ev) \<longrightarrow> owned ?s r d registered_phase"
      by (auto simp: own' own after_task_sel dest!: D(6))
    show "\<forall>r d. tbl_get (inflight (sy_app s)) r = Some d \<longrightarrow> owned ?s r d holds_entry"
      by (auto simp: own' own dest!: D(5))
  qed (use D(2,3,9) assms(2) in \<open>auto simp: after_task_sel own'\<close>)
qed

lemma sys_ok_answer_found:
  assumes "sys_ok s" and "tbl_get (inflight (sy_app s)) rid = Some c" and "tbl_get (sy_sending s) conn = None"
  shows "sys_ok (s\<lparr>sy_app := (if terminal ev then remove_inflight rid (sy_app s) else sy_app s),
          sy_sending := tbl_insert conn (rid, c, ev) (sy_sending s)\<rparr>)"
    (is "sys_ok ?s")
proof -
  note D = sys_okD [OF assms(1)]
  have own: "owned ?s = owned s" by simp
  have mine: "owned s rid c holds_entry" by (rule D(5) [OF assms(2)])
  have reg: "owned s rid c registered_phase"
    using mine live_holds(2) by (auto simp: owned_def split: option.splits)
  have infl: "tbl_get (inflight (sy_app ?s)) r = Some d \<Longrightarrow> tbl_get (inflight (sy_app s)) r = Some d" for r d
    by (simp add: infl.get_del split: if_splits)
  show ?thesis
    unfolding sys_ok_def own
  proof (intro conjI)
    show "\<forall>r d. owned s r d live \<longrightarrow> tbl_get (inflight (sy_app ?s)) r = Some d \<or> answered ?s d"
    proof (intro allI impI)
      fix r d assume "owned s r d live"
      from D(9) [OF this] show "tbl_get (inflight (sy_app ?s)) r = Some d \<or> answered ?s d"
      proof
        assume "answered s d"
        moreover have "tbl_get (sy_sending s) k = Some x \<Longrightarrow>
            tbl_get (tbl_insert conn (rid, c, ev) (sy_sending s)) k = Some x" for k x
          using assms(3) by (auto simp: table_simps)
        ultimately have "answered ?s d" unfolding answered_def by (simp, blast)
        then show ?thesis ..
      qed (use assms(2) in \<open>auto simp: answered_def table_simps infl.get_del\<close>)
    qed
    show "state_ok (sy_app ?s)" using D(1) by simp
    show "\<forall>r d. tbl_get (inflight (sy_app ?s)) r = Some d \<longrightarrow> owned s r d holds_entry"
      using infl D(5) by blast
    show "\<forall>conn' r d ev'. tbl_get (sy_sending ?s) conn' = Some (r, d, ev') \<longrightarrow> owned s r d registered_phase"
      using D(6) reg by (auto simp: table_simps split: if_splits)
  qed (use D(2-4,7,8) in auto)
qed

lemma sys_ok_answer_sent:
  assumes "sys_ok s" and "tbl_get (sy_sending s) conn = Some (rid, c, ev)"
    and "length (sy_queue s c) < CHANNEL_CAPACITY"
  shows "sys_ok (s\<lparr>sy_queue := (sy_queue s)(c := sy_queue s c @ [ev]),
          sy_sending := tbl_remove conn (sy_sending s)\<rparr>)"
    (is "sys_ok ?s")
proof -
  note D = sys_okD [OF assms(1)]
  have own: "owned ?s = owned s" by simp
  have ans: "answered ?s d" if "answered s d" for d
  proof (cases "d = c \<and> terminal ev")
    case False
    have "tbl_get (tbl_remove conn (sy_sending s)) k = Some (r, d, e)"
      if "tbl_get (sy_sending s) k = Some (r, d, e)" and "terminal e" for k r e
      using that False assms(2) by (auto simp: table_simps)
    with that show ?thesis unfolding answered_def by (simp, blast)
  qed (simp add: answered_def)
  show ?thesis
    unfolding sys_ok_def own
  proof (intro conjI)
    show "\<forall>r d. owned s r d live \<longrightarrow> tbl_get (inflight (sy_app ?s)) r = Some d \<or> answered ?s d"
      using D(9) ans by simp blast
    show "\<forall>conn' r d ev'. tbl_get (sy_sending ?s) conn' = Some (r, d, ev') \<longrightarrow> owned s r d registered_phase"
      using D(6) by (auto simp: table_simps split: if_splits)
    show "\<forall>d. length (sy_queue ?s d) \<le> CHANNEL_CAPACITY"
      using D(8) assms(3) by simp
  qed (use D(1-5,7) in auto)
qed

lemma sys_ok_answer_lost:
  assumes "sys_ok s" and "tbl_get (sy_sending s) conn = Some (rid, c, ev)" and "c \<notin> sy_rx s"
  shows "sys_ok (s\<lparr>sy_app := (if terminal ev then sy_app s else remove_inflight rid (sy_app s)),
          sy_sending := tbl_remove conn (sy_sending s)\<rparr>)"
    (is "sys_ok ?s")
proof -
  note D = sys_okD [OF assms(1)]
  have own: "owned ?s = owned s" by simp
  have dead: "r \<noteq> rid \<and> d \<noteq> c" if "owned s r d live" for r d
  proof -
    have "d \<in> sy_rx s" using D(7) that by blast
    with assms(3) have "d \<noteq> c" by blast
    moreover have "owned s rid c registered_phase" by (rule D(6) [OF assms(2)])
    ultimately show ?thesis using that by (auto simp: owned_def split: option.splits)
  qed
  have ans: "answered ?s d" if "answered s d" and "d \<noteq> c" for d
  proof -
    have "tbl_get (tbl_remove conn (sy_sending s)) k = Some (r, d, e)"
      if "tbl_get (sy_sending s) k = Some (r, d, e)" for k r e
      using that \<open>d \<noteq> c\<close> assms(2) by (auto simp: table_simps)
    with that(1) show ?thesis unfolding answered_def by (simp, blast)
  qed
  show ?thesis
    unfolding sys_ok_def own
  proof (intro conjI)
    show "\<forall>r d. owned s r d live \<longrightarrow> tbl_get (inflight (sy_app ?s)) r = Some d \<or> answered ?s d"
    proof (intro allI impI)
      fix r d assume lv: "owned s r d live"
      from dead [OF lv] have "tbl_get (inflight (sy_app ?s)) r = tbl_get (inflight (sy_app s)) r"
        by (simp add: infl.get_del)
      then show "tbl_get (inflight (sy_app ?s)) r = Some d \<or> answered ?s d"
        using D(9) [OF lv] dead [OF lv] ans by auto
    qed
    show "\<forall>conn' r d ev'. tbl_get (sy_sending ?s) conn' = Some (r, d, ev') \<longrightarrow> owned s r d registered_phase"
      using D(6) by (auto simp: table_simps split: if_splits)
    show "\<forall>r d. tbl_get (inflight (sy_app ?s)) r = Some d \<longrightarrow> owned s r d holds_entry"
      using D(5) by (auto simp: infl.get_del split: if_splits)
  qed (use D(1-4,7,8) in auto)
qed

lemma other_op_inflight:
  assumes "\<not> inflight_op op" and "state_ok st"
  shows "inflight (fst (exec_op rx op st)) = inflight st"
  using assms by (cases op)
    (auto simp: insert_agent_if_absent_def drop_agent_eq add_ws_pending_def remove_ws_pending_def notify_ws_connect_ack_def
      add_ws_stream_def remove_ws_stream_def notify_ws_frame_def notify_ws_close_def remove_agent_if_inflight
      split: option.split)

lemmas session_op_inflight = other_op_inflight [OF op_kinds(3)]
lemmas tunnel_op_inflight = other_op_inflight [OF op_kinds(2)]

lemma sys_ok_frame:
  assumes "sys_ok s" and "inflight a = inflight (sy_app s)" and "state_ok a"
  shows "sys_ok (s\<lparr>sy_app := a\<rparr>)" and "sys_ok (s\<lparr>sy_open := p\<rparr>)" and "sys_ok (s\<lparr>sy_now := n\<rparr>)"
  using assms unfolding sys_ok_def answered_def by simp_all

lemma sys_ok_other:
  assumes "sys_ok s" and "by_session conn op \<or> by_tunnel op"
  shows "sys_ok (s\<lparr>sy_app := fst (exec_op rx op (sy_app s))\<rparr>)"
  using sys_okD(1) [OF assms(1)] assms(2)
  by (intro sys_ok_frame(1) [OF assms(1)]) (auto simp: exec_op_state_ok session_op_inflight tunnel_op_inflight)

lemma sys_ok_step:
  assumes "sys_ok s" and "sys_step J H s l s'"
  shows "sys_ok s'"
  using assms(2)
proof cases
  case (answer_found conn op rid ev c)
  with assms(1) show ?thesis by (simp only: sys_ok_answer_found)
next
  case (answer_lost conn rid c ev)
  with assms(1) show ?thesis by (simp only: sys_ok_answer_lost not_False_eq_True)
qed (use assms(1) in \<open>auto intro: sys_ok_arrive sys_ok_handler sys_ok_drop sys_ok_answer_sent
        sys_ok_frame(2,3) sys_ok_other sys_okD(1)\<close>)

lemma sys_ok_new: "sys_ok (new_system tokens timeout)"
  by (simp add: sys_ok_def new_system_def new_state_def state_ok_def owned_def)

lemma sys_ok_reachable: "sys_reachable J H s \<Longrightarrow> sys_ok s"
  by (induction rule: sys_reachable.induct) (blast intro: sys_ok_new sys_ok_step)+

lemma tasks_ok_step:
  assumes "sys_step J H s l s'" and "\<forall>rid t. sy_tasks s rid = Some t \<longrightarrow> task_ok J H t"
  shows "\<forall>rid t. sy_tasks s' rid = Some t \<longrightarrow> task_ok J H t"
  using assms(1)
proof cases
  case (arrive_unknown rq rid c)
  with assms(2) show ?thesis by (auto simp: task_ok_def new_task_def handle_ingress_def)
next
  case (arrive rq a rid c)
  with assms(2) show ?thesis by (auto simp: task_ok_def new_task_def untouched_def)
next
  case (handler rid t acts took t')
  with assms(2) task_ok_step [OF handler(4)] show ?thesis by (auto simp: after_task_sel)
next
  case (client_leaves rid t)
  with assms(2) task_ok_drop [of J H t] show ?thesis by (auto simp: after_task_sel)
qed (use assms(2) in auto)

lemma tasks_ok_reachable: "sys_reachable J H s \<Longrightarrow> sy_tasks s rid = Some t \<Longrightarrow> task_ok J H t"
proof -
  assume "sys_reachable J H s"
  then have "\<forall>rid t. sy_tasks s rid = Some t \<longrightarrow> task_ok J H t"
    by (induction rule: sys_reachable.induct) (simp add: new_system_def, blast dest: tasks_ok_step)
  then show "sy_tasks s rid = Some t \<Longrightarrow> task_ok J H t" by blast
qed

text \<open>The shared state in a reachable system is one that the operations alone reach.\<close>

lemma fst_exec_op:
  assumes "state_ok st"
  shows "fst (exec_op rx op st :: _ \<times> 'a relay_out list) = fst (exec_op rx op st :: _ \<times> 'b relay_out list)"
  by (cases op)
     (auto simp: notify_start_eq notify_body_eq notify_end_eq notify_error_eq remove_agent_if_eq [OF assms]
        notify_ws_connect_ack_def notify_ws_frame_def notify_ws_close_def split: option.split)

lemma reachable_exec:
  "reachable st \<Longrightarrow> reachable (fst (exec_op rx op st :: _ \<times> 'a relay_out list))"
  using reachable_op [of st rx op] fst_exec_op [OF reachable_state_ok, of st rx op, where 'a = unit and 'b = 'a] by simp

lemma reachable_inflight:
  "reachable st \<Longrightarrow> reachable (add_inflight rid c st)" "reachable st \<Longrightarrow> reachable (remove_inflight rid st)"
  using reachable_op [of st _ "SAddInflight rid c"] reachable_op [of st _ "SRemoveInflight rid"] by simp_all

lemma reachable_after:
  assumes "reachable (sy_app s)" and "task_step J H s t acts took t'"
  shows "reachable (sy_app (after_task rid acts took t' s))"
  using assms(2)
  by (cases rule: task_effect)
     (use assms(1) in \<open>simp_all add: after_task_sel skip_def fst_andthen reachable_inflight\<close>)

lemma app_reachable: "sys_reachable J H s \<Longrightarrow> reachable (sy_app s)"
proof (induction rule: sys_reachable.induct)
  case (sys_init tokens timeout)
  then show ?case by (simp add: new_system_def reachable_new)
next
  case (sys_next s l s')
  from sys_next(2) show ?case
  proof cases
    case (handler rid t acts took t')
    with sys_next(3) reachable_after show ?thesis by blast
  next
    case (client_leaves rid t)
    with sys_next(3) show ?thesis by (simp add: after_task_sel skip_def)
  qed (use sys_next(3) reachable_inflight(2) reachable_exec in \<open>auto split: if_split\<close>)
qed

section \<open>Properties of the system\<close>

text \<open>The branch for a closed response channel.\<close>

lemma live_not_closed:
  assumes "sys_ok s" and "owned s rid c live"
  shows "recv s c \<noteq> Some None"
proof -
  from sys_okD(9) [OF assms] show ?thesis
  proof
    assume "tbl_get (inflight (sy_app s)) rid = Some c"
    then have "(rid, c) \<in> set (inflight (sy_app s))" by (simp add: tbl_get_def map_of_SomeD)
    then have "\<not> closed s c" by (auto simp: closed_def list_all_iff)
    then show ?thesis by (simp add: recv_def split: list.split)
  next
    assume "answered s c"
    then consider "sy_queue s c \<noteq> []" | conn r ev where "tbl_get (sy_sending s) conn = Some (r, c, ev)"
      unfolding answered_def by (metis empty_iff empty_set)
    then show ?thesis
    proof cases
      case 2
      then have "(conn, r, c, ev) \<in> set (sy_sending s)" by (simp add: tbl_get_def map_of_SomeD)
      then have "\<not> closed s c" by (force simp: closed_def list_all_iff)
      then show ?thesis by (simp add: recv_def split: list.split)
    qed (simp add: recv_def split: list.split)
  qed
qed

definition met_closed :: "'t task \<Rightarrow> bool" where
  "met_closed t \<longleftrightarrow> Some None \<in> snd ` set (in_polls (tk_env t)) \<or> None \<in> set (in_events (tk_env t))"

lemma met_closed_env: "tk_env t' = tk_env t \<Longrightarrow> met_closed t' = met_closed t"
  by (simp add: met_closed_def)

lemma met_closed_new [simp]: "\<not> met_closed (new_task rq a r c n ph)"
  by (simp add: met_closed_def new_task_def)

lemma met_closed_step:
  assumes "sys_ok s" and "sy_tasks s rid = Some t" and "task_step J H s t acts took t'"
  shows "met_closed t' = met_closed t"
proof -
  have own: "live (tk_phase t) \<Longrightarrow> recv s (in_chan (tk_env t)) \<noteq> Some None"
    using live_not_closed [OF assms(1), of rid] assms(2) by (simp add: owned_def)
  then have timed: "live (tk_phase t) \<Longrightarrow> timeout_recv s (in_chan (tk_env t)) due \<noteq> Some (Some None)" for due
    by (auto simp: timeout_recv_def split: option.split)
  from assms(3) show ?thesis
  proof cases
    case (poll_failed t0 early r status msg)
    with timed have "r \<noteq> Some None" by auto
    with poll_failed(3) show ?thesis by (auto simp: met_closed_def)
  next
    case (streamed st hs r cs)
    with own have "r \<noteq> None" by auto
    with streamed(3) show ?thesis by (auto simp: met_closed_def)
  next
    case (stream_ended st hs r cs)
    with own have "r \<noteq> None" by auto
    with stream_ended(3) show ?thesis by (auto simp: met_closed_def)
  qed (auto simp: met_closed_def)
qed

lemma met_closed_reachable:
  assumes "sys_reachable J H s" and "sy_tasks s rid = Some t"
  shows "\<not> met_closed t"
  using assms
proof (induction arbitrary: rid t rule: sys_reachable.induct)
  case (sys_next s l s')
  note ok = sys_ok_reachable [OF sys_next(1)]
  from sys_next(2) show ?case
  proof cases
    case (handler r u acts took u')
    have "met_closed (recorded u' acts) = met_closed u"
      using met_closed_step [OF ok handler(3,4)] met_closed_env [of "recorded u' acts" u'] by simp
    with handler sys_next(3,4) show ?thesis by (auto simp: after_task_sel split: if_splits)
  next
    case (client_leaves r u)
    have "met_closed (recorded (u\<lparr>tk_phase := Dropped\<rparr>) []) = met_closed u"
      by (rule met_closed_env) simp
    with client_leaves sys_next(3,4) show ?thesis by (auto simp: after_task_sel split: if_splits)
  qed (use sys_next(3,4) in \<open>auto split: if_splits\<close>)
qed (simp add: new_system_def)

section \<open>Sample systems\<close>

lemma reach_handler:
  "sys_reachable J H s \<Longrightarrow> sy_tasks s rid = Some t \<Longrightarrow> task_step J H s t acts took t' \<Longrightarrow>
   sys_reachable J H (after_task rid acts took t' s)"
  by (blast intro: sys_next handler)

text \<open>A request for a registered agent whose connection is open comes to its upload and to its wait.\<close>

lemma reach_upload:
  fixes J :: "'t json"
  assumes "json_ok J" and "sys_reachable J H s" and "get_agent (sy_app s) (rq_tunnel rq) = Some a"
    and "sy_open s (sender a)" and "fresh rid c s"
  obtains t s' where "sys_reachable J H s'" and "sy_tasks s' = (sy_tasks s)(rid \<mapsto> t)"
    and "tk_phase t = Upload 0" and "in_agent (tk_env t) = Some a" and "in_rid (tk_env t) = rid"
    and "in_chan (tk_env t) = c" and "in_timeout (tk_env t) = request_timeout_secs (sy_app s)"
    and "tk_request t = rq"
    and "s' = s\<lparr>sy_tasks := sy_tasks s', sy_app := add_inflight rid c (sy_app s), sy_rx := insert c (sy_rx s - {c})\<rparr>"
proof -
  let ?t0 = "new_task rq (Some a) rid c (request_timeout_secs (sy_app s)) SendStart :: 't task"
  let ?s0 = "s\<lparr>sy_tasks := (sy_tasks s)(rid \<mapsto> ?t0)\<rparr>"
  have s0: "sys_reachable J H ?s0" by (rule sys_next [OF assms(2) arrive [OF assms(3,5)]])
  obtain tx where tx: "send_control J (sy_open s) (sender a) (start_message H ?t0) = (Inr (), [ToAgent (sender a) (MText tx)])"
    using send_control_ok [OF assms(1), of "start_message H ?t0" "sy_open s" "sender a"] assms(4) by auto
  let ?a1 = "map Put [ToAgent (sender a) (MText tx)]"
  let ?u1 = "?t0\<lparr>tk_env := (tk_env ?t0)\<lparr>in_start_open := sy_open s (sender a)\<rparr>, tk_phase := Register\<rparr>"
  let ?s1 = "after_task rid ?a1 False ?u1 ?s0"
  have "task_step J H ?s0 ?t0 ?a1 False ?u1"
    using task_step.start_sent [of ?t0 a J ?s0 H] tx by (simp add: new_task_def)
  then have s1: "sys_reachable J H ?s1" by (rule reach_handler [OF s0, rotated]) simp
  let ?t1 = "recorded ?u1 ?a1"
  let ?a2 = "[Do (SAddInflight rid c)]"
  let ?u2 = "?t1\<lparr>tk_phase := Upload 0\<rparr>"
  let ?s2 = "after_task rid ?a2 False ?u2 ?s1"
  have "task_step J H ?s1 ?t1 ?a2 False ?u2"
    using task_step.registered_entry [of ?t1 J H ?s1] by (simp add: new_task_def)
  then have s2: "sys_reachable J H ?s2" by (rule reach_handler [OF s1, rotated]) (simp add: after_task_sel)
  show thesis
    by (rule that [OF s2, of "recorded ?u2 ?a2"])
       (simp_all add: after_task_def new_task_def Let_def skip_def fst_andthen)
qed

lemma reach_wait:
  fixes J :: "'t json"
  assumes "json_ok J" and "sys_reachable J H s" and "get_agent (sy_app s) (rq_tunnel rq) = Some a"
    and "sy_open s (sender a)" and "fresh rid c s"
  obtains t s' where "sys_reachable J H s'" and "sy_tasks s' = (sy_tasks s)(rid \<mapsto> t)"
    and "tk_phase t = Top []" and "in_agent (tk_env t) = Some a" and "in_rid (tk_env t) = rid"
    and "in_chan (tk_env t) = c" and "in_timeout (tk_env t) = request_timeout_secs (sy_app s)"
    and "tk_request t = rq" and "tk_started t = sy_now s"
    and "s' = s\<lparr>sy_tasks := sy_tasks s', sy_app := add_inflight rid c (sy_app s), sy_rx := insert c (sy_rx s - {c})\<rparr>"
proof (rule reach_upload [OF assms])
  fix t and s1 :: "'t system"
  assume r: "sys_reachable J H s1" and ts: "sy_tasks s1 = (sy_tasks s)(rid \<mapsto> t)" and ph: "tk_phase t = Upload 0"
    and t: "in_agent (tk_env t) = Some a" "in_rid (tk_env t) = rid" "in_chan (tk_env t) = c"
      "in_timeout (tk_env t) = request_timeout_secs (sy_app s)" "tk_request t = rq"
    and s1: "s1 = s\<lparr>sy_tasks := sy_tasks s1, sy_app := add_inflight rid c (sy_app s), sy_rx := insert c (sy_rx s - {c})\<rparr>"
  have op: "sy_open s1 (sender a)" and now: "sy_now s1 = sy_now s" and tt: "sy_tasks s1 rid = Some t"
    using assms(4) ts by (subst s1, simp, subst s1, simp, simp)
  let ?u2 = "t\<lparr>tk_phase := SendEnd\<rparr>"
  let ?s2 = "after_task rid [] False ?u2 s1"
  have s2: "sys_reachable J H ?s2"
    by (rule sys_next [OF r handler [OF tt]]) (rule task_step.upload_done [OF ph])
  obtain tx where tx: "send_control J (sy_open ?s2) (sender a) (HttpRequestEnd rid) = (Inr (), [ToAgent (sender a) (MText tx)])"
    using send_control_ok [OF assms(1), of "HttpRequestEnd rid" "sy_open ?s2" "sender a"] op
    by (auto simp: after_task_sel)
  let ?t2 = "recorded ?u2 []"
  let ?a3 = "map Put [ToAgent (sender a) (MText tx)]"
  let ?u3 = "?t2\<lparr>tk_env := (tk_env ?t2)\<lparr>in_end_open := sy_open ?s2 (sender a)\<rparr>, tk_started := sy_now ?s2, tk_phase := Top []\<rparr>"
  let ?s3 = "after_task rid ?a3 False ?u3 ?s2"
  have "task_step J H ?s2 ?t2 ?a3 False ?u3"
    using task_step.end_sent [where t = ?t2 and a = a and J = J and s = ?s2 and H = H] tx t by simp
  then have s3: "sys_reachable J H ?s3" by (rule reach_handler [OF s2, rotated]) (simp add: after_task_sel)
  show thesis
    by (rule that [OF s3, of "recorded ?u3 ?a3"])
       (simp_all add: t now after_task_sel ts, subst s1, simp add: after_task_def Let_def t skip_def ts)
qed

text \<open>A system with one agent and no request yet.\<close>

definition sample_system :: "control_message system" where
  "sample_system = (new_system {''tok''} 30)\<lparr>sy_app :=
     fst ((exec_op (\<lambda>_. True) (SInsertAgent ''demo'' sample_agent) :: control_message relay_act) (new_state {''tok''} 30))\<rparr>"

lemma sample_system_reachable: "sys_reachable plain_json plain_http sample_system"
proof -
  have "sys_step plain_json plain_http (new_system {''tok''} 30) (LAgent (connection_id sample_agent)) sample_system"
    using session_acts [of "new_system {''tok''} 30" "connection_id sample_agent" "SInsertAgent ''demo'' sample_agent"
        plain_json plain_http "\<lambda>_. True"]
    by (simp add: sample_system_def new_system_def)
  with sys_init show ?thesis by (rule sys_next)
qed

lemma sample_system_agent:
  "get_agent (sy_app sample_system) (rq_tunnel sample_request) = Some sample_agent"
  "sy_open sample_system (sender sample_agent)" "fresh rid c sample_system"
  "request_timeout_secs (sy_app sample_system) = 30" "sy_now sample_system = 0"
  "sy_tasks sample_system = Map.empty" "sy_sending sample_system = []" "sy_queue sample_system = (\<lambda>_. [])"
  by (simp_all add: sample_system_def new_system_def new_state_def get_agent_def sample_request_def
      insert_agent_if_absent_def table_simps fresh_def)

lemma sample_wait:
  obtains t s' where "sys_reachable plain_json plain_http s'" and "sy_tasks s' = [7 \<mapsto> t]"
    and "tk_phase t = Top []" and "in_chan (tk_env t) = 30" and "deadline t = 30000000000"
    and "tk_request t = sample_request" and "tk_started t = 0" and "sy_now s' = 0"
    and "tbl_get (inflight (sy_app s')) 7 = Some 30" and "sy_queue s' = (\<lambda>_. [])" and "sy_sending s' = []"
    and "30 \<in> sy_rx s'"
proof (rule reach_wait [OF plain_json_ok sample_system_reachable sample_system_agent(1-3), of 7 30])
  fix t and s' :: "control_message system"
  assume r: "sys_reachable plain_json plain_http s'" and ts: "sy_tasks s' = (sy_tasks sample_system)(7 \<mapsto> t)"
    and t: "tk_phase t = Top []" "in_chan (tk_env t) = 30" "tk_request t = sample_request"
      "tk_started t = sy_now sample_system" "in_timeout (tk_env t) = request_timeout_secs (sy_app sample_system)"
    and s': "s' = sample_system\<lparr>sy_tasks := sy_tasks s', sy_app := add_inflight 7 30 (sy_app sample_system),
      sy_rx := insert 30 (sy_rx sample_system - {30})\<rparr>"
  have "sy_now s' = 0" "tbl_get (inflight (sy_app s')) 7 = Some 30" "sy_queue s' = (\<lambda>_. [])" "sy_sending s' = []"
    "30 \<in> sy_rx s'"
    by (subst s', simp add: sample_system_agent infl.get_put)+
  with r ts t show thesis
    by (intro that [of s' t]) (simp_all add: sample_system_agent nanos_def)
qed

section \<open>Properties of every reachable system\<close>

text \<open>
  C7: every reachable system is well formed, whatever requests, agents, clients and the clock do. The
  shared state is one its operations reach, each entry of the table belongs to a handler that is
  live or was dropped by its client, each sending session and each receiver to a registered or live
  handler, no channel holds more than 128 events, and every live handler has its entry in the table
  or a terminal event on its way to it.
\<close>

theorem system_well_formed:
  assumes "sys_reachable J H s"
  shows "sys_ok s \<and> reachable (sy_app s)"
  using sys_ok_reachable [OF assms] app_reachable [OF assms] by blast

theorem system_well_formed_witness:
  "sys_ok sample_system \<and> reachable (sy_app sample_system)"
  by (rule system_well_formed [OF sample_system_reachable])

text \<open>
  C6: the interleaved handler refines the handler function. In every reachable system a handler that
  has finished has done and sent exactly what \<open>handle_ingress\<close> says for what the handler met, and
  has given its response; so every statement about \<open>handle_ingress\<close> holds of every request, however
  its steps interleave with the others.
\<close>

theorem handler_refines:
  assumes "sys_reachable J H s" and "sy_tasks s rid = Some t" and "tk_phase t = Finished rsp"
  shows "handle_ingress J H (tk_request t) (tk_env t) = (tk_trace t, Some rsp) \<and> in_rid (tk_env t) = rid"
proof
  show "handle_ingress J H (tk_request t) (tk_env t) = (tk_trace t, Some rsp)"
    using tasks_ok_reachable [OF assms(1,2)] assms(3) by (simp add: task_ok_def)
  show "in_rid (tk_env t) = rid" by (rule sys_okD(3) [OF sys_ok_reachable [OF assms(1)] assms(2)])
qed

theorem handler_refines_witness:
  "\<exists>s t. sys_reachable plain_json plain_http s \<and> sy_tasks s 7 = Some t \<and>
     tk_phase t = Finished (simple_response 504 ''agent response timeout'') \<and>
     handle_ingress plain_json plain_http sample_request (tk_env t)
       = (tk_trace t, Some (simple_response 504 ''agent response timeout''))"
proof (rule sample_wait)
  fix t and s' :: "control_message system"
  assume r: "sys_reachable plain_json plain_http s'" and ts: "sy_tasks s' = [7 \<mapsto> t]"
    and ph: "tk_phase t = Top []" and rq: "tk_request t = sample_request"
    and dl: "deadline t = 30000000000" and st: "tk_started t = 0" and now: "sy_now s' = 0"
  let ?s1 = "s'\<lparr>sy_now := sy_now s' + 30000000000\<rparr>"
  have r1: "sys_reachable plain_json plain_http ?s1" by (rule sys_next [OF r tick])
  let ?u = "t\<lparr>tk_env := (tk_env t)\<lparr>in_polls := in_polls (tk_env t) @ [(elapsed ?s1 t, None)]\<rparr>,
      tk_phase := Finished (simple_response 504 ''agent response timeout'')\<rparr>"
  let ?a = "[Do (SRemoveInflight (in_rid (tk_env t)))]"
  have "deadline t - elapsed ?s1 t = 0" using dl st now by (simp add: elapsed_def)
  from task_step.round_late [OF ph this]
  have r2: "sys_reachable plain_json plain_http (after_task 7 ?a False ?u ?s1)"
    by (rule reach_handler [OF r1, rotated]) (simp add: ts)
  obtain s2 and t2 :: "control_message task" where s2: "sys_reachable plain_json plain_http s2"
    "sy_tasks s2 7 = Some t2" "tk_phase t2 = Finished (simple_response 504 ''agent response timeout'')"
    and req: "tk_request t2 = sample_request"
    by (rule that [OF r2, of "recorded ?u ?a"]) (simp_all add: after_task_sel rq)
  from handler_refines [OF s2] s2 req show ?thesis by auto
qed

text \<open>
  C14: no request ever sees its response channel closed. In every reachable system no handler has read
  \<open>None\<close> from its channel, neither while it waited for the start nor while it streamed the body: the
  table's sender goes only when a terminal event is sent, so the answer \<open>agent closed response
  stream\<close> is never given and a response is never ended that way.
\<close>

theorem response_channel_never_closed:
  assumes "sys_reachable J H s" and "sy_tasks s rid = Some t"
  shows "Some None \<notin> snd ` set (in_polls (tk_env t)) \<and> None \<notin> set (in_events (tk_env t))"
  using met_closed_reachable [OF assms] by (simp add: met_closed_def)

theorem response_channel_never_closed_witness:
  "\<exists>s t. sys_reachable plain_json plain_http s \<and> sy_tasks s 7 = Some t \<and> tk_phase t = Top [] \<and>
     Some None \<notin> snd ` set (in_polls (tk_env t))"
proof (rule sample_wait)
  fix t and s' :: "control_message system"
  assume r: "sys_reachable plain_json plain_http s'" and ts: "sy_tasks s' = [7 \<mapsto> t]" and ph: "tk_phase t = Top []"
  have "sy_tasks s' 7 = Some t" by (simp add: ts)
  from response_channel_never_closed [OF r this] r ph ts show ?thesis by auto
qed

subsection \<open>A client that leaves\<close>

lemma dropped_no_step: "tk_phase t = Dropped \<Longrightarrow> \<not> task_step J H s t acts took t'"
  by (auto elim: task_stepE)

text \<open>
  The steps that are not an answer for a request: all but those of a session that comes to send an
  event for it, or has been sending one.
\<close>

definition sends_for :: "'t system \<Rightarrow> uuid \<Rightarrow> uuid \<Rightarrow> bool" where
  "sends_for s conn rid \<longleftrightarrow> map_option fst (tbl_get (sy_sending s) conn) = Some rid"

definition step_without_answers :: "'t json \<Rightarrow> http_lib \<Rightarrow> uuid \<Rightarrow> 't system \<Rightarrow> 't system \<Rightarrow> bool" where
  "step_without_answers J H rid s s' \<longleftrightarrow>
     (\<exists>l. sys_step J H s l s' \<and> (\<forall>conn. l = LAgent conn \<longrightarrow> \<not> sends_for s conn rid \<and> \<not> sends_for s' conn rid))"

lemma handler_other_entry:
  assumes "sys_ok s" and "sy_tasks s r = Some u" and "task_step J H s u acts took u'" and "r \<noteq> rid"
  shows "tbl_get (inflight (sy_app (after_task r acts took u' s))) rid = tbl_get (inflight (sy_app s)) rid"
  using assms(3)
  by (cases rule: task_effect)
     (use assms(4) sys_okD(3) [OF assms(1,2)] in
       \<open>simp_all add: after_task_sel skip_def fst_andthen infl.get_put infl.get_del\<close>)

text \<open>A session's step that is no answer for a request leaves its entry and its channel alone.\<close>

lemma foreign_answer:
  assumes "sys_ok s" and "sys_step J H s (LAgent conn) s'" and "\<not> sends_for s conn rid" and "\<not> sends_for s' conn rid"
  shows "tbl_get (inflight (sy_app s')) rid = tbl_get (inflight (sy_app s)) rid" and "sy_tasks s' = sy_tasks s"
    and "owned s rid c P \<Longrightarrow> sy_queue s' c = sy_queue s c"
proof -
  show "tbl_get (inflight (sy_app s')) rid = tbl_get (inflight (sy_app s)) rid"
    using assms(2)
    by cases (use assms(1,3,4) in \<open>auto simp: sends_for_def infl.get_del table_simps
        session_op_inflight [OF _ sys_okD(1) [OF assms(1)]]\<close>)
  show "sy_tasks s' = sy_tasks s" using assms(2) by cases simp_all
  show "sy_queue s' c = sy_queue s c" if "owned s rid c P"
    using assms(2)
  proof cases
    case (answer_sent r d ev)
    then have "owned s r d registered_phase" and "r \<noteq> rid"
      using sys_okD(6) [OF assms(1)] assms(3) by (auto simp: sends_for_def)
    with that sys_ok_owner [OF assms(1)] have "d \<noteq> c" by blast
    with answer_sent show ?thesis by simp
  qed simp_all
qed

lemma dropped_entry_step:
  assumes "sys_ok s" and "sy_tasks s rid = Some t" and "tk_phase t = Dropped"
    and "tbl_get (inflight (sy_app s)) rid = Some c" and "step_without_answers J H rid s s'"
  shows "sy_tasks s' rid = Some t \<and> tbl_get (inflight (sy_app s')) rid = Some c"
proof -
  from assms(5) obtain l where l: "\<forall>conn. l = LAgent conn \<longrightarrow> \<not> sends_for s conn rid \<and> \<not> sends_for s' conn rid"
    "sys_step J H s l s'" by (auto simp: step_without_answers_def)
  show ?thesis
  proof (cases l)
    case (LAgent conn)
    with foreign_answer(1,2) [OF assms(1), of J H conn s' rid] l assms(2,4) show ?thesis by simp
  next
    case LOther
    with l(2) show ?thesis
      using assms(2,4) by cases (auto simp: tunnel_op_inflight [OF _ sys_okD(1) [OF assms(1)]])
  next
    case (LTask r)
    from l(2) [unfolded LTask] show ?thesis
    proof cases
      case (handler u acts took u')
      with assms(2,3) dropped_no_step have "r \<noteq> rid" by (metis option.inject)
      with handler assms(2,4) handler_other_entry [OF assms(1) handler(2,3)] show ?thesis
        by (simp add: after_task_sel)
    qed
  next
    case (LClient r)
    from l(2) [unfolded LClient] show ?thesis
    proof cases
      case (client_leaves u)
      with assms(2,3) have "r \<noteq> rid" by auto
      with client_leaves assms(2,4) show ?thesis by (simp add: after_task_sel skip_def)
    qed (use assms(2,4) in \<open>auto simp: fresh_def\<close>)
  next
    case LTick
    with l(2) show ?thesis using assms(2,4) by cases auto
  qed
qed

lemma dropped_entry_run:
  assumes "sys_reachable J H s" and "sy_tasks s rid = Some t" and "tk_phase t = Dropped"
    and "tbl_get (inflight (sy_app s)) rid = Some c" and "(step_without_answers J H rid)\<^sup>*\<^sup>* s s'"
  shows "sys_reachable J H s' \<and> sy_tasks s' rid = Some t \<and> tbl_get (inflight (sy_app s')) rid = Some c"
  using assms(5)
proof (induction rule: rtranclp_induct)
  case (step s1 s2)
  then have "sys_ok s1" using sys_ok_reachable by blast
  with step dropped_entry_step [OF this _ assms(3)] show ?case
    by (auto simp: step_without_answers_def intro: sys_next)
qed (use assms(1,2,4) in simp)

text \<open>An answer for a request whose handler was dropped takes its entry out: the receiver is gone.\<close>

lemma answer_removes_dropped:
  assumes "sys_ok s" and "sy_tasks s rid = Some t" and "tk_phase t = Dropped"
    and "tbl_get (inflight (sy_app s)) rid = Some c" and "tbl_get (sy_sending s) conn = None"
    and "event_of op = Some (rid, ev)"
  shows "\<exists>s1 s2. sys_step J H s (LAgent conn) s1 \<and> sends_for s1 conn rid \<and> sys_step J H s1 (LAgent conn) s2 \<and>
    tbl_get (inflight (sy_app s2)) rid = None \<and> (\<forall>s3. sys_step J H s1 (LAgent conn) s3 \<longrightarrow> s3 = s2)"
proof -
  let ?s1 = "s\<lparr>sy_app := (if terminal ev then remove_inflight rid (sy_app s) else sy_app s),
     sy_sending := tbl_insert conn (rid, c, ev) (sy_sending s)\<rparr>"
  let ?s2 = "?s1\<lparr>sy_app := (if terminal ev then sy_app ?s1 else remove_inflight rid (sy_app ?s1)),
     sy_sending := tbl_remove conn (sy_sending ?s1)\<rparr>"
  have "owned s rid c holds_entry" by (rule sys_okD(5) [OF assms(1,4)])
  then have rx: "c \<notin> sy_rx s"
    using sys_okD(7) [OF assms(1), of c] sys_ok_owner [OF assms(1), of _ c live rid holds_entry] assms(2,3)
    by (force simp: owned_def)
  have first: "sys_step J H s (LAgent conn) ?s1" by (rule answer_found [OF assms(5,6,4)])
  have sending: "tbl_get (sy_sending ?s1) conn = Some (rid, c, ev)" by (simp add: table_simps)
  have second: "sys_step J H ?s1 (LAgent conn) ?s2" by (rule answer_lost [OF sending]) (simp add: rx)
  have only: "s3 = ?s2" if "sys_step J H ?s1 (LAgent conn) s3" for s3
    using that by cases (use sending rx in auto)
  have gone: "tbl_get (inflight (sy_app ?s2)) rid = None" by (simp add: infl.get_del)
  have "sends_for ?s1 conn rid" using sending by (simp add: sends_for_def)
  with first second gone only show ?thesis by blast
qed

text \<open>
  C21: a client that leaves strands its entry. When the handler's future has been dropped while its
  request is in the table, the entry stays as long as no session comes to send an event for this very
  request: no step of the relay, of other requests, of time, nor an answer for another request or
  any other operation of a session removes it, not even the clean-up after the agent's disconnection. And
  one more event for it, by any session that is not busy sending, does remove it.
\<close>

theorem dropped_entry_stays:
  assumes "sys_reachable J H s" and "sy_tasks s rid = Some t" and "tk_phase t = Dropped"
    and "tbl_get (inflight (sy_app s)) rid = Some c" and "(step_without_answers J H rid)\<^sup>*\<^sup>* s s'"
  shows "tbl_get (inflight (sy_app s')) rid = Some c \<and>
    (\<forall>conn op ev. tbl_get (sy_sending s') conn = None \<longrightarrow> event_of op = Some (rid, ev) \<longrightarrow>
      (\<exists>s1 s2. sys_step J H s' (LAgent conn) s1 \<and> sends_for s1 conn rid \<and> sys_step J H s1 (LAgent conn) s2 \<and>
        tbl_get (inflight (sy_app s2)) rid = None \<and> (\<forall>s3. sys_step J H s1 (LAgent conn) s3 \<longrightarrow> s3 = s2)))"
proof -
  from dropped_entry_run [OF assms] have s': "sys_ok s'" "sy_tasks s' rid = Some t"
    "tbl_get (inflight (sy_app s')) rid = Some c" using sys_ok_reachable by blast+
  from s'(3) show ?thesis using answer_removes_dropped [OF s'(1,2) assms(3) s'(3)] by blast
qed

theorem dropped_entry_stays_witness:
  "\<exists>s s' t. sys_reachable plain_json plain_http s \<and> sy_tasks s 7 = Some t \<and> tk_phase t = Dropped \<and>
     step_without_answers plain_json plain_http 7 s s' \<and> get_agent (sy_app s') ''demo'' = None \<and>
     tbl_get (inflight (sy_app s')) 7 = Some 30"
proof (rule sample_wait)
  fix t and s' :: "control_message system"
  assume r: "sys_reachable plain_json plain_http s'" and ts: "sy_tasks s' = [7 \<mapsto> t]" and ph: "tk_phase t = Top []"
    and dl: "deadline t = 30000000000" and st: "tk_started t = 0" and now: "sy_now s' = 0"
    and entry: "tbl_get (inflight (sy_app s')) 7 = Some 30" and sd: "sy_sending s' = []"
  let ?u1 = "t\<lparr>tk_phase := Recv (elapsed s' t) []\<rparr>"
  let ?s1 = "after_task 7 [] False ?u1 s'"
  have "deadline t - elapsed s' t \<noteq> 0" using dl st now by (simp add: elapsed_def)
  from task_step.round_waits [OF ph this]
  have r1: "sys_reachable plain_json plain_http ?s1" by (rule reach_handler [OF r, rotated]) (simp add: ts)
  let ?s2 = "after_task 7 [] False ((recorded ?u1 [])\<lparr>tk_phase := Dropped\<rparr>) ?s1"
  have r2: "sys_reachable plain_json plain_http ?s2"
    by (rule sys_next [OF r1 client_leaves]) (simp_all add: after_task_sel)
  obtain s2 and t2 :: "control_message task" where s2: "sys_reachable plain_json plain_http s2"
    "sy_tasks s2 7 = Some t2" "tk_phase t2 = Dropped" "tbl_get (inflight (sy_app s2)) 7 = Some 30" "sy_sending s2 = []"
    by (rule that [OF r2, of "recorded ((recorded ?u1 [])\<lparr>tk_phase := Dropped\<rparr>) []"])
       (simp_all add: after_task_sel skip_def entry sd)
  define cid where "cid = (case get_agent (sy_app s2) ''demo'' of Some a \<Rightarrow> connection_id a | None \<Rightarrow> 0)"
  define s3 where "s3 = s2\<lparr>sy_app := fst ((exec_op (\<lambda>_. True) (SRemoveAgentIf ''demo'' cid)
    :: control_message relay_act) (sy_app s2))\<rparr>"
  have "sys_step plain_json plain_http s2 (LAgent cid) s3"
    unfolding s3_def by (rule session_acts) (simp_all add: s2(5))
  then have step: "step_without_answers plain_json plain_http 7 s2 s3"
    by (auto simp: step_without_answers_def sends_for_def s3_def s2(5) intro!: exI [of _ "LAgent cid"])
  have "state_ok (sy_app s2)" by (rule sys_okD(1) [OF sys_ok_reachable [OF s2(1)]])
  then have "get_agent (sy_app s3) ''demo'' = None"
    by (auto simp: s3_def cid_def remove_agent_if_eq get_agent_def table_simps split: option.split)
  moreover have "(step_without_answers plain_json plain_http 7)\<^sup>*\<^sup>* s2 s3" using step by blast
  from dropped_entry_stays [OF s2(1-4) this] have "tbl_get (inflight (sy_app s3)) 7 = Some 30" ..
  ultimately show ?thesis using s2 step by blast
qed

subsection \<open>Answers of an agent\<close>

lemma tbl_remove_insert_new: "tbl_get t k = None \<Longrightarrow> tbl_remove k (tbl_insert k v t) = t"
proof -
  assume "tbl_get t k = None"
  then have "k \<notin> fst ` set t" by (simp add: tbl_get_def map_of_eq_None_iff)
  then show ?thesis
    by (induction t) (auto simp: tbl_remove_def tbl_insert_def AList.delete_eq)
qed

text \<open>
  An answer that is not interrupted is one notification. When an agent session looks up the
  sender and the channel has room, the two steps together put on the channel what the operation of
  \<open>AppState\<close> sends and leave the shared state as the operation does; likewise when the receiver is
  gone. So the atomic operations are the runs of the system in which no session has to wait.
\<close>

lemma answer_is_notification:
  fixes s :: "'t system"
  assumes "tbl_get (sy_sending s) conn = None" and "event_of op = Some (rid, ev)"
    and "tbl_get (inflight (sy_app s)) rid = Some c"
    and "c \<in> sy_rx s \<Longrightarrow> length (sy_queue s c) < CHANNEL_CAPACITY"
    and "exec_op (\<lambda>c. c \<in> sy_rx s) op (sy_app s) = (a, out :: 't relay_out list)"
  shows "\<exists>s1. sys_step J H s (LAgent conn) s1 \<and>
    sys_step J H s1 (LAgent conn)
      (s\<lparr>sy_app := a, sy_queue := (sy_queue s)(c := sy_queue s c @ events_to c out)\<rparr>)"
proof -
  let ?app = "if terminal ev then remove_inflight rid (sy_app s) else sy_app s"
  let ?s1 = "s\<lparr>sy_app := ?app, sy_sending := tbl_insert conn (rid, c, ev) (sy_sending s)\<rparr>"
  have first: "sys_step J H s (LAgent conn) ?s1" by (rule answer_found [OF assms(1-3)])
  have sending: "tbl_get (sy_sending ?s1) conn = Some (rid, c, ev)" by (simp add: table_simps)
  have restored: "tbl_remove conn (sy_sending ?s1) = sy_sending s"
    by (simp add: tbl_remove_insert_new [OF assms(1)])
  show ?thesis
  proof (cases "c \<in> sy_rx s")
    case True
    have "a = ?app" and "events_to c out = [ev]"
      using assms(2,3,5) True
      by (cases op; auto simp: notify_start_eq notify_body_eq notify_end_eq notify_error_eq terminal_def)+
    then have "s\<lparr>sy_app := a, sy_queue := (sy_queue s)(c := sy_queue s c @ events_to c out)\<rparr> =
        ?s1\<lparr>sy_queue := (sy_queue ?s1)(c := sy_queue ?s1 c @ [ev]), sy_sending := tbl_remove conn (sy_sending ?s1)\<rparr>"
      unfolding restored by simp
    with first answer_sent [OF sending, of J H] True assms(4) show ?thesis by (intro exI [of _ ?s1]) simp
  next
    case False
    have "a = (if terminal ev then ?app else remove_inflight rid ?app)" and "events_to c out = []"
      using assms(2,3,5) False
      by (cases op; auto simp: notify_start_eq notify_body_eq notify_end_eq notify_error_eq terminal_def)+
    then have "s\<lparr>sy_app := a, sy_queue := (sy_queue s)(c := sy_queue s c @ events_to c out)\<rparr> =
        ?s1\<lparr>sy_app := (if terminal ev then sy_app ?s1 else remove_inflight rid (sy_app ?s1)),
          sy_sending := tbl_remove conn (sy_sending ?s1)\<rparr>"
      unfolding restored by simp
    with first answer_lost [OF sending, of J H] False show ?thesis by (intro exI [of _ ?s1]) simp
  qed
qed

text \<open>Answers one after the other fill a channel nobody reads.\<close>

lemma reach_filled:
  fixes J :: "'t json"
  assumes "sys_reachable J H s" and "tbl_get (sy_sending s) conn = None"
    and "tbl_get (inflight (sy_app s)) rid = Some c" and "c \<in> sy_rx s" and "sy_queue s c = []"
    and "n \<le> CHANNEL_CAPACITY"
  shows "sys_reachable J H (s\<lparr>sy_queue := (sy_queue s)(c := replicate n (EvBody b))\<rparr>)"
  using assms(6)
proof (induction n)
  case (Suc n)
  let ?s = "s\<lparr>sy_queue := (sy_queue s)(c := replicate n (EvBody b))\<rparr>"
  have "exec_op (\<lambda>c. c \<in> sy_rx ?s) (SNotifyBody rid b) (sy_app ?s)
      = (sy_app s, [ToRequest c (EvBody b)] :: 't relay_out list)"
    using assms(3,4) by (simp add: notify_body_eq)
  from answer_is_notification [OF _ _ _ _ this, of conn rid "EvBody b" c J H] Suc.prems assms(2,3)
  obtain s1 where "sys_step J H ?s (LAgent conn) s1" and
    "sys_step J H s1 (LAgent conn) (?s\<lparr>sy_app := sy_app s,
       sy_queue := (sy_queue ?s)(c := sy_queue ?s c @ events_to c [ToRequest c (EvBody b) :: 't relay_out])\<rparr>)"
    by auto
  moreover have "sys_reachable J H ?s" by (rule Suc.IH) (use Suc.prems in simp)
  moreover have "?s\<lparr>sy_app := sy_app s,
       sy_queue := (sy_queue ?s)(c := sy_queue ?s c @ events_to c [ToRequest c (EvBody b) :: 't relay_out])\<rparr>
      = s\<lparr>sy_queue := (sy_queue s)(c := replicate (Suc n) (EvBody b))\<rparr>"
    by (cases s) (simp add: replicate_append_same)
  ultimately show ?case by (metis sys_next)
next
  case 0
  have "s\<lparr>sy_queue := (sy_queue s)(c := [])\<rparr> = s" using assms(5) by (cases s) auto
  with assms(1) show ?case by (simp only: replicate_0)
qed

lemma answer_is_notification_witness:
  "\<exists>s s1. sys_reachable plain_json plain_http s \<and> sys_step plain_json plain_http s (LAgent 1) s1 \<and>
     sys_step plain_json plain_http s1 (LAgent 1)
       (s\<lparr>sy_app := remove_inflight 7 (sy_app s), sy_queue := (sy_queue s)(30 := [EvEnd])\<rparr>)"
proof (rule sample_wait)
  fix t and s' :: "control_message system"
  assume r: "sys_reachable plain_json plain_http s'" and en: "tbl_get (inflight (sy_app s')) 7 = Some 30"
    and q: "sy_queue s' = (\<lambda>_. [])" and sd: "sy_sending s' = []" and rx: "30 \<in> sy_rx s'"
  have ex: "exec_op (\<lambda>c. c \<in> sy_rx s') (SNotifyEnd 7) (sy_app s') =
      (remove_inflight 7 (sy_app s'), [ToRequest 30 EvEnd] :: control_message relay_out list)"
    using en rx by (simp add: notify_end_eq)
  have "\<exists>s1. sys_step plain_json plain_http s' (LAgent 1) s1 \<and>
    sys_step plain_json plain_http s1 (LAgent 1) (s'\<lparr>sy_app := remove_inflight 7 (sy_app s'), sy_queue := (sy_queue s')
      (30 := sy_queue s' 30 @ events_to 30 [ToRequest 30 EvEnd :: control_message relay_out])\<rparr>)"
    by (rule answer_is_notification [OF _ _ en _ ex]) (simp_all add: sd q CHANNEL_CAPACITY_def)
  moreover have "sy_queue s' 30 @ events_to 30 [ToRequest 30 EvEnd :: control_message relay_out] = [EvEnd]"
    by (simp add: q)
  ultimately show ?thesis using r by metis
qed

subsection \<open>A client that does not read\<close>

definition session_blocked :: "'t system \<Rightarrow> uuid \<Rightarrow> uuid \<Rightarrow> chan \<Rightarrow> relay_event \<Rightarrow> bool" where
  "session_blocked s conn rid c ev \<longleftrightarrow>
     tbl_get (sy_sending s) conn = Some (rid, c, ev) \<and> c \<in> sy_rx s \<and> length (sy_queue s c) = CHANNEL_CAPACITY"

lemma other_chan:
  assumes "sys_ok s" and "owned s rid c P" and "sy_tasks s r = Some u" and "r \<noteq> rid"
  shows "in_chan (tk_env u) \<noteq> c"
proof
  assume "in_chan (tk_env u) = c"
  with assms(3) have "owned s r c (\<lambda>_. True)" by (simp add: owned_def)
  with assms sys_ok_owner show False by blast
qed

text \<open>
  C20: while a session waits to put an event on a full response channel, it takes no step: it answers
  no other request, hands on no WebSocket frame, acknowledgement or close, neither registers nor
  cleans up an agent. And no step of another request, another session, another client, a tunnel or
  time ends that: only a step of this one request or its client does.
\<close>

theorem slow_client_blocks_session:
  assumes "sys_reachable J H s" and "session_blocked s conn rid c ev" and "sys_step J H s l s'"
  shows "l \<noteq> LAgent conn \<and> (l = LTask rid \<or> l = LClient rid \<or> session_blocked s' conn rid c ev)"
proof -
  note ok = sys_ok_reachable [OF assms(1)]
  from assms(2) have b: "tbl_get (sy_sending s) conn = Some (rid, c, ev)" "c \<in> sy_rx s"
    "length (sy_queue s c) = CHANNEL_CAPACITY" by (simp_all add: session_blocked_def)
  have own: "owned s rid c registered_phase" by (rule sys_okD(6) [OF ok b(1)])
  from assms(3) show ?thesis
  proof cases
    case (handler r u acts took u')
    show ?thesis
    proof (cases "r = rid")
      case False
      have "in_chan (tk_env u') \<noteq> c"
        using other_chan [OF ok own handler(3) False] task_keeps(2) [OF handler(4)] by simp
      with handler b show ?thesis by (auto simp: session_blocked_def after_task_sel)
    qed (simp add: handler)
  next
    case (client_leaves r u)
    show ?thesis
    proof (cases "r = rid")
      case False
      with client_leaves b other_chan [OF ok own client_leaves(3) False] show ?thesis
        by (auto simp: session_blocked_def after_task_sel)
    qed (simp add: client_leaves)
  next
    case (answer_sent conn' r d e)
    with b show ?thesis by (auto simp: session_blocked_def table_simps)
  next
    case (answer_lost conn' r d e)
    with b show ?thesis by (auto simp: session_blocked_def table_simps)
  next
    case (answer_found conn' op r e d)
    with b show ?thesis by (auto simp: session_blocked_def table_simps)
  qed (use b in \<open>auto simp: session_blocked_def\<close>)
qed

theorem slow_client_blocks_session_witness:
  "\<exists>s. sys_reachable plain_json plain_http s \<and> session_blocked s 1 7 30 EvEnd \<and>
     (\<forall>s'. \<not> sys_step plain_json plain_http s (LAgent 1) s')"
proof (rule sample_wait)
  fix t and s' :: "control_message system"
  assume r: "sys_reachable plain_json plain_http s'" and en: "tbl_get (inflight (sy_app s')) 7 = Some 30"
    and q: "sy_queue s' = (\<lambda>_. [])" and sd: "sy_sending s' = []" and rx: "30 \<in> sy_rx s'"
  let ?s = "s'\<lparr>sy_queue := (sy_queue s')(30 := replicate CHANNEL_CAPACITY (EvBody [1]))\<rparr>"
  have f: "sys_reachable plain_json plain_http ?s"
    by (rule reach_filled [OF r _ en rx, of 1]) (simp_all add: sd q)
  let ?s2 = "?s\<lparr>sy_app := (if terminal EvEnd then remove_inflight 7 (sy_app ?s) else sy_app ?s),
      sy_sending := tbl_insert 1 (7, 30, EvEnd) (sy_sending ?s)\<rparr>"
  have "sys_step plain_json plain_http ?s (LAgent 1) ?s2"
    by (rule answer_found [of _ _ "SNotifyEnd 7"]) (simp_all add: sd en)
  then have s2: "sys_reachable plain_json plain_http ?s2" by (rule sys_next [OF f])
  have bl: "session_blocked ?s2 1 7 30 EvEnd" by (simp add: session_blocked_def table_simps rx)
  have "\<not> sys_step plain_json plain_http ?s2 (LAgent 1) s3" for s3
    using slow_client_blocks_session [OF s2 bl, of "LAgent 1" s3] by blast
  with s2 bl show ?thesis by blast
qed

end
