(* ===== verification/Relay_System_Fair.thy ===== *)
theory Relay_System_Fair
  imports Relay_System_Table
begin

text \<open>
  Progress of the concurrent system of \<open>Relay_System\<close>: in an infinite run with a fair scheduler and
  a clock that advances, no handler stays where only the relay has to act, and the wait for a
  response always ends; a response stream whose agent is silent does not.
\<close>

section \<open>Fair runs\<close>

definition sys_run :: "'t json \<Rightarrow> http_lib \<Rightarrow> (nat \<Rightarrow> 't system) \<Rightarrow> (nat \<Rightarrow> label) \<Rightarrow> bool" where
  "sys_run J H \<sigma> ls \<longleftrightarrow> sys_reachable J H (\<sigma> 0) \<and> (\<forall>i. sys_step J H (\<sigma> i) (ls i) (\<sigma> (Suc i)))"

definition handler_ready :: "'t json \<Rightarrow> http_lib \<Rightarrow> 't system \<Rightarrow> uuid \<Rightarrow> bool" where
  "handler_ready J H s rid \<longleftrightarrow> (\<exists>s'. sys_step J H s (LTask rid) s')"

text \<open>A task that is ready from some point on is run; the clock passes every time.\<close>

definition fair_run :: "'t json \<Rightarrow> http_lib \<Rightarrow> (nat \<Rightarrow> 't system) \<Rightarrow> (nat \<Rightarrow> label) \<Rightarrow> bool" where
  "fair_run J H \<sigma> ls \<longleftrightarrow>
     (\<forall>rid i. (\<forall>j\<ge>i. handler_ready J H (\<sigma> j) rid) \<longrightarrow> (\<exists>j\<ge>i. ls j = LTask rid)) \<and>
     (\<forall>T. \<exists>i. T \<le> sy_now (\<sigma> i))"

text \<open>
  Where only the relay has to act: everywhere but in the upload, which waits for the client, in the
  response stream, which waits for the agent, and at the end.
\<close>

fun relay_turn :: "phase \<Rightarrow> bool" where
  "relay_turn SendStart = True" | "relay_turn Register = True" | "relay_turn SendEnd = True"
| "relay_turn (Top _) = True" | "relay_turn (Recv _ _) = True" | "relay_turn _ = False"

fun active :: "phase \<Rightarrow> bool" where
  "active (Recv _ _) = False" | "active ph = relay_turn ph"

fun waiting :: "phase \<Rightarrow> bool" where
  "waiting (Top _) = True" | "waiting (Recv _ _) = True" | "waiting _ = False"

lemma run_reachable: "sys_run J H \<sigma> ls \<Longrightarrow> sys_reachable J H (\<sigma> i)"
  by (induction i) (auto simp: sys_run_def intro: sys_next)

lemma run_step: "sys_run J H \<sigma> ls \<Longrightarrow> sys_step J H (\<sigma> i) (ls i) (\<sigma> (Suc i))"
  by (simp add: sys_run_def)

lemma clock_step: "sys_step J H s l s' \<Longrightarrow> sy_now s \<le> sy_now s'"
  by (erule sys_stepE) (simp_all add: after_task_sel)

lemma clock_mono: "sys_run J H \<sigma> ls \<Longrightarrow> i \<le> j \<Longrightarrow> sy_now (\<sigma> i) \<le> sy_now (\<sigma> j)"
  by (rule lift_Suc_mono_le [of "\<lambda>i. sy_now (\<sigma> i)"]) (auto intro: clock_step run_step)

text \<open>A task changes by its own steps, or is dropped where it waits.\<close>

lemma task_change:
  assumes "sys_step J H s l s'" and "sy_tasks s rid = Some t"
  obtains (same) "sy_tasks s' rid = Some t" "l \<noteq> LTask rid"
    | (own) acts took t' where "l = LTask rid" "task_step J H s t acts took t'" "sy_tasks s' rid = Some (recorded t' acts)"
    | (dropped) t' where "waits (tk_phase t)" "l \<noteq> LTask rid" "sy_tasks s' rid = Some t'" "tk_phase t' = Dropped"
  using assms(1)
proof cases
  case (arrive_unknown rq r c)
  with assms(2) have "r \<noteq> rid" by (auto simp: fresh_def)
  with arrive_unknown assms(2) show thesis by (intro same) simp_all
next
  case (arrive rq a r c)
  with assms(2) have "r \<noteq> rid" by (auto simp: fresh_def)
  with arrive assms(2) show thesis by (intro same) simp_all
next
  case (handler r u acts took u')
  show thesis
  proof (cases "r = rid")
    case True
    with handler assms(2) show thesis by (intro own) (auto simp: after_task_sel)
  next
    case False
    with handler assms(2) show thesis by (intro same) (auto simp: after_task_sel)
  qed
next
  case (client_leaves r u)
  show thesis
  proof (cases "r = rid")
    case True
    with client_leaves assms(2) show thesis
      by (intro dropped [of "recorded (u\<lparr>tk_phase := Dropped\<rparr>) []"]) (auto simp: after_task_sel)
  next
    case False
    with client_leaves assms(2) show thesis by (intro same) (auto simp: after_task_sel)
  qed
qed (use assms(2) same in auto)

lemma task_remains:
  assumes "sys_run J H \<sigma> ls" and "sy_tasks (\<sigma> i) rid = Some t" and "i \<le> j"
  shows "\<exists>t'. sy_tasks (\<sigma> j) rid = Some t'"
  using assms(3)
proof (induction rule: dec_induct)
  case (step j)
  then obtain u where "sy_tasks (\<sigma> j) rid = Some u" by blast
  with run_step [OF assms(1), of j] show ?case by (cases rule: task_change) auto
qed (use assms(2) in blast)

section \<open>Where only the relay has to act\<close>

lemma sum_unit_cases: "(\<exists>x out. p = (Inr (), out)) \<or> (\<exists>e out. p = (Inl e, out))" for p :: "(string + unit) \<times> 'a"
  by (cases p; cases "fst p") auto

lemma active_ready:
  assumes "task_ok J H t" and "sy_tasks s rid = Some t" and "active (tk_phase t)"
  shows "handler_ready J H s rid"
proof -
  have "\<exists>acts took t'. task_step J H s t acts took t'"
  proof (cases "tk_phase t")
    case SendStart
    with assms(1) obtain a where "in_agent (tk_env t) = Some a" by (auto simp: task_ok_def)
    with SendStart sum_unit_cases [of "send_control J (sy_open s) (sender a) (start_message H t)"] show ?thesis
      by (metis task_step.start_sent task_step.start_failed)
  next
    case SendEnd
    with assms(1) obtain a where "in_agent (tk_env t) = Some a" by (auto simp: task_ok_def start_ok_def)
    with SendEnd sum_unit_cases [of "send_control J (sy_open s) (sender a) (HttpRequestEnd (in_rid (tk_env t)))"]
    show ?thesis by (metis task_step.end_sent task_step.end_failed)
  next
    case (Top early)
    then show ?thesis
      by (cases "deadline t - elapsed s t = 0") (blast intro: task_step.round_late task_step.round_waits)+
  qed (use assms(3) in \<open>auto intro: task_step.registered_entry\<close>)
  with assms(2) show ?thesis unfolding handler_ready_def by (blast intro: handler)
qed

lemma recv_ready:
  assumes "sy_tasks s rid = Some t" and "tk_phase t = Recv t0 early" and "deadline t \<le> elapsed s t"
  shows "handler_ready J H s rid"
proof -
  obtain r where r: "timeout_recv s (in_chan (tk_env t)) (deadline t \<le> elapsed s t) = Some r"
    using assms(3) by (cases "recv s (in_chan (tk_env t))") (simp_all add: timeout_recv_def)
  have "\<exists>acts took t'. task_step J H s t acts took t'"
  proof (cases "\<exists>chunk. r = Some (Some (EvBody chunk)) \<and> t0 < deadline t")
    case True
    then obtain chunk where "r = Some (Some (EvBody chunk))" by blast
    from task_step.poll_body [OF assms(2) r this] show ?thesis by blast
  next
    case False
    then have "\<not> (t0 < deadline t \<and> (\<exists>b. r = Some (Some (EvBody b))))" by blast
    then show ?thesis
    proof (cases rule: await_start_final)
      case (failed status msg)
      from task_step.poll_failed [OF assms(2) r failed(1)] show ?thesis by blast
    next
      case (started st hs)
      from task_step.poll_start [OF assms(2) r started(2)] show ?thesis by blast
    qed
  qed
  with assms(1) show ?thesis unfolding handler_ready_def by (blast intro: handler)
qed

text \<open>A task with something to do is left alone until it does it.\<close>

lemma active_runs:
  assumes "sys_run J H \<sigma> ls" and "fair_run J H \<sigma> ls" and "sy_tasks (\<sigma> i) rid = Some t" and "active (tk_phase t)"
  shows "\<exists>j\<ge>i. sy_tasks (\<sigma> j) rid = Some t \<and> ls j = LTask rid"
proof -
  have nw: "\<not> waits (tk_phase t)" using assms(4) by (cases "tk_phase t") simp_all
  have stays: "sy_tasks (\<sigma> j) rid = Some t" if "i \<le> j" and "\<forall>k. i \<le> k \<and> k < j \<longrightarrow> ls k \<noteq> LTask rid" for j
    using that
  proof (induction rule: dec_induct)
    case (step j)
    then have t: "sy_tasks (\<sigma> j) rid = Some t" and l: "ls j \<noteq> LTask rid" by simp_all
    from run_step [OF assms(1)] t show ?case by (cases rule: task_change) (use nw l in auto)
  qed (use assms(3) in simp)
  have "\<exists>j\<ge>i. ls j = LTask rid"
  proof (rule ccontr)
    assume none: "\<not> (\<exists>j\<ge>i. ls j = LTask rid)"
    then have "handler_ready J H (\<sigma> j) rid" if "i \<le> j" for j
      using that stays [OF that] active_ready [OF tasks_ok_reachable [OF run_reachable [OF assms(1)]] _ assms(4)] by blast
    with assms(2) none show False unfolding fair_run_def by blast
  qed
  then obtain j where j: "i \<le> j \<and> ls j = LTask rid" "\<forall>k<j. \<not> (i \<le> k \<and> ls k = LTask rid)"
    using exists_least_iff [of "\<lambda>j. i \<le> j \<and> ls j = LTask rid"] by blast
  with stays [of j] show ?thesis by blast
qed

section \<open>The wait ends\<close>

lemma waiting_keeps:
  assumes "task_step J H s t acts took t'" and "waiting (tk_phase t)" and "waiting (tk_phase t')"
  shows "tk_started t' = tk_started t" and "deadline t' = deadline t"
  using assms by (cases, simp_all)+

lemma late_top_leaves:
  assumes "task_step J H s t acts took t'" and "tk_phase t = Top early" and "deadline t \<le> elapsed s t"
  shows "\<not> waiting (tk_phase t')"
  using assms(1) by cases (use assms(2,3) in auto)

lemma recv_to_top:
  assumes "task_step J H s t acts took t'" and "tk_phase t = Recv t0 early" and "waiting (tk_phase t')"
  shows "\<exists>e. tk_phase t' = Top e"
  using assms(1) by cases (use assms(2,3) in auto)

text \<open>A task that waits at every time keeps the start of its wait and its deadline.\<close>

lemma always_waiting:
  assumes "sys_run J H \<sigma> ls" and "sy_tasks (\<sigma> i) rid = Some t"
    and "\<forall>j\<ge>i. \<forall>u. sy_tasks (\<sigma> j) rid = Some u \<longrightarrow> waiting (tk_phase u)" and "i \<le> j"
  shows "\<exists>u. sy_tasks (\<sigma> j) rid = Some u \<and> waiting (tk_phase u) \<and>
      tk_started u = tk_started t \<and> deadline u = deadline t"
  using assms(4)
proof (induction rule: dec_induct)
  case base
  with assms(2,3) show ?case by auto
next
  case (step j)
  then obtain u where u: "sy_tasks (\<sigma> j) rid = Some u" "waiting (tk_phase u)"
    "tk_started u = tk_started t" "deadline u = deadline t" by blast
  from step(1) assms(3) have stay: "sy_tasks (\<sigma> (Suc j)) rid = Some v \<Longrightarrow> waiting (tk_phase v)" for v
    using le_SucI by blast
  from run_step [OF assms(1)] u(1) show ?case
  proof (cases rule: task_change)
    case (own acts took t')
    with stay waiting_keeps [OF own(2) u(2)] u show ?thesis by auto
  qed (use stay u in auto)
qed

lemma waiting_ends:
  assumes "sys_run J H \<sigma> ls" and "fair_run J H \<sigma> ls" and "sy_tasks (\<sigma> i) rid = Some t"
  shows "\<exists>j\<ge>i. \<exists>t'. sy_tasks (\<sigma> j) rid = Some t' \<and> \<not> waiting (tk_phase t')"
proof (rule ccontr)
  assume "\<not> ?thesis"
  then have never: "\<forall>j\<ge>i. \<forall>u. sy_tasks (\<sigma> j) rid = Some u \<longrightarrow> waiting (tk_phase u)" by blast
  note always = always_waiting [OF assms(1,3) never]
  obtain k where "tk_started t + deadline t \<le> sy_now (\<sigma> k)"
    using assms(2) unfolding fair_run_def by blast
  then have late: "deadline t \<le> elapsed (\<sigma> j) u" if "max i k \<le> j" and "tk_started u = tk_started t" for j u
    using clock_mono [OF assms(1), of k j] that by (simp add: elapsed_def)
  have no_top: "tk_phase u \<noteq> Top e" if "max i k \<le> j" and u: "sy_tasks (\<sigma> j) rid = Some u" for j u e
  proof
    assume top: "tk_phase u = Top e"
    with active_runs [OF assms(1,2) u] obtain m where m: "j \<le> m" "sy_tasks (\<sigma> m) rid = Some u" "ls m = LTask rid"
      by auto
    with that always [of m] have st: "tk_started u = tk_started t" "deadline u = deadline t" by auto
    from m that always [of "Suc m"] obtain v where v: "sy_tasks (\<sigma> (Suc m)) rid = Some v" "waiting (tk_phase v)" by auto
    from run_step [OF assms(1)] m(2) show False
    proof (cases rule: task_change)
      case (own acts took t')
      with late_top_leaves [OF own(2) top] late [of m u] that m(1) st v show ?thesis by auto
    qed (use m in auto)
  qed
  have recv: "\<exists>u t0 e. sy_tasks (\<sigma> j) rid = Some u \<and> tk_phase u = Recv t0 e \<and>
      tk_started u = tk_started t \<and> deadline u = deadline t" if "max i k \<le> j" for j
  proof -
    from always [of j] that obtain u where u: "sy_tasks (\<sigma> j) rid = Some u" "waiting (tk_phase u)"
      "tk_started u = tk_started t" "deadline u = deadline t" by auto
    with no_top [OF that u(1)] show ?thesis by (cases "tk_phase u") auto
  qed
  have "handler_ready J H (\<sigma> j) rid" if "max i k \<le> j" for j
  proof -
    from recv [OF that] obtain u t0 e where u: "sy_tasks (\<sigma> j) rid = Some u" "tk_phase u = Recv t0 e"
      "tk_started u = tk_started t" "deadline u = deadline t" by blast
    with late [OF that u(3)] show ?thesis by (intro recv_ready [of _ _ u]) simp_all
  qed
  with assms(2) obtain m where m: "max i k \<le> m" "ls m = LTask rid" unfolding fair_run_def by blast
  from recv [OF m(1)] obtain u t0 e where u: "sy_tasks (\<sigma> m) rid = Some u" "tk_phase u = Recv t0 e" by blast
  from recv [of "Suc m"] m(1) obtain v t1 e1 where v: "sy_tasks (\<sigma> (Suc m)) rid = Some v" "tk_phase v = Recv t1 e1"
    by auto
  from run_step [OF assms(1)] u(1) show False
  proof (cases rule: task_change)
    case (own acts took t')
    with recv_to_top [OF own(2) u(2)] v show ?thesis by auto
  qed (use m in auto)
qed

lemma SendEnd_moves:
  assumes "task_step J H s t acts took t'" and "tk_phase t = SendEnd"
  shows "waiting (tk_phase t') \<or> \<not> relay_turn (tk_phase t')"
  using assms(1) by cases (use assms(2) in auto)

lemma Register_moves:
  assumes "task_step J H s t acts took t'" and "tk_phase t = Register"
  shows "\<not> relay_turn (tk_phase t')"
  using assms(1) by cases (use assms(2) in auto)

lemma SendStart_moves:
  assumes "task_step J H s t acts took t'" and "tk_phase t = SendStart"
  shows "tk_phase t' = Register \<or> \<not> relay_turn (tk_phase t')"
  using assms(1) by cases (use assms(2) in auto)

lemma wait_left:
  assumes "sys_run J H \<sigma> ls" and "fair_run J H \<sigma> ls"
    and "sy_tasks (\<sigma> k) rid = Some u" and "waiting (tk_phase u)"
  shows "\<exists>j\<ge>k. \<exists>t'. sy_tasks (\<sigma> j) rid = Some t' \<and> \<not> relay_turn (tk_phase t')"
proof (rule ccontr)
  assume never: "\<not> ?thesis"
  have "waiting (tk_phase v)" if "k \<le> j" and "sy_tasks (\<sigma> j) rid = Some v" for j v
    using that
  proof (induction arbitrary: v rule: dec_induct)
    case base
    with assms(3,4) show ?case by simp
  next
    case (step j)
    obtain w where w: "sy_tasks (\<sigma> j) rid = Some w" using task_remains [OF assms(1,3) step(1)] by blast
    have wait: "waiting (tk_phase w)" by (rule step.IH [OF w])
    have turn: "relay_turn (tk_phase v)" using never step(1,4) le_SucI by blast
    from run_step [OF assms(1)] w show ?case
    proof (cases rule: task_change)
      case (own acts took t')
      from own(2) show ?thesis by cases (use own(3) step(4) turn wait in auto)
    qed (use step(4) turn wait in auto)
  qed
  with waiting_ends [OF assms(1-3)] show False by blast
qed

lemma active_moves:
  assumes "sys_run J H \<sigma> ls" and "fair_run J H \<sigma> ls" and "sy_tasks (\<sigma> i) rid = Some u" and "active (tk_phase u)"
  obtains k s acts took v where "i \<le> k" and "task_step J H s u acts took v"
    and "sy_tasks (\<sigma> k) rid = Some (recorded v acts)"
proof -
  from active_runs [OF assms] obtain m where m: "i \<le> m" "sy_tasks (\<sigma> m) rid = Some u" "ls m = LTask rid" by blast
  from run_step [OF assms(1)] m(2) show thesis
  proof (cases rule: task_change)
    case (own acts took t')
    with m(1) show ?thesis by (intro that [of "Suc m"]) auto
  qed (use m in auto)
qed

lemma register_left:
  assumes "sys_run J H \<sigma> ls" and "fair_run J H \<sigma> ls"
    and "sy_tasks (\<sigma> k) rid = Some u" and "tk_phase u = Register"
  shows "\<exists>j\<ge>k. \<exists>t'. sy_tasks (\<sigma> j) rid = Some t' \<and> \<not> relay_turn (tk_phase t')"
proof -
  from assms(4) have "active (tk_phase u)" by simp
  then obtain j s acts took v where "k \<le> j" "task_step J H s u acts took v" "sy_tasks (\<sigma> j) rid = Some (recorded v acts)"
    by (rule active_moves [OF assms(1-3)])
  with Register_moves [OF _ assms(4)] show ?thesis by fastforce
qed

text \<open>
  C4: the relay never keeps a request waiting for itself. In every infinite run with a fair scheduler
  and an advancing clock, and whatever the agents, their connections, the clients and the other
  requests do, a handler that has to send, register or wait for the response start comes to a phase
  where it does not: it uploads, streams the response, has finished, or was dropped by its client.
  In particular every wait for a response ends, also when the agent is gone or only sends bodies.
\<close>

theorem handler_progresses:
  assumes "sys_run J H \<sigma> ls" and "fair_run J H \<sigma> ls"
    and "sy_tasks (\<sigma> i) rid = Some t" and "relay_turn (tk_phase t)"
  shows "\<exists>j\<ge>i. \<exists>t'. sy_tasks (\<sigma> j) rid = Some t' \<and> \<not> relay_turn (tk_phase t')"
proof (cases "tk_phase t")
  case SendStart
  then have "active (tk_phase t)" by simp
  then obtain k s acts took v where k: "i \<le> k" "task_step J H s t acts took v"
    "sy_tasks (\<sigma> k) rid = Some (recorded v acts)" by (rule active_moves [OF assms(1-3)])
  from SendStart_moves [OF k(2) SendStart] show ?thesis
  proof
    assume "tk_phase v = Register"
    with register_left [OF assms(1,2) k(3)] k(1) show ?thesis using le_trans by fastforce
  qed (use k in auto)
next
  case SendEnd
  then have "active (tk_phase t)" by simp
  then obtain k s acts took v where k: "i \<le> k" "task_step J H s t acts took v"
    "sy_tasks (\<sigma> k) rid = Some (recorded v acts)" by (rule active_moves [OF assms(1-3)])
  from SendEnd_moves [OF k(2) SendEnd] show ?thesis
  proof
    assume "waiting (tk_phase v)"
    with wait_left [OF assms(1,2) k(3)] k(1) show ?thesis using le_trans by fastforce
  qed (use k in auto)
qed (use assms(3,4) register_left [OF assms(1-3)] wait_left [OF assms(1-3)] in auto)

text \<open>A run in which the agent never answers: the deadline passes, the handler gives its 504, time goes on.\<close>

lemma sample_run:
  obtains \<sigma> ls t where "sys_run plain_json plain_http \<sigma> ls" and "fair_run plain_json plain_http \<sigma> ls"
    and "sy_tasks (\<sigma> 0) 7 = Some t" and "tk_phase t = Top []"
proof (rule sample_wait)
  fix t and s' :: "control_message system"
  assume r: "sys_reachable plain_json plain_http s'" and ts: "sy_tasks s' = [7 \<mapsto> t]"
    and ph: "tk_phase t = Top []"
    and dl: "deadline t = 30000000000" and st: "tk_started t = 0" and now: "sy_now s' = 0"
  let ?s1 = "s'\<lparr>sy_now := sy_now s' + 30000000000\<rparr>"
  let ?u = "t\<lparr>tk_env := (tk_env t)\<lparr>in_polls := in_polls (tk_env t) @ [(elapsed ?s1 t, None)]\<rparr>,
      tk_phase := Finished (simple_response 504 ''agent response timeout'')\<rparr>"
  let ?a = "[Do (SRemoveInflight (in_rid (tk_env t)))]"
  let ?s2 = "after_task 7 ?a False ?u ?s1"
  have one: "sys_step plain_json plain_http s' LTick ?s1" by (rule tick)
  have "deadline t - elapsed ?s1 t = 0" using dl st now by (simp add: elapsed_def)
  from task_step.round_late [OF ph this]
  have two: "sys_step plain_json plain_http ?s1 (LTask 7) ?s2" by (rule handler [rotated]) (simp add: ts)
  have three: "sys_step plain_json plain_http (?s2\<lparr>sy_now := sy_now ?s2 + n\<rparr>) LTick (?s2\<lparr>sy_now := sy_now ?s2 + Suc n\<rparr>)" for n
    using tick [of plain_json plain_http "?s2\<lparr>sy_now := sy_now ?s2 + n\<rparr>" 1] by simp
  define \<sigma> where "\<sigma> i = (case i of 0 \<Rightarrow> s' | Suc 0 \<Rightarrow> ?s1 | Suc (Suc n) \<Rightarrow> ?s2\<lparr>sy_now := sy_now ?s2 + n\<rparr>)" for i
  define ls where "ls i = (if i = 1 then LTask 7 else LTick)" for i :: nat
  have "sys_step plain_json plain_http (\<sigma> i) (ls i) (\<sigma> (Suc i))" for i
    using one two three [of "i - 2"] by (auto simp: \<sigma>_def ls_def split: nat.split)
  with r have run: "sys_run plain_json plain_http \<sigma> ls" by (simp add: sys_run_def \<sigma>_def)
  have tasks: "sy_tasks (\<sigma> (Suc (Suc n))) = [7 \<mapsto> recorded ?u ?a]" for n
    by (simp add: \<sigma>_def after_task_sel ts)
  have "\<not> handler_ready plain_json plain_http (\<sigma> (Suc (Suc n))) rid" for n rid
    unfolding handler_ready_def using tasks [of n]
    by (auto elim!: handler_stepE task_stepE split: if_splits)
  then have idle: "\<not> (\<forall>j\<ge>i. handler_ready plain_json plain_http (\<sigma> j) rid)" for i rid
    by (meson le_SucI order_refl)
  have "T \<le> sy_now (\<sigma> (Suc (Suc T)))" for T by (simp add: \<sigma>_def)
  with idle have fair: "fair_run plain_json plain_http \<sigma> ls" unfolding fair_run_def by blast
  show thesis by (rule that [OF run fair, of t]) (simp_all add: \<sigma>_def ts ph)
qed

theorem handler_progresses_witness:
  "\<exists>\<sigma> ls. sys_run plain_json plain_http \<sigma> ls \<and> fair_run plain_json plain_http \<sigma> ls \<and>
     (\<exists>t. sy_tasks (\<sigma> 0) 7 = Some t \<and> relay_turn (tk_phase t)) \<and>
     (\<exists>j t'. sy_tasks (\<sigma> j) 7 = Some t' \<and> \<not> relay_turn (tk_phase t'))"
proof (rule sample_run)
  fix \<sigma> ls and t :: "control_message task"
  assume a: "sys_run plain_json plain_http \<sigma> ls" "fair_run plain_json plain_http \<sigma> ls"
    "sy_tasks (\<sigma> 0) 7 = Some t" and ph: "tk_phase t = Top []"
  from ph have "relay_turn (tk_phase t)" by simp
  with handler_progresses [OF a this] a show ?thesis by blast
qed

section \<open>A stream whose agent is silent\<close>

lemma silent_stream_stuck:
  assumes "sys_ok s" and "sy_tasks s rid = Some t" and "tk_phase t = Yield status headers []"
    and "tbl_get (inflight (sy_app s)) rid = Some (in_chan (tk_env t))" and "sy_queue s (in_chan (tk_env t)) = []"
  shows "\<not> handler_ready J H s rid"
proof -
  have "(rid, in_chan (tk_env t)) \<in> set (inflight (sy_app s))"
    using assms(4) by (simp add: tbl_get_def map_of_SomeD)
  then have "\<not> closed s (in_chan (tk_env t))" by (auto simp: closed_def list_all_iff)
  then have "recv s (in_chan (tk_env t)) = None" using assms(5) by (simp add: recv_def)
  with assms(2,3) show ?thesis unfolding handler_ready_def by (auto elim!: handler_stepE task_stepE)
qed

lemma silent_stream_step:
  assumes "sys_ok s" and "sy_tasks s rid = Some t" and "tk_phase t = Yield status headers []"
    and "tbl_get (inflight (sy_app s)) rid = Some (in_chan (tk_env t))" and "sy_queue s (in_chan (tk_env t)) = []"
    and "step_without_answers J H rid s s'"
  shows "(sy_tasks s' rid = Some t \<and> tbl_get (inflight (sy_app s')) rid = Some (in_chan (tk_env t)) \<and>
      sy_queue s' (in_chan (tk_env t)) = []) \<or> (\<exists>t'. sy_tasks s' rid = Some t' \<and> tk_phase t' = Dropped)"
proof -
  from assms(6) obtain l where l: "\<forall>conn. l = LAgent conn \<longrightarrow> \<not> sends_for s conn rid \<and> \<not> sends_for s' conn rid"
    "sys_step J H s l s'" by (auto simp: step_without_answers_def)
  have own: "owned s rid (in_chan (tk_env t)) (\<lambda>_. True)" using assms(2) by (simp add: owned_def)
  show ?thesis
  proof (cases l)
    case (LAgent conn)
    with foreign_answer [OF assms(1), of J H conn s' rid] l own assms(2,4,5) show ?thesis by simp
  next
    case LOther
    with l(2) show ?thesis
      using assms(2,4,5) by cases (auto simp: tunnel_op_inflight [OF _ sys_okD(1) [OF assms(1)]])
  next
    case (LTask r)
    from l(2) [unfolded LTask] show ?thesis
    proof cases
      case (handler u acts took u')
      have "r \<noteq> rid" using l(2) silent_stream_stuck [OF assms(1-5), of J H] LTask
        by (auto simp: handler_ready_def)
      moreover have "in_chan (tk_env u') \<noteq> in_chan (tk_env t)"
        using other_chan [OF assms(1) own handler(2) \<open>r \<noteq> rid\<close>] task_keeps(2) [OF handler(3)] by simp
      ultimately show ?thesis
        using handler assms(2,4,5) handler_other_entry [OF assms(1) handler(2,3)] by (simp add: after_task_sel)
    qed
  next
    case (LClient r)
    from l(2) [unfolded LClient] show ?thesis
    proof cases
      case (client_leaves u)
      then show ?thesis using assms(2,4,5) by (cases "r = rid") (simp_all add: after_task_sel skip_def)
    qed (use assms(2,4,5) in \<open>auto simp: fresh_def\<close>)
  next
    case LTick
    with l(2) show ?thesis using assms(2,4,5) by cases auto
  qed
qed

text \<open>
  C22: a started response has no timeout. When a handler streams a response, has read everything sent
  so far and its entry is in the table, then without a further answer for it, by a session that comes
  to send or is sending an event for this request, it never takes a step again: in every later state
  the client has left or the handler is still there, unable to end the response, although other
  requests may have been answered, the agent's connection closed, the agent removed, and any time
  may have passed.
\<close>

theorem silent_stream_hangs:
  assumes "sys_reachable J H s" and "sy_tasks s rid = Some t" and "tk_phase t = Yield status headers []"
    and "tbl_get (inflight (sy_app s)) rid = Some (in_chan (tk_env t))" and "sy_queue s (in_chan (tk_env t)) = []"
    and "(step_without_answers J H rid)\<^sup>*\<^sup>* s s'"
  shows "(sy_tasks s' rid = Some t \<and> \<not> handler_ready J H s' rid) \<or>
    (\<exists>t'. sy_tasks s' rid = Some t' \<and> tk_phase t' = Dropped)"
proof -
  have "sys_reachable J H s' \<and> ((sy_tasks s' rid = Some t \<and>
      tbl_get (inflight (sy_app s')) rid = Some (in_chan (tk_env t)) \<and> sy_queue s' (in_chan (tk_env t)) = []) \<or>
    (\<exists>t'. sy_tasks s' rid = Some t' \<and> tk_phase t' = Dropped))"
    using assms(6)
  proof (induction rule: rtranclp_induct)
    case (step s1 s2)
    then have r: "sys_reachable J H s2" and ok: "sys_ok s1"
      by (auto simp: step_without_answers_def intro: sys_next sys_ok_reachable)
    from step(3) show ?case
    proof (elim conjE disjE exE)
      fix t' assume t': "sy_tasks s1 rid = Some t'" and d: "tk_phase t' = Dropped"
      obtain l where "sys_step J H s1 l s2" using step(2) by (auto simp: step_without_answers_def)
      from this t' show ?thesis
      proof (cases rule: task_change)
        case (own acts took t2)
        with dropped_no_step [OF d] show ?thesis by blast
      qed (use r d in auto)
    qed (use r silent_stream_step [OF ok _ assms(3) _ _ step(2)] in blast)
  qed (use assms(1,2,4,5) in simp)
  then show ?thesis using silent_stream_stuck [OF sys_ok_reachable _ assms(3)] by blast
qed

theorem silent_stream_hangs_witness:
  "\<exists>s s' t. sys_reachable plain_json plain_http s \<and> sy_tasks s 7 = Some t \<and> tk_phase t = Yield 200 [] [] \<and>
     step_without_answers plain_json plain_http 7 s s' \<and> get_agent (sy_app s') ''demo'' = None \<and>
     \<not> handler_ready plain_json plain_http s' 7"
proof (rule sample_wait)
  fix t and s0 :: "control_message system"
  assume r: "sys_reachable plain_json plain_http s0" and ts: "sy_tasks s0 = [7 \<mapsto> t]" and ph: "tk_phase t = Top []"
    and ch: "in_chan (tk_env t) = 30" and dl: "deadline t = 30000000000" and st: "tk_started t = 0"
    and now: "sy_now s0 = 0" and en: "tbl_get (inflight (sy_app s0)) 7 = Some 30"
    and q: "sy_queue s0 = (\<lambda>_. [])" and sd: "sy_sending s0 = []" and rx: "30 \<in> sy_rx s0"
  let ?ev = "EvStart 200 []"
  have ex: "exec_op (\<lambda>c. c \<in> sy_rx s0) (SNotifyStart 7 200 []) (sy_app s0) =
      (sy_app s0, [ToRequest 30 ?ev] :: control_message relay_out list)"
    using en rx by (simp add: notify_start_eq)
  let ?s1 = "s0\<lparr>sy_app := sy_app s0, sy_queue := (sy_queue s0)
      (30 := sy_queue s0 30 @ events_to 30 [ToRequest 30 ?ev :: control_message relay_out])\<rparr>"
  have "\<exists>s1. sys_step plain_json plain_http s0 (LAgent 1) s1 \<and> sys_step plain_json plain_http s1 (LAgent 1) ?s1"
    by (rule answer_is_notification [OF _ _ en _ ex]) (simp_all add: sd q CHANNEL_CAPACITY_def)
  with r have r1: "sys_reachable plain_json plain_http ?s1" by (metis sys_next)
  let ?u2 = "t\<lparr>tk_phase := Recv (elapsed ?s1 t) []\<rparr>"
  let ?s2 = "after_task 7 [] False ?u2 ?s1"
  have "deadline t - elapsed ?s1 t \<noteq> 0" using dl st now by (simp add: elapsed_def)
  from task_step.round_waits [OF ph this]
  have r2: "sys_reachable plain_json plain_http ?s2" by (rule reach_handler [OF r1, rotated]) (simp add: ts)
  let ?t2 = "recorded ?u2 []"
  have "timeout_recv ?s2 (in_chan (tk_env ?t2)) (deadline ?t2 \<le> elapsed ?s2 ?t2) = Some (Some (Some ?ev))"
    by (simp add: timeout_recv_def recv_def after_task_sel q ch)
  from task_step.poll_start [OF _ this refl, of "elapsed ?s1 t" "[]" plain_json plain_http]
  have step: "task_step plain_json plain_http ?s2 ?t2 [] True
    (?t2\<lparr>tk_env := (tk_env ?t2)\<lparr>in_polls := in_polls (tk_env ?t2) @ [(elapsed ?s1 t, Some (Some ?ev))]\<rparr>,
      tk_phase := Yield 200 [] []\<rparr>)" (is "task_step _ _ _ _ _ _ ?u3") by simp
  let ?s3 = "after_task 7 [] True ?u3 ?s2"
  have r3: "sys_reachable plain_json plain_http ?s3"
    by (rule reach_handler [OF r2 _ step]) (simp add: after_task_sel)
  obtain s3 and t3 :: "control_message task" where s3: "sys_reachable plain_json plain_http s3"
    "sy_tasks s3 7 = Some t3" "tk_phase t3 = Yield 200 [] []"
    "tbl_get (inflight (sy_app s3)) 7 = Some (in_chan (tk_env t3))" "sy_queue s3 (in_chan (tk_env t3)) = []"
    and sd3: "sy_sending s3 = []"
    by (rule that [OF r3, of "recorded ?u3 []"]) (simp_all add: after_task_sel skip_def en ch q sd)
  define cid where "cid = (case get_agent (sy_app s3) ''demo'' of Some a \<Rightarrow> connection_id a | None \<Rightarrow> 0)"
  define s4 where "s4 = s3\<lparr>sy_app := fst ((exec_op (\<lambda>_. True) (SRemoveAgentIf ''demo'' cid)
    :: control_message relay_act) (sy_app s3))\<rparr>"
  have "sys_step plain_json plain_http s3 (LAgent cid) s4"
    unfolding s4_def by (rule session_acts) (simp_all add: sd3)
  then have gone: "step_without_answers plain_json plain_http 7 s3 s4"
    by (auto simp: step_without_answers_def sends_for_def s4_def sd3 intro!: exI [of _ "LAgent cid"])
  have "state_ok (sy_app s3)" by (rule sys_okD(1) [OF sys_ok_reachable [OF s3(1)]])
  then have "get_agent (sy_app s4) ''demo'' = None"
    by (auto simp: s4_def cid_def remove_agent_if_eq get_agent_def table_simps split: option.split)
  moreover have "\<not> handler_ready plain_json plain_http s4 7"
    using silent_stream_hangs [OF s3, of s4] gone s3(2,3) by (auto simp: s4_def)
  ultimately show ?thesis using s3 gone by blast
qed

end
