(* ===== verification/Relay_System_Order.thy ===== *)
theory Relay_System_Order
  imports Relay_System_Table
begin

text \<open>
  What a client gets, seen from the agents' side. The concurrent system of \<open>Relay_System\<close> is run
  with a record of the events that agent sessions have put on each response channel. Proved here:
  what a handler has read is the beginning of that record, what it has not read is queued, and a
  response that was started is made of the events up to the first terminal one, in order and each
  used once, however sessions, handlers and clients interleave and wait for each other.
\<close>

section \<open>The record of sent events\<close>

text \<open>A step of an agent session that waits to send puts its event on the channel if it is read.\<close>

definition sent_by :: "'t system \<Rightarrow> label \<Rightarrow> chan \<Rightarrow> relay_event list" where
  "sent_by s l c =
    (case l of
       LAgent conn \<Rightarrow>
         (case tbl_get (sy_sending s) conn of
            Some (rid, d, ev) \<Rightarrow> if d = c \<and> c \<in> sy_rx s then [ev] else []
          | None \<Rightarrow> [])
     | _ \<Rightarrow> [])"

inductive sys_traced :: "'t json \<Rightarrow> http_lib \<Rightarrow> 't system \<Rightarrow> (chan \<Rightarrow> relay_event list) \<Rightarrow> bool" for J H where
  traced_init: "sys_traced J H (new_system tokens timeout) (\<lambda>_. [])"
| traced_next: "sys_traced J H s sent \<Longrightarrow> sys_step J H s l s' \<Longrightarrow>
    sys_traced J H s' (\<lambda>c. sent c @ sent_by s l c)"

lemma traced_reachable: "sys_traced J H s sent \<Longrightarrow> sys_reachable J H s"
  by (induction rule: sys_traced.induct) (auto intro: sys_reachable.intros)

lemma reachable_traced: "sys_reachable J H s \<Longrightarrow> \<exists>sent. sys_traced J H s sent"
  by (induction rule: sys_reachable.induct) (blast intro: sys_traced.intros)+

section \<open>What a handler has read\<close>

definition read_events :: "'t task \<Rightarrow> relay_event list" where
  "read_events t = List.map_filter (\<lambda>(_, r). case r of Some (Some ev) \<Rightarrow> Some ev | _ \<Rightarrow> None) (in_polls (tk_env t))
     @ List.map_filter (\<lambda>r. r) (in_events (tk_env t))"

definition bodies :: "relay_event list \<Rightarrow> bytes list" where
  "bodies evs = List.map_filter (\<lambda>ev. case ev of EvBody b \<Rightarrow> Some b | _ \<Rightarrow> None) evs"

lemma map_filter_append [simp]: "List.map_filter f (xs @ ys) = List.map_filter f xs @ List.map_filter f ys"
  by (simp add: List.map_filter_def)

lemma bodies_simps [simp]: "bodies [] = []" "bodies (xs @ ys) = bodies xs @ bodies ys" "bodies [EvBody b] = [b]"
    "bodies [EvStart st hs] = []"
  by (simp_all add: bodies_def map_filter_simps)

lemma read_events_env: "tk_env t' = tk_env t \<Longrightarrow> read_events t' = read_events t"
  by (simp add: read_events_def)

lemma read_events_new [simp]: "read_events (new_task rq a r c n ph) = []"
  by (simp add: read_events_def new_task_def map_filter_simps)

lemma new_task_sel [simp]:
  "in_chan (tk_env (new_task rq a r c n ph)) = c" "in_polls (tk_env (new_task rq a r c n ph)) = []"
  "in_events (tk_env (new_task rq a r c n ph)) = []" "tk_phase (new_task rq a r c n ph) = ph"
  "tk_yielded (new_task rq a r c n ph) = []"
  by (simp_all add: new_task_def)

text \<open>A response as the events give it: early chunks, the start, the rest without a terminal event.\<close>

definition response_of :: "http_lib \<Rightarrow> bytes list \<Rightarrow> u16 \<Rightarrow> header_list \<Rightarrow> relay_event list \<Rightarrow> http_response" where
  "response_of H pre status headers post =
     \<lparr>rsp_status = (if status_valid H status then status else 502),
      rsp_headers = apply_forwarded_headers H [] headers, rsp_body = pre @ bodies post, rsp_complete = True\<rparr>"

definition plain_failure :: "http_response \<Rightarrow> bool" where
  "plain_failure rsp \<longleftrightarrow> (\<exists>status msg. status \<in> {502, 504} \<and> rsp = simple_response status msg)"

lemma plain_failure_502 [simp]: "plain_failure (simple_response 502 msg)"
  by (auto simp: plain_failure_def)

text \<open>What the read events say about a handler in each phase.\<close>

fun read_ok :: "http_lib \<Rightarrow> phase \<Rightarrow> 't task \<Rightarrow> bool" where
  "read_ok H (Top early) t \<longleftrightarrow> in_events (tk_env t) = [] \<and> read_events t = map EvBody early \<and> tk_yielded t = []"
| "read_ok H (Recv t0 early) t \<longleftrightarrow>
     in_events (tk_env t) = [] \<and> read_events t = map EvBody early \<and> tk_yielded t = []"
| "read_ok H (Yield status headers left) t \<longleftrightarrow>
     (\<exists>pre post. read_events t = map EvBody pre @ EvStart status headers # post \<and> list_all (\<lambda>ev. \<not> terminal ev) post \<and>
        pre @ bodies post = tk_yielded t @ left)"
| "read_ok H (Finished rsp) t \<longleftrightarrow> plain_failure rsp \<or>
     (\<exists>pre status headers post ev. read_events t = map EvBody pre @ EvStart status headers # post @ [ev] \<and>
        list_all (\<lambda>ev. \<not> terminal ev) post \<and> terminal ev \<and> rsp = response_of H pre status headers post)"
| "read_ok H Dropped t \<longleftrightarrow> True"
| "read_ok H ph t \<longleftrightarrow> in_polls (tk_env t) = [] \<and> in_events (tk_env t) = [] \<and> tk_yielded t = []"

lemma await_failed_status: "await_start d early ps = Some (Failed status msg) \<Longrightarrow> status \<in> {502, 504}"
  by (induction d early ps rule: await_start.induct)
     (auto simp: await_start.simps(2) Let_def split: if_splits option.splits relay_event.splits)

text \<open>A step reads the first event of the channel, or nothing.\<close>

lemma step_reads:
  assumes "task_step J H s t acts took t'" and "read_ok H (tk_phase t) t"
    and "live (tk_phase t) \<Longrightarrow> recv s (in_chan (tk_env t)) \<noteq> Some None"
  shows "(if took then \<exists>ev q. sy_queue s (in_chan (tk_env t)) = ev # q \<and> read_events t' = read_events t @ [ev]
      else read_events t' = read_events t) \<and> read_ok H (tk_phase t') t'"
  using assms(1)
proof cases
  case (round_late early)
  with assms(2) show ?thesis
    by (auto simp: read_events_def plain_failure_def map_filter_simps)
next
  case (poll_body t0 early r chunk)
  with assms(2) show ?thesis
    by (auto simp: read_events_def timeout_recv_def recv_def map_filter_simps split: list.splits if_splits option.splits)
next
  case (poll_start t0 early r status headers)
  with assms(2) show ?thesis
    by (auto simp: read_events_def timeout_recv_def recv_def map_filter_simps intro!: exI [of _ early]
        split: list.splits if_splits option.splits)
next
  case (poll_failed t0 early r status msg)
  then have "status \<in> {502, 504}" using await_failed_status by blast
  with poll_failed assms(2) show ?thesis
    by (auto simp: read_events_def timeout_recv_def recv_def map_filter_simps plain_failure_def
        split: list.splits if_splits option.splits)
next
  case (streamed status headers r chunks)
  with assms(3) obtain ev q where ev: "r = Some ev" "sy_queue s (in_chan (tk_env t)) = ev # q"
    by (auto simp: recv_def split: list.splits if_splits)
  with streamed(6) have "\<not> terminal ev" and "chunks = bodies [ev]"
    by (cases ev; auto simp: terminal_def bodies_def map_filter_simps)+
  moreover from streamed assms(2) obtain pre post where
    "read_events t = map EvBody pre @ EvStart status headers # post" "list_all (\<lambda>ev. \<not> terminal ev) post"
    "pre @ bodies post = tk_yielded t" by auto
  moreover from streamed ev(1) have "read_events t' = read_events t @ [ev]" "tk_phase t' = Yield status headers []"
    "tk_yielded t' = tk_yielded t @ chunks" by (simp_all add: read_events_def map_filter_simps)
  moreover have took using streamed by simp
  ultimately show ?thesis
    using ev(2) by (auto intro!: exI [of _ pre] exI [of _ "post @ [ev]"])
next
  case (stream_ended status headers r chunks)
  with assms(3) obtain ev q where ev: "r = Some ev" "sy_queue s (in_chan (tk_env t)) = ev # q"
    by (auto simp: recv_def split: list.splits if_splits)
  with stream_ended(6) have "terminal ev"
    by (cases ev; auto simp: terminal_def split: prod.splits)
  moreover from stream_ended assms(2) obtain pre post where
    "read_events t = map EvBody pre @ EvStart status headers # post" "list_all (\<lambda>ev. \<not> terminal ev) post"
    "pre @ bodies post = tk_yielded t" by auto
  moreover from stream_ended ev(1) have "read_events t' = read_events t @ [ev]" and took
    by (simp_all add: read_events_def map_filter_simps)
  moreover from stream_ended calculation(4) have "tk_phase t' = Finished (response_of H pre status headers post)"
    by (simp add: response_of_def)
  ultimately show ?thesis
    using ev(2) by auto
qed (use assms(2) in \<open>auto simp: read_events_def map_filter_simps plain_failure_def\<close>)


section \<open>The record and the channels\<close>

text \<open>
  For every channel: one nobody has yet is empty and so is its record; one whose handler has not
  registered is empty; the record begins with what its handler read, and while the handler lives the
  rest is queued.
\<close>

definition order_ok :: "http_lib \<Rightarrow> 't system \<Rightarrow> (chan \<Rightarrow> relay_event list) \<Rightarrow> bool" where
  "order_ok H s sent \<longleftrightarrow>
    (\<forall>c. (\<forall>rid t. sy_tasks s rid = Some t \<longrightarrow> in_chan (tk_env t) = c \<longrightarrow> \<not> registered_phase (tk_phase t)) \<longrightarrow>
       sent c = [] \<and> sy_queue s c = []) \<and>
    (\<forall>rid t. sy_tasks s rid = Some t \<longrightarrow> read_ok H (tk_phase t) t \<and>
       (\<exists>rest. sent (in_chan (tk_env t)) = read_events t @ rest) \<and>
       (live (tk_phase t) \<longrightarrow> sent (in_chan (tk_env t)) = read_events t @ sy_queue s (in_chan (tk_env t))))"

lemma order_okD:
  assumes "order_ok H s sent"
  shows "(\<And>rid t. sy_tasks s rid = Some t \<Longrightarrow> in_chan (tk_env t) = c \<Longrightarrow> \<not> registered_phase (tk_phase t)) \<Longrightarrow>
      sent c = [] \<and> sy_queue s c = []"
    and "sy_tasks s rid = Some t \<Longrightarrow> read_ok H (tk_phase t) t"
    and "sy_tasks s rid = Some t \<Longrightarrow> \<exists>rest. sent (in_chan (tk_env t)) = read_events t @ rest"
    and "sy_tasks s rid = Some t \<Longrightarrow> live (tk_phase t) \<Longrightarrow>
      sent (in_chan (tk_env t)) = read_events t @ sy_queue s (in_chan (tk_env t))"
  using assms unfolding order_ok_def by blast+

lemma order_okI:
  assumes "\<And>c. (\<And>rid t. sy_tasks s rid = Some t \<Longrightarrow> in_chan (tk_env t) = c \<Longrightarrow> \<not> registered_phase (tk_phase t)) \<Longrightarrow>
      sent c = [] \<and> sy_queue s c = []"
    and "\<And>rid t. sy_tasks s rid = Some t \<Longrightarrow> read_ok H (tk_phase t) t \<and>
       (\<exists>rest. sent (in_chan (tk_env t)) = read_events t @ rest) \<and>
       (live (tk_phase t) \<longrightarrow> sent (in_chan (tk_env t)) = read_events t @ sy_queue s (in_chan (tk_env t)))"
  shows "order_ok H s sent"
  using assms unfolding order_ok_def by blast

lemma order_ok_frame:
  assumes "order_ok H s sent" and "sy_tasks s' = sy_tasks s" and "sy_queue s' = sy_queue s"
  shows "order_ok H s' sent"
  using assms by (simp add: order_ok_def)

lemma order_ok_arrive:
  assumes "order_ok H s sent" and "fresh rid c s" and "\<not> live ph"
    and "ph = SendStart \<or> ph = Finished (simple_response 502 msg)"
  shows "order_ok H (s\<lparr>sy_tasks := (sy_tasks s)(rid \<mapsto> new_task rq a rid c n ph)\<rparr>) sent"
proof -
  have none: "sent c = [] \<and> sy_queue s c = []"
    by (rule order_okD(1) [OF assms(1)]) (use assms(2) in \<open>auto simp: fresh_def\<close>)
  show ?thesis
  proof (rule order_okI)
    fix d
    assume "\<And>r t. sy_tasks (s\<lparr>sy_tasks := (sy_tasks s)(rid \<mapsto> new_task rq a rid c n ph)\<rparr>) r = Some t \<Longrightarrow>
      in_chan (tk_env t) = d \<Longrightarrow> \<not> registered_phase (tk_phase t)"
    then have "sent d = [] \<and> sy_queue s d = []"
      using assms(2) by (intro order_okD(1) [OF assms(1)]) (metis fresh_def fun_upd_other option.distinct(1) system.select_convs(3) system.surjective system.update_convs(3))
    then show "sent d = [] \<and> sy_queue (s\<lparr>sy_tasks := (sy_tasks s)(rid \<mapsto> new_task rq a rid c n ph)\<rparr>) d = []" by simp
  qed (use assms none order_okD(2-4) [OF assms(1)] in \<open>auto split: if_splits\<close>)
qed

lemma sent_by_task [simp]: "sent_by s (LTask rid) c = []" "sent_by s (LClient rid) c = []"
    "sent_by s LOther c = []" "sent_by s LTick c = []"
  by (simp_all add: sent_by_def)


lemma read_ok_recorded [simp]: "read_ok H ph (recorded t acts) = read_ok H ph t"
  by (cases ph) (simp_all add: read_events_def)

lemma read_events_recorded [simp]: "read_events (recorded t acts) = read_events t"
  by (simp add: read_events_def)

lemma order_ok_handler:
  assumes "order_ok H s sent" and "sys_ok s" and "sy_tasks s rid = Some t" and "task_step J H s t acts took t'"
  shows "order_ok H (after_task rid acts took t' s) sent"
proof -
  note D = order_okD [OF assms(1)] and S = sys_okD [OF assms(2)] and keep = task_keeps(2) [OF assms(4)]
  let ?c = "in_chan (tk_env t)" and ?s = "after_task rid acts took t' s"
  have "live (tk_phase t) \<Longrightarrow> recv s ?c \<noteq> Some None"
    using live_not_closed [OF assms(2), of rid] assms(3) by (simp add: owned_def)
  note reads = step_reads [OF assms(4) D(2) [OF assms(3)] this]
  have effect: "registered_phase (tk_phase t) \<Longrightarrow> registered_phase (tk_phase t')" "took \<Longrightarrow> live (tk_phase t)"
    "live (tk_phase t') \<Longrightarrow> live (tk_phase t) \<or> tk_phase t = Register \<and> \<not> took"
    using assms(4) by (cases rule: task_effect; auto)+
  have alone: "r = rid" if "sy_tasks s r = Some u" "in_chan (tk_env u) = ?c" for r u
    using S(4) [OF that(1) assms(3)] that(2) .
  show ?thesis
  proof (rule order_okI)
    fix d
    assume none: "\<And>r u. sy_tasks ?s r = Some u \<Longrightarrow> in_chan (tk_env u) = d \<Longrightarrow> \<not> registered_phase (tk_phase u)"
    have "\<not> registered_phase (tk_phase u)" if "sy_tasks s r = Some u" "in_chan (tk_env u) = d" for r u
    proof (cases "r = rid")
      case True
      with that assms(3) none [of rid "recorded t' acts"] keep effect(1) show ?thesis by (auto simp: after_task_sel)
    qed (use that none [of r u] in \<open>simp add: after_task_sel\<close>)
    from D(1) [OF this] show "sent d = [] \<and> sy_queue ?s d = []" by (simp add: after_task_sel)
  next
    fix r u assume u: "sy_tasks ?s r = Some u"
    show "read_ok H (tk_phase u) u \<and> (\<exists>rest. sent (in_chan (tk_env u)) = read_events u @ rest) \<and>
       (live (tk_phase u) \<longrightarrow> sent (in_chan (tk_env u)) = read_events u @ sy_queue ?s (in_chan (tk_env u)))"
    proof (cases "r = rid")
      case False
      with u have "sy_tasks s r = Some u" by (simp add: after_task_sel)
      moreover from this False alone have "in_chan (tk_env u) \<noteq> ?c" by blast
      ultimately show ?thesis using D(2-4) by (simp add: after_task_sel keep)
    next
      case True
      with u have u': "u = recorded t' acts" by (simp add: after_task_sel)
      have q: "sy_queue ?s ?c = (if took then tl (sy_queue s ?c) else sy_queue s ?c)"
        by (simp add: after_task_sel keep)
      have new: "sent ?c = [] \<and> sy_queue s ?c = [] \<and> read_events t = []" if "tk_phase t = Register"
      proof -
        have "\<not> registered_phase (tk_phase u)" if "sy_tasks s r = Some u" "in_chan (tk_env u) = ?c" for r u
          using alone [OF that] that(1) assms(3) \<open>tk_phase t = Register\<close> by simp
        with D(1) [of ?c] D(2) [OF assms(3)] that show ?thesis
          by (simp add: read_events_def map_filter_simps)
      qed
      show ?thesis
        using reads D(3,4) [OF assms(3)] effect(2,3) new by (auto simp: u' keep q split: if_splits)
    qed
  qed
qed

lemma order_ok_drop:
  assumes "order_ok H s sent" and "sys_ok s" and "sy_tasks s rid = Some t" and "waits (tk_phase t)"
  shows "order_ok H (after_task rid [] False (t\<lparr>tk_phase := Dropped\<rparr>) s) sent"
proof -
  note D = order_okD [OF assms(1)]
  let ?s = "after_task rid [] False (t\<lparr>tk_phase := Dropped\<rparr>) s"
  have q: "sy_queue ?s = sy_queue s" by (simp add: after_task_def Let_def)
  have reg: "registered_phase (tk_phase t)" using assms(4) by (cases "tk_phase t") simp_all
  show ?thesis
  proof (rule order_okI, unfold q)
    fix d
    assume none: "\<And>r u. sy_tasks ?s r = Some u \<Longrightarrow> in_chan (tk_env u) = d \<Longrightarrow> \<not> registered_phase (tk_phase u)"
    have "\<not> registered_phase (tk_phase u)" if "sy_tasks s r = Some u" "in_chan (tk_env u) = d" for r u
    proof (cases "r = rid")
      case True
      with that assms(3) none [of rid "recorded (t\<lparr>tk_phase := Dropped\<rparr>) []"] show ?thesis
        by (auto simp: after_task_sel)
    qed (use that none [of r u] in \<open>simp add: after_task_sel\<close>)
    from D(1) [OF this] show "sent d = [] \<and> sy_queue s d = []" .
  next
    fix r u assume "sy_tasks ?s r = Some u"
    then show "read_ok H (tk_phase u) u \<and> (\<exists>rest. sent (in_chan (tk_env u)) = read_events u @ rest) \<and>
       (live (tk_phase u) \<longrightarrow> sent (in_chan (tk_env u)) = read_events u @ sy_queue s (in_chan (tk_env u)))"
      using D(2-4) assms(3) read_events_env [of "t\<lparr>tk_phase := Dropped\<rparr>" t]
      by (auto simp: after_task_sel split: if_splits)
  qed
qed

lemma order_ok_sent:
  assumes "order_ok H s sent" and "sys_ok s" and "c \<in> sy_rx s"
    and "sy_tasks s' = sy_tasks s" and "sy_queue s' = (sy_queue s)(c := sy_queue s c @ [ev])"
  shows "order_ok H s' (\<lambda>d. sent d @ (if c = d then [ev] else []))"
proof -
  note D = order_okD [OF assms(1)]
  from sys_okD(7) [OF assms(2)] assms(3) obtain rid t where
    t: "sy_tasks s rid = Some t" "in_chan (tk_env t) = c" "live (tk_phase t)"
    by (auto simp: owned_def split: option.splits)
  have reg: "registered_phase (tk_phase t)" using live_holds t(3) by blast
  have only: "u = t" if "sy_tasks s r = Some u" "in_chan (tk_env u) = c" for r u
    using sys_okD(4) [OF assms(2) that(1) t(1)] that t by simp
  show ?thesis
  proof (rule order_okI, unfold assms(4,5))
    fix d
    assume none: "\<And>r u. sy_tasks s r = Some u \<Longrightarrow> in_chan (tk_env u) = d \<Longrightarrow> \<not> registered_phase (tk_phase u)"
    with t reg have "d \<noteq> c" by blast
    with D(1) [OF none] show "sent d @ (if c = d then [ev] else []) = [] \<and>
        ((sy_queue s)(c := sy_queue s c @ [ev])) d = []" by simp
  qed (use D(2-4) only t(3) in fastforce)
qed

lemma order_ok_step:
  assumes "order_ok H s sent" and "sys_ok s" and "sys_step J H s l s'"
  shows "order_ok H s' (\<lambda>c. sent c @ sent_by s l c)"
  using assms(3)
proof cases
  case (answer_sent conn rid c ev)
  have "sent_by s l = (\<lambda>d. if c = d then [ev] else [])"
    using answer_sent by (auto simp: sent_by_def fun_eq_iff)
  with order_ok_sent [OF assms(1,2) answer_sent(4), of s' ev] answer_sent(2) show ?thesis by simp
next
  case (answer_lost conn rid c ev)
  then have "sent_by s l d = []" for d by (auto simp: sent_by_def)
  with answer_lost order_ok_frame [OF assms(1), of s'] show ?thesis by simp
next
  case (handler rid t acts took t')
  with order_ok_handler [OF assms(1,2)] show ?thesis by simp
next
  case (client_leaves rid t)
  with order_ok_drop [OF assms(1,2)] show ?thesis by simp
next
  case (arrive_unknown rq rid c)
  with order_ok_arrive [OF assms(1)] show ?thesis by simp
next
  case (arrive rq a rid c)
  with order_ok_arrive [OF assms(1)] show ?thesis by simp
qed (use order_ok_frame [OF assms(1), of s'] in \<open>simp_all add: sent_by_def\<close>)

lemma order_ok_traced: "sys_traced J H s sent \<Longrightarrow> order_ok H s sent"
proof (induction rule: sys_traced.induct)
  case traced_init
  show ?case by (simp add: order_ok_def new_system_def)
next
  case (traced_next s sent l s')
  then show ?case using order_ok_step sys_ok_reachable traced_reachable by blast
qed


section \<open>The order of a response\<close>

text \<open>
  C5: a response is what was sent for it, in order. In every reachable system, whatever other
  requests, sessions and clients do and however long they wait for each other, a finished handler has
  either given a plain 502 or 504, or the events that agent sessions put on its channel begin with
  chunks, a start, more chunks or starts and a terminal event; the status and the headers of the
  response are those of that start and its body is exactly those chunks in their order.
\<close>

theorem response_in_order:
  assumes "sys_traced J H s sent" and "sy_tasks s rid = Some t" and "tk_phase t = Finished rsp"
  shows "plain_failure rsp \<or>
    (\<exists>pre status headers post ev rest.
       sent (in_chan (tk_env t)) = map EvBody pre @ EvStart status headers # post @ ev # rest \<and>
       list_all (\<lambda>x. \<not> terminal x) post \<and> terminal ev \<and> rsp = response_of H pre status headers post)"
proof -
  note D = order_okD [OF order_ok_traced [OF assms(1)]]
  from D(3) [OF assms(2)] obtain rest where "sent (in_chan (tk_env t)) = read_events t @ rest" by blast
  moreover from D(2) [OF assms(2)] have "plain_failure rsp \<or>
     (\<exists>pre status headers post ev. read_events t = map EvBody pre @ EvStart status headers # post @ [ev] \<and>
        list_all (\<lambda>ev. \<not> terminal ev) post \<and> terminal ev \<and> rsp = response_of H pre status headers post)"
    by (simp add: assms(3))
  ultimately show ?thesis by (metis append.assoc append_Cons append_Nil)
qed

section \<open>The end of a response\<close>

text \<open>The same run with a record of every event put on a response channel, with the session that put it.\<close>

definition logged_by :: "'t system \<Rightarrow> label \<Rightarrow> (uuid \<times> chan \<times> relay_event) list" where
  "logged_by s l =
    (case l of
       LAgent conn \<Rightarrow>
         (case tbl_get (sy_sending s) conn of
            Some (rid, c, ev) \<Rightarrow> if c \<in> sy_rx s then [(conn, c, ev)] else []
          | None \<Rightarrow> [])
     | _ \<Rightarrow> [])"

inductive sys_logged :: "'t json \<Rightarrow> http_lib \<Rightarrow> 't system \<Rightarrow> (uuid \<times> chan \<times> relay_event) list \<Rightarrow> bool" for J H where
  logged_init: "sys_logged J H (new_system tokens timeout) []"
| logged_next: "sys_logged J H s log \<Longrightarrow> sys_step J H s l s' \<Longrightarrow> sys_logged J H s' (log @ logged_by s l)"

lemma logged_reachable: "sys_logged J H s log \<Longrightarrow> sys_reachable J H s"
  by (induction rule: sys_logged.induct) (auto intro: sys_reachable.intros)

lemma reachable_logged: "sys_reachable J H s \<Longrightarrow> \<exists>log. sys_logged J H s log"
  by (induction rule: sys_reachable.induct) (blast intro: sys_logged.intros)+

text \<open>
  Why a terminal event is the only one: its sender was taken out of the table with the entry, so while
  it is on its way or on the channel there is no entry with this channel, and no other session is on
  its way with one.
\<close>

definition after_end :: "(uuid \<times> chan \<times> relay_event) list \<Rightarrow> bool" where
  "after_end log \<longleftrightarrow> (\<forall>xs k c ev ys. log = xs @ (k, c, ev) # ys \<longrightarrow> terminal ev \<longrightarrow>
     (\<forall>(k', c', ev')\<in>set ys. c' = c \<longrightarrow> \<not> terminal ev' \<and> k' \<noteq> k))"

definition no_entry :: "'t system \<Rightarrow> chan \<Rightarrow> bool" where
  "no_entry s c \<longleftrightarrow> (\<forall>r. tbl_get (inflight (sy_app s)) r \<noteq> Some c)"

definition on_way :: "'t system \<Rightarrow> uuid \<Rightarrow> chan \<Rightarrow> relay_event \<Rightarrow> bool" where
  "on_way s conn c ev \<longleftrightarrow> (\<exists>rid. tbl_get (sy_sending s) conn = Some (rid, c, ev))"

definition log_ok :: "'t system \<Rightarrow> (uuid \<times> chan \<times> relay_event) list \<Rightarrow> bool" where
  "log_ok s log \<longleftrightarrow> after_end log \<and>
    (\<forall>k c ev. (k, c, ev) \<in> set log \<longrightarrow> (\<exists>rid. owned s rid c registered_phase)) \<and>
    (\<forall>k c ev. (k, c, ev) \<in> set log \<longrightarrow> terminal ev \<longrightarrow> no_entry s c) \<and>
    (\<forall>k c ev conn e. (k, c, ev) \<in> set log \<longrightarrow> terminal ev \<longrightarrow> on_way s conn c e \<longrightarrow> \<not> terminal e \<and> conn \<noteq> k) \<and>
    (\<forall>conn c e. on_way s conn c e \<longrightarrow> terminal e \<longrightarrow> no_entry s c) \<and>
    (\<forall>c1 c2 c e1 e2. on_way s c1 c e1 \<longrightarrow> terminal e1 \<longrightarrow> on_way s c2 c e2 \<longrightarrow> terminal e2 \<longrightarrow> c1 = c2)"

lemma log_okD:
  assumes "log_ok s log"
  shows "after_end log" and "(k, c, ev) \<in> set log \<Longrightarrow> \<exists>rid. owned s rid c registered_phase"
    and "(k, c, ev) \<in> set log \<Longrightarrow> terminal ev \<Longrightarrow> no_entry s c"
    and "(k, c, ev) \<in> set log \<Longrightarrow> terminal ev \<Longrightarrow> on_way s conn c e \<Longrightarrow> \<not> terminal e \<and> conn \<noteq> k"
    and "on_way s conn c e \<Longrightarrow> terminal e \<Longrightarrow> no_entry s c"
    and "on_way s c1 c e1 \<Longrightarrow> terminal e1 \<Longrightarrow> on_way s c2 c e2 \<Longrightarrow> terminal e2 \<Longrightarrow> c1 = c2"
  using assms unfolding log_ok_def by blast+

lemma after_end_snoc:
  assumes "after_end log" and "\<And>k' ev'. (k', c, ev') \<in> set log \<Longrightarrow> terminal ev' \<Longrightarrow> \<not> terminal ev \<and> k \<noteq> k'"
  shows "after_end (log @ [(k, c, ev)])"
  unfolding after_end_def
proof (intro allI impI)
  fix xs k0 c0 e0 ys
  assume eq: "log @ [(k, c, ev)] = xs @ (k0, c0, e0) # ys" and t: "terminal e0"
  show "\<forall>(k', c', ev')\<in>set ys. c' = c0 \<longrightarrow> \<not> terminal ev' \<and> k' \<noteq> k0"
  proof (cases ys rule: rev_cases)
    case (snoc zs z)
    with eq have log: "log = xs @ (k0, c0, e0) # zs" and z: "z = (k, c, ev)" by auto
    have "\<forall>(k', c', ev')\<in>set zs. c' = c0 \<longrightarrow> \<not> terminal ev' \<and> k' \<noteq> k0"
      using assms(1) log t unfolding after_end_def by blast
    moreover have "c = c0 \<longrightarrow> \<not> terminal ev \<and> k \<noteq> k0" using assms(2) [of k0 e0] t log by auto
    ultimately show ?thesis by (auto simp: snoc z)
  qed simp
qed

lemma on_way_owned: "sys_ok s \<Longrightarrow> on_way s conn c ev \<Longrightarrow> \<exists>rid. owned s rid c registered_phase"
  unfolding on_way_def using sys_okD(6) by blast

text \<open>Steps that add no entry with a channel that was in use and change no sending session keep this.\<close>

lemma log_ok_frame:
  assumes "log_ok s log" and "sys_ok s" and "sy_sending s' = sy_sending s"
    and "\<And>rid c. owned s rid c registered_phase \<Longrightarrow> owned s' rid c registered_phase"
    and "\<And>rid c. owned s rid c registered_phase \<Longrightarrow> no_entry s c \<Longrightarrow> no_entry s' c"
  shows "log_ok s' log"
proof -
  note D = log_okD [OF assms(1)]
  have way: "on_way s' = on_way s" by (simp add: on_way_def fun_eq_iff assms(3))
  show ?thesis unfolding log_ok_def way
  proof (intro conjI allI impI)
    fix k c ev assume log: "(k, c, ev) \<in> set log"
    then show "\<exists>rid. owned s' rid c registered_phase" using D(2) assms(4) by blast
    assume "terminal ev"
    with log show "no_entry s' c" using D(2,3) assms(5) by blast
  next
    fix conn c e assume "on_way s conn c e" and "terminal e"
    then show "no_entry s' c" using D(5) on_way_owned [OF assms(2)] assms(5) by blast
  qed (use D(1,4,6) in blast)+
qed

text \<open>An entry that has a sender in the table, or is removed, makes no entry for a channel.\<close>

lemma no_entry_remove: "no_entry s c \<Longrightarrow> no_entry (s\<lparr>sy_app := remove_inflight rid (sy_app s), sy_sending := x\<rparr>) c"
  by (simp add: no_entry_def infl.get_del)

lemma log_ok_handler:
  assumes "log_ok s log" and "sys_ok s" and "sy_tasks s rid = Some t" and "task_step J H s t acts took t'"
  shows "log_ok (after_task rid acts took t' s) log"
proof (rule log_ok_frame [OF assms(1,2)])
  let ?s = "after_task rid acts took t' s"
  note keep = task_keeps(2) [OF assms(4)]
  have own': "owned ?s r d P \<longleftrightarrow> (if r = rid then in_chan (tk_env t) = d \<and> P (tk_phase t') else owned s r d P)" for r d P
    by (rule owned_after) (simp add: keep)
  have reg: "registered_phase (tk_phase t')" if "registered_phase (tk_phase t)"
    using assms(4) that by (cases rule: task_effect) auto
  show "owned ?s r c registered_phase" if "owned s r c registered_phase" for r c
    using that assms(3) reg unfolding own' by (auto simp: owned_def)
  show "no_entry ?s c" if own: "owned s r c registered_phase" and none: "no_entry s c" for r c
    using assms(4)
  proof (cases rule: task_effect)
    case enter
    have "in_chan (tk_env t) \<noteq> c"
    proof
      assume "in_chan (tk_env t) = c"
      then have "owned s rid c (\<lambda>_. True)" using assms(3) by (simp add: owned_def)
      with sys_ok_owner [OF assms(2) own] have "r = rid" by blast
      with own assms(3) enter(3) show False by (simp add: owned_def)
    qed
    with none enter(1) show ?thesis
      by (simp add: no_entry_def after_task_sel fst_andthen skip_def infl.get_put)
  next
    case silent
    with none show ?thesis by (simp add: no_entry_def after_task_sel skip_def)
  next
    case leave
    with none show ?thesis by (simp add: no_entry_def after_task_sel fst_andthen skip_def infl.get_del)
  qed
qed (simp add: after_task_sel)

lemma log_ok_found:
  assumes "log_ok s log" and "sys_ok s" and "tbl_get (inflight (sy_app s)) rid = Some c"
    and "tbl_get (sy_sending s) conn = None"
  shows "log_ok (s\<lparr>sy_app := (if terminal ev then remove_inflight rid (sy_app s) else sy_app s),
     sy_sending := tbl_insert conn (rid, c, ev) (sy_sending s)\<rparr>) log" (is "log_ok ?s log")
proof -
  note D = log_okD [OF assms(1)]
  have own: "owned ?s = owned s" by simp
  have way: "on_way ?s k d e \<longleftrightarrow> (if k = conn then d = c \<and> e = ev else on_way s k d e)" for k d e
    by (auto simp: on_way_def table_simps)
  have entry: "\<not> no_entry s c" using assms(3) by (auto simp: no_entry_def)
  have kept: "no_entry s d \<Longrightarrow> no_entry ?s d" for d by (auto simp: no_entry_def infl.get_del)
  have taken: "no_entry ?s c" if "terminal ev"
  proof -
    have "owned s rid c holds_entry" by (rule sys_okD(5) [OF assms(2,3)])
    then have "r = rid" if "tbl_get (inflight (sy_app s)) r = Some c" for r
      using sys_ok_owner [OF assms(2) sys_okD(5) [OF assms(2) that]] by blast
    with that show ?thesis by (auto simp: no_entry_def infl.get_del)
  qed
  show ?thesis unfolding log_ok_def own
  proof (intro conjI allI impI)
    fix k d e conn' e' assume "(k, d, e) \<in> set log" "terminal e" "on_way ?s conn' d e'"
    moreover from this D(3) entry have "conn' \<noteq> conn" by (auto simp: way)
    ultimately show "\<not> terminal e'" "conn' \<noteq> k" using D(4) [of k d e conn' e'] by (simp_all add: way)
  next
    fix conn' d e assume "on_way ?s conn' d e" "terminal e"
    then show "no_entry ?s d" using D(5) [of conn' d e] kept taken unfolding way by (cases "conn' = conn") simp_all
  next
    fix k1 k2 d e1 e2 assume "on_way ?s k1 d e1" "terminal e1" "on_way ?s k2 d e2" "terminal e2"
    then show "k1 = k2" using D(5) [of k1 d e1] D(5) [of k2 d e2] D(6) [of k1 d e1 k2 e2] entry
      unfolding way by (cases "k1 = conn"; cases "k2 = conn") simp_all
  qed (use D(1-3) kept in blast)+
qed

lemma log_ok_sent:
  assumes "log_ok s log" and "sys_ok s" and "tbl_get (sy_sending s) conn = Some (rid, c, ev)"
  shows "log_ok (s\<lparr>sy_queue := q, sy_sending := tbl_remove conn (sy_sending s)\<rparr>) (log @ [(conn, c, ev)])"
    (is "log_ok ?s _")
proof -
  note D = log_okD [OF assms(1)]
  have own: "owned ?s = owned s" by simp
  have mine: "on_way s conn c ev" using assms(3) by (auto simp: on_way_def)
  have way: "on_way ?s k d e \<longleftrightarrow> k \<noteq> conn \<and> on_way s k d e" for k d e
    by (auto simp: on_way_def table_simps)
  have none: "no_entry ?s = no_entry s" by (simp add: no_entry_def fun_eq_iff)
  have reg: "owned s rid c registered_phase" by (rule sys_okD(6) [OF assms(2,3)])
  show ?thesis unfolding log_ok_def own none way
  proof (intro conjI allI impI)
    show "after_end (log @ [(conn, c, ev)])" by (rule after_end_snoc [OF D(1)]) (use D(4) mine in blast)
  next
    fix k d e conn' e' assume log: "(k, d, e) \<in> set (log @ [(conn, c, ev)])" "terminal e" and w: "conn' \<noteq> conn \<and> on_way s conn' d e'"
    from log(1) show "\<not> terminal e'" using D(4) D(6) mine w log(2) by auto
    from log(1) show "conn' \<noteq> k" using D(4) [of k d e conn' e'] w log(2) by auto
  qed (use D(2,3,5,6) reg mine in auto)
qed

lemma log_ok_lost:
  assumes "log_ok s log" and "tbl_get (sy_sending s) conn = Some (rid, c, ev)"
  shows "log_ok (s\<lparr>sy_app := (if terminal ev then sy_app s else remove_inflight rid (sy_app s)),
     sy_sending := tbl_remove conn (sy_sending s)\<rparr>) log" (is "log_ok ?s log")
proof -
  note D = log_okD [OF assms(1)]
  have own: "owned ?s = owned s" by simp
  have way: "on_way ?s k d e \<longleftrightarrow> k \<noteq> conn \<and> on_way s k d e" for k d e
    by (auto simp: on_way_def table_simps)
  have kept: "no_entry s d \<Longrightarrow> no_entry ?s d" for d by (auto simp: no_entry_def infl.get_del)
  show ?thesis unfolding log_ok_def own way
    by (intro conjI allI impI) (use D kept in blast)+
qed

lemma log_ok_step:
  assumes "log_ok s log" and "sys_ok s" and "sys_step J H s l s'"
  shows "log_ok s' (log @ logged_by s l)"
  using assms(3)
proof cases
  case (handler rid t acts took t')
  with log_ok_handler [OF assms(1,2)] show ?thesis by (simp add: logged_by_def)
next
  case (answer_found conn op rid ev c)
  with log_ok_found [OF assms(1,2)] show ?thesis by (simp add: logged_by_def)
next
  case (answer_sent conn rid c ev)
  with log_ok_sent [OF assms(1,2) answer_sent(3)] show ?thesis by (simp add: logged_by_def)
next
  case (answer_lost conn rid c ev)
  with log_ok_lost [OF assms(1)] show ?thesis by (simp add: logged_by_def)
next
  case (client_leaves rid t)
  have "log_ok s' log"
    by (rule log_ok_frame [OF assms(1,2)])
       (use client_leaves in \<open>auto simp: after_task_sel owned_after no_entry_def skip_def owned_def\<close>)
  then show ?thesis by (simp add: client_leaves logged_by_def)
next
  case (session_acts conn op rx)
  have "log_ok s' log"
    by (rule log_ok_frame [OF assms(1,2)])
       (use session_acts in \<open>auto simp: no_entry_def session_op_inflight [OF _ sys_okD(1) [OF assms(2)]]\<close>)
  then show ?thesis by (simp add: session_acts logged_by_def)
next
  case (tunnel_acts op rx)
  have "log_ok s' log"
    by (rule log_ok_frame [OF assms(1,2)])
       (use tunnel_acts in \<open>auto simp: no_entry_def tunnel_op_inflight [OF _ sys_okD(1) [OF assms(2)]]\<close>)
  then show ?thesis by (simp add: tunnel_acts logged_by_def)
next
  case (arrive_unknown rq rid c)
  have "log_ok s' log"
    by (rule log_ok_frame [OF assms(1,2)]) (use arrive_unknown in \<open>auto simp: no_entry_def owned_upd fresh_def owned_def split: option.splits\<close>)
  then show ?thesis by (simp add: arrive_unknown logged_by_def)
next
  case (arrive rq a rid c)
  have "log_ok s' log"
    by (rule log_ok_frame [OF assms(1,2)]) (use arrive in \<open>auto simp: no_entry_def owned_upd fresh_def owned_def split: option.splits\<close>)
  then show ?thesis by (simp add: arrive logged_by_def)
next
  case agent_gone
  have "log_ok s' log"
    by (rule log_ok_frame [OF assms(1,2)]) (simp_all add: agent_gone no_entry_def)
  then show ?thesis by (simp add: agent_gone logged_by_def)
next
  case tick
  have "log_ok s' log"
    by (rule log_ok_frame [OF assms(1,2)]) (simp_all add: tick no_entry_def)
  then show ?thesis by (simp add: tick logged_by_def)
qed (use assms(1) in \<open>simp add: logged_by_def\<close>)

lemma log_ok_logged: "sys_logged J H s log \<Longrightarrow> log_ok s log"
proof (induction rule: sys_logged.induct)
  case logged_init
  show ?case by (simp add: log_ok_def after_end_def on_way_def new_system_def)
next
  case (logged_next s log l s')
  then show ?case using log_ok_step sys_ok_reachable logged_reachable by blast
qed

text \<open>
  C17: a response is ended once. In every run, once a session has put a terminal event on a response
  channel, no session puts another terminal event on it, and that session puts nothing more on it;
  only an event of another session, which had looked the channel up before, can still come after.
\<close>

theorem terminal_event_once:
  assumes "sys_logged J H s log" and "log = xs @ (k, c, ev) # ys" and "terminal ev"
  shows "\<forall>(k', c', ev')\<in>set ys. c' = c \<longrightarrow> \<not> terminal ev' \<and> k' \<noteq> k"
  using log_okD(1) [OF log_ok_logged [OF assms(1)]] assms(2,3) unfolding after_end_def by blast

text \<open>The exception is possible: a chunk that its session had looked up comes after another session's end.\<close>

lemma late_chunk:
  fixes J :: "'t json"
  assumes "sys_logged J H s log" and "tbl_get (inflight (sy_app s)) rid = Some c" and "c \<in> sy_rx s"
    and "sy_sending s = []" and "length (sy_queue s c) + 1 < CHANNEL_CAPACITY" and "k1 \<noteq> k2"
  shows "\<exists>s'. sys_logged J H s' (log @ [(k1, c, EvEnd), (k2, c, EvBody b)])"
proof -
  define s1 where "s1 = s\<lparr>sy_app := sy_app s, sy_sending := tbl_insert k2 (rid, c, EvBody b) []\<rparr>"
  define s2 where "s2 = s1\<lparr>sy_app := remove_inflight rid (sy_app s1), sy_sending := tbl_insert k1 (rid, c, EvEnd) (sy_sending s1)\<rparr>"
  define s3 where "s3 = s2\<lparr>sy_queue := (sy_queue s2)(c := sy_queue s2 c @ [EvEnd]), sy_sending := tbl_remove k1 (sy_sending s2)\<rparr>"
  define s4 where "s4 = s3\<lparr>sy_queue := (sy_queue s3)(c := sy_queue s3 c @ [EvBody b]), sy_sending := tbl_remove k2 (sy_sending s3)\<rparr>"
  have "sys_step J H s (LAgent k2) s1"
    using answer_found [of s k2 "SNotifyBody rid b" rid "EvBody b" c J H] assms(2,4)
    by (simp add: s1_def terminal_def tbl_get_def)
  moreover have "sys_step J H s1 (LAgent k1) s2"
    using answer_found [of s1 k1 "SNotifyEnd rid" rid EvEnd c J H] assms(2,6)
    by (simp add: s2_def s1_def terminal_def table_simps)
  moreover have two: "tbl_get (sy_sending s2) k1 = Some (rid, c, EvEnd)" "tbl_get (sy_sending s3) k2 = Some (rid, c, EvBody b)"
    using assms(6) by (simp_all add: s3_def s2_def s1_def table_simps)
  moreover have "sys_step J H s2 (LAgent k1) s3"
    unfolding s3_def by (rule answer_sent [OF two(1)]) (use assms(3,5) in \<open>simp_all add: s2_def s1_def\<close>)
  moreover have "sys_step J H s3 (LAgent k2) s4"
    unfolding s4_def by (rule answer_sent [OF two(2)]) (use assms(3,5) in \<open>simp_all add: s3_def s2_def s1_def\<close>)
  moreover have "logged_by s (LAgent k2) = []" "logged_by s1 (LAgent k1) = []" "logged_by s2 (LAgent k1) = [(k1, c, EvEnd)]"
    "logged_by s3 (LAgent k2) = [(k2, c, EvBody b)]"
    using assms(3,4,6) two by (simp_all add: logged_by_def s3_def s2_def s1_def table_simps)
  ultimately show ?thesis
    using assms(1) logged_next [of J H s log "LAgent k2" s1] logged_next [of J H s1 log "LAgent k1" s2]
      logged_next [of J H s2 log "LAgent k1" s3] logged_next [of J H s3 "log @ [(k1, c, EvEnd)]" "LAgent k2" s4]
    by auto
qed

theorem terminal_event_once_witness:
  "\<exists>s log. sys_logged plain_json plain_http s (log @ [(1, 30, EvEnd), (2, 30, EvBody [1])]) \<and>
     (\<forall>(k', c', ev')\<in>set [(2 :: uuid, 30 :: chan, EvBody [1])]. c' = 30 \<longrightarrow> \<not> terminal ev' \<and> k' \<noteq> 1)"
proof (rule sample_wait)
  fix t and s :: "control_message system"
  assume r: "sys_reachable plain_json plain_http s" and entry: "tbl_get (inflight (sy_app s)) 7 = Some 30"
    and q: "sy_queue s = (\<lambda>_. [])" and sd: "sy_sending s = []" and rx: "30 \<in> sy_rx s"
  obtain log where log: "sys_logged plain_json plain_http s log" using reachable_logged [OF r] by blast
  have "(1 :: uuid) \<noteq> 2" by simp
  from late_chunk [OF log entry rx sd _ this, of "[1]"]
  obtain s' where s': "sys_logged plain_json plain_http s' (log @ [(1, 30, EvEnd), (2, 30, EvBody [1])])"
    by (auto simp: q CHANNEL_CAPACITY_def)
  from terminal_event_once [OF s' refl] s' show ?thesis by (auto simp: terminal_def)
qed

lemma reach_answer:
  assumes "sys_reachable J H s" and "tbl_get (sy_sending s) conn = None" and "event_of op = Some (rid, ev)"
    and "tbl_get (inflight (sy_app s)) rid = Some c" and "c \<in> sy_rx s" and "length (sy_queue s c) < CHANNEL_CAPACITY"
  shows "sys_reachable J H (s\<lparr>sy_app := (if terminal ev then remove_inflight rid (sy_app s) else sy_app s),
    sy_queue := (sy_queue s)(c := sy_queue s c @ [ev])\<rparr>)"
proof -
  let ?s = "s\<lparr>sy_app := (if terminal ev then remove_inflight rid (sy_app s) else sy_app s),
     sy_sending := tbl_insert conn (rid, c, ev) (sy_sending s)\<rparr>"
  have r: "sys_reachable J H ?s" by (rule sys_next [OF assms(1) answer_found [OF assms(2-4)]])
  have sending: "tbl_get (sy_sending ?s) conn = Some (rid, c, ev)" by (simp add: table_simps)
  from sys_next [OF r answer_sent [OF sending]] assms(5,6) show ?thesis
    by (simp add: tbl_remove_insert_new [OF assms(2)])
qed

text \<open>A handler whose channel holds a start, a chunk and the end reads them and finishes.\<close>

lemma reach_finish:
  fixes J :: "'t json"
  assumes "sys_reachable J H s" and "sy_tasks s rid = Some t" and "tk_phase t = Recv t0 []" and "tk_yielded t = []"
    and "sy_queue s (in_chan (tk_env t)) = [EvStart status headers, EvBody b, EvEnd]"
  obtains s' t' rsp where "sys_reachable J H s'" and "sy_tasks s' rid = Some t'" and "tk_phase t' = Finished rsp"
    and "rsp_body rsp = [b]" and "rsp_status rsp = (if status_valid H status then status else 502)" and "in_chan (tk_env t') = in_chan (tk_env t)"
proof -
  let ?c = "in_chan (tk_env t)"
  let ?u1 = "t\<lparr>tk_env := (tk_env t)\<lparr>in_polls := in_polls (tk_env t) @ [(t0, Some (Some (EvStart status headers)))]\<rparr>,
      tk_phase := Yield status headers []\<rparr>"
  let ?s1 = "after_task rid [] True ?u1 s"
  have "task_step J H s t [] True ?u1"
    by (rule poll_start) (simp_all add: assms(3,5) timeout_recv_def recv_def)
  then have r1: "sys_reachable J H ?s1" by (rule reach_handler [OF assms(1,2)])
  let ?t1 = "recorded ?u1 []"
  let ?u2 = "?t1\<lparr>tk_env := (tk_env ?t1)\<lparr>in_events := in_events (tk_env ?t1) @ [Some (EvBody b)]\<rparr>,
      tk_yielded := tk_yielded ?t1 @ [b]\<rparr>"
  let ?s2 = "after_task rid [] True ?u2 ?s1"
  have "task_step J H ?s1 ?t1 [] True ?u2"
    by (rule streamed [of _ status headers]) (simp_all add: recv_def after_task_sel assms(5))
  then have r2: "sys_reachable J H ?s2" by (rule reach_handler [OF r1, rotated]) (simp add: after_task_sel)
  let ?t2 = "recorded ?u2 []"
  let ?rsp = "\<lparr>rsp_status = (if status_valid H status then status else 502),
      rsp_headers = apply_forwarded_headers H [] headers, rsp_body = tk_yielded ?t2, rsp_complete = True\<rparr>"
  let ?u3 = "?t2\<lparr>tk_env := (tk_env ?t2)\<lparr>in_events := in_events (tk_env ?t2) @ [Some EvEnd]\<rparr>, tk_phase := Finished ?rsp\<rparr>"
  let ?a = "[Do (SRemoveInflight (in_rid (tk_env ?t2)))]"
  have "task_step J H ?s2 ?t2 ?a (Some EvEnd \<noteq> None) ?u3"
    by (rule stream_ended) (simp_all add: recv_def after_task_sel assms(5))
  then have r3: "sys_reachable J H (after_task rid ?a True ?u3 ?s2)"
    by (rule_tac reach_handler [OF r2, of _ ?t2]) (simp_all add: after_task_sel)
  show thesis by (rule that [OF r3, of "recorded ?u3 ?a" ?rsp]) (simp_all add: after_task_sel assms(4))
qed

theorem response_in_order_witness:
  "\<exists>s sent t rsp pre status headers post ev rest.
     sys_traced plain_json plain_http s sent \<and> sy_tasks s 7 = Some t \<and> tk_phase t = Finished rsp \<and> rsp_body rsp = [[1]] \<and>
     sent 30 = map EvBody pre @ EvStart status headers # post @ ev # rest \<and> pre @ bodies post = [[1]]"
proof (rule sample_wait)
  fix t and s :: "control_message system"
  assume r: "sys_reachable plain_json plain_http s" and ts: "sy_tasks s = [7 \<mapsto> t]" and ph: "tk_phase t = Top []"
    and ch: "in_chan (tk_env t) = 30" and dl: "deadline t = 30000000000" and st: "tk_started t = 0" and now: "sy_now s = 0"
    and entry: "tbl_get (inflight (sy_app s)) 7 = Some 30" and q: "sy_queue s = (\<lambda>_. [])" and sd: "sy_sending s = []"
    and rx: "30 \<in> sy_rx s"
  let ?s1 = "s\<lparr>sy_queue := (sy_queue s)(30 := [EvStart 200 []])\<rparr>"
  have r1: "sys_reachable plain_json plain_http ?s1"
    using reach_answer [OF r, of 1 "SNotifyStart 7 200 []" 7 "EvStart 200 []" 30] entry rx
    by (simp add: sd q table_simps terminal_def CHANNEL_CAPACITY_def)
  let ?s2 = "s\<lparr>sy_queue := (sy_queue s)(30 := [EvStart 200 [], EvBody [1]])\<rparr>"
  have r2: "sys_reachable plain_json plain_http ?s2"
    using reach_answer [OF r1, of 1 "SNotifyBody 7 [1]" 7 "EvBody [1]" 30] entry rx
    by (simp add: sd table_simps terminal_def CHANNEL_CAPACITY_def)
  let ?s3 = "s\<lparr>sy_app := remove_inflight 7 (sy_app s), sy_queue := (sy_queue s)(30 := [EvStart 200 [], EvBody [1], EvEnd])\<rparr>"
  have r3: "sys_reachable plain_json plain_http ?s3"
    using reach_answer [OF r2, of 1 "SNotifyEnd 7" 7 EvEnd 30] entry rx
    by (simp add: sd table_simps terminal_def CHANNEL_CAPACITY_def)
  let ?u = "t\<lparr>tk_phase := Recv (elapsed ?s3 t) []\<rparr>"
  have "deadline t - elapsed ?s3 t \<noteq> 0" using dl st now by (simp add: elapsed_def)
  from task_step.round_waits [OF ph this]
  have r4: "sys_reachable plain_json plain_http (after_task 7 [] False ?u ?s3)"
    by (rule reach_handler [OF r3, rotated]) (simp add: ts)
  have y: "tk_yielded t = []" using tasks_ok_reachable [OF r, of 7 t] ph by (simp add: ts task_ok_def)
  from reach_finish [OF r4, of 7 "recorded ?u []" "elapsed ?s3 t" 200 "[]" "[1]"] ch y
  obtain s' and t' :: "control_message task" and rsp where s': "sys_reachable plain_json plain_http s'" "sy_tasks s' 7 = Some t'"
    "tk_phase t' = Finished rsp" "rsp_body rsp = [[1]]" "rsp_status rsp = 200" "in_chan (tk_env t') = 30"
    by (auto simp: after_task_sel plain_http_def)
  obtain sent where tr: "sys_traced plain_json plain_http s' sent" using reachable_traced [OF s'(1)] by blast
  have "\<not> plain_failure rsp" using s'(5) by (auto simp: plain_failure_def simple_response_def)
  with response_in_order [OF tr s'(2,3)] obtain pre status headers post ev rest where
    "sent 30 = map EvBody pre @ EvStart status headers # post @ ev # rest" "rsp = response_of plain_http pre status headers post"
    unfolding s'(6) by blast
  moreover from this(2) s'(4) have "pre @ bodies post = [[1]]" by (simp add: response_of_def)
  ultimately show ?thesis using tr s'(2-4) by blast
qed

end
