(* ===== verification/Agent_Proxy.thy ===== *)
theory Agent_Proxy
  imports Relay_Http
begin

text \<open>
  The agent's side of a request to the local server: \<open>local_proxy.rs\<close> (the local URL and the
  headers that pass in each direction) and \<open>inflight.rs\<close> (the table of request bodies still being
  received). The URL library is a parameter. The lemmas join the header filters of relay and agent
  into what the local server and the client finally see, and say what base address and path can
  become.
\<close>

section \<open>Local URLs\<close>

text \<open>The functions of the \<open>url\<close> crate that the agent calls, over an abstract type of URLs.\<close>

record 'u url_lib =
  url_parse :: "string \<Rightarrow> string + 'u"
  url_join :: "'u \<Rightarrow> string \<Rightarrow> string + 'u"
  url_scheme :: "'u \<Rightarrow> string"
  url_set_scheme :: "string \<Rightarrow> 'u \<Rightarrow> 'u option"
  url_path :: "'u \<Rightarrow> string"
  url_set_path :: "string \<Rightarrow> 'u \<Rightarrow> 'u"
  url_clear_query :: "'u \<Rightarrow> 'u"
  url_clear_fragment :: "'u \<Rightarrow> 'u"
  url_to_string :: "'u \<Rightarrow> string"

definition compose_local_url :: "'u url_lib \<Rightarrow> string \<Rightarrow> string \<Rightarrow> string + 'u" where
  "compose_local_url U base path_and_query =
    (let normalized = (if strip_suffix ''/'' base \<noteq> None then base else base @ ''/'')
     in case url_parse U normalized of
          Inl e \<Rightarrow> Inl e
        | Inr base \<Rightarrow>
            (let without_leading_slash = trim_start_char CHR ''/'' path_and_query
             in url_join U base without_leading_slash))"

definition compose_local_ws_url :: "'u url_lib \<Rightarrow> string \<Rightarrow> string \<Rightarrow> string + 'u" where
  "compose_local_ws_url U base path_and_query =
    (case compose_local_url U base path_and_query of
       Inl e \<Rightarrow> Inl e
     | Inr url \<Rightarrow>
        (let s = url_scheme U url;
             scheme = (if s = ''http'' then Inr ''ws''
                       else if s = ''https'' then Inr ''wss''
                       else if s = ''ws'' then Inr ''ws''
                       else if s = ''wss'' then Inr ''wss''
                       else Inl (''unsupported local base scheme for websocket: '' @ s))
         in case scheme of
              Inl e \<Rightarrow> Inl e
            | Inr sc \<Rightarrow>
               (case url_set_scheme U sc url of
                  None \<Rightarrow> Inl ''failed to set websocket scheme''
                | Some url \<Rightarrow> Inr url)))"

section \<open>Headers\<close>

text \<open>The request builder is the list of its headers; \<open>header\<close> appends.\<close>

definition apply_forward_headers :: "http_lib \<Rightarrow> header_map \<Rightarrow> header_list \<Rightarrow> header_map" where
  "apply_forward_headers H req headers =
     req @ copy_headers (\<lambda>(k, v).
       if is_hop_header k \<or> eq_ignore_ascii_case k ''host'' \<or> eq_ignore_ascii_case k ''content-length'' then None
       else case header_name H k of None \<Rightarrow> None
         | Some name \<Rightarrow> (case header_value H v of None \<Rightarrow> None | Some value \<Rightarrow> Some (name, value))) headers"

definition flatten_response_headers :: "http_lib \<Rightarrow> header_map \<Rightarrow> header_list" where
  "flatten_response_headers H headers =
     copy_headers (\<lambda>(name, value).
       if is_hop_header name then None
       else case value_to_str H value of Some v \<Rightarrow> Some (name, v) | None \<Rightarrow> None) headers"

definition should_skip_ws_forward_header :: "string \<Rightarrow> bool" where
  "should_skip_ws_forward_header name \<longleftrightarrow>
    is_hop_header name \<or> eq_ignore_ascii_case name ''host'' \<or> eq_ignore_ascii_case name ''content-length''
      \<or> starts_with (to_ascii_lowercase name) ''sec-websocket-''"

section \<open>Bodies in flight\<close>

text \<open>The agent's two tables: request bodies and WebSocket sessions, by their channels.\<close>

record agent_state =
  ag_inflight :: "(uuid, chan) table"
  ag_ws_sessions :: "(uuid, chan) table"

definition inflight_insert :: "uuid \<Rightarrow> chan \<Rightarrow> agent_state \<Rightarrow> agent_state" where
  "inflight_insert rid tx st = st\<lparr>ag_inflight := tbl_insert rid tx (ag_inflight st)\<rparr>"

definition inflight_get :: "agent_state \<Rightarrow> uuid \<Rightarrow> chan option" where
  "inflight_get st rid = tbl_get (ag_inflight st) rid"

definition inflight_remove :: "uuid \<Rightarrow> agent_state \<Rightarrow> agent_state" where
  "inflight_remove rid st = st\<lparr>ag_inflight := tbl_remove rid (ag_inflight st)\<rparr>"

definition inflight_clear :: "agent_state \<Rightarrow> agent_state" where
  "inflight_clear st = st\<lparr>ag_inflight := []\<rparr>"

definition session_insert :: "uuid \<Rightarrow> chan \<Rightarrow> agent_state \<Rightarrow> agent_state" where
  "session_insert sid tx st = st\<lparr>ag_ws_sessions := tbl_insert sid tx (ag_ws_sessions st)\<rparr>"

definition cleanup_ws_session :: "uuid \<Rightarrow> agent_state \<Rightarrow> agent_state" where
  "cleanup_ws_session sid st = st\<lparr>ag_ws_sessions := tbl_remove sid (ag_ws_sessions st)\<rparr>"

interpretation body: keyed_table inflight_get inflight_insert inflight_remove
  by unfold_locales (simp_all add: fun_eq_iff inflight_get_def inflight_insert_def inflight_remove_def table_simps)

interpretation sess: keyed_table "\<lambda>st. tbl_get (ag_ws_sessions st)" session_insert cleanup_ws_session
  by unfold_locales (simp_all add: session_insert_def cleanup_ws_session_def table_simps)

section \<open>What passes through both filters\<close>

text \<open>
  The law of the header types that the two ends rely on: a name of a header map is a valid header
  name, and a value that reads as text is made from that text again.
\<close>

definition headers_ok :: "http_lib \<Rightarrow> header_map \<Rightarrow> bool" where
  "headers_ok H hs \<longleftrightarrow>
    list_all (\<lambda>(n, b). header_name H n = Some n \<and>
      (case value_to_str H b of None \<Rightarrow> True | Some v \<Rightarrow> header_value H v = Some b)) hs"

lemma relay_agent_headers:
  assumes "headers_ok H hs"
  shows "apply_forward_headers H req (flatten_headers H hs) = req @
    filter (\<lambda>(n, b). \<not> is_hop_header n \<and> \<not> eq_ignore_ascii_case n ''host'' \<and>
      \<not> eq_ignore_ascii_case n ''content-length'' \<and> value_to_str H b \<noteq> None) hs"
  unfolding flatten_headers_def apply_forward_headers_def copy_copy_headers
  using assms
  by (intro arg_cong [where f = "(@) req"] copy_headers_filter)
     (auto simp: headers_ok_def list_all_iff split: option.splits if_splits)

text \<open>
  The headers the local server gets. They are the public client's, byte for byte, in order and
  with repetitions, less exactly the hop-by-hop ones, \<open>Host\<close>, \<open>Content-Length\<close> (in any case) and
  values that are not text: nothing else is lost, changed or added on the way.
\<close>

lemma request_headers_end_to_end:
  assumes "headers_ok H hs"
  shows "apply_forward_headers H [] (flatten_headers H hs) =
    filter (\<lambda>(n, b). to_ascii_lowercase n \<notin> set (''host'' # ''content-length'' # hop_headers) \<and>
      value_to_str H b \<noteq> None) hs"
proof -
  have "eq_ignore_ascii_case n ''host'' \<longleftrightarrow> to_ascii_lowercase n = ''host''"
    and "eq_ignore_ascii_case n ''content-length'' \<longleftrightarrow> to_ascii_lowercase n = ''content-length''" for n
    by (simp_all add: eq_ignore_ascii_case_def to_ascii_lowercase_def ascii_lower_def)
  then show ?thesis
    unfolding relay_agent_headers [OF assms]
    by (auto simp: is_hop_header_def intro!: filter_cong)
qed

lemma sample_headers_ok: "headers_ok plain_http [(''connection'', [107]), (''cookie'', [97]), (''host'', [98])]"
  by (simp add: headers_ok_def plain_http_def as_bytes_def of_bytes_def)

lemma request_headers_end_to_end_witness:
  "apply_forward_headers plain_http []
     (flatten_headers plain_http [(''connection'', [107]), (''cookie'', [97]), (''host'', [98])]) = [(''cookie'', [97])]"
  by (subst request_headers_end_to_end [OF sample_headers_ok])
     (simp add: plain_http_def hop_headers_def to_ascii_lowercase_def ascii_lower_def)

text \<open>
  The headers the public client gets: the local server's, byte for byte and in order, less exactly
  the hop-by-hop ones and values that are not text.
\<close>

lemma response_headers_pass:
  assumes "headers_ok H hs"
  shows "apply_forwarded_headers H [] (flatten_response_headers H hs) =
    filter (\<lambda>(n, b). to_ascii_lowercase n \<notin> set hop_headers \<and> value_to_str H b \<noteq> None) hs"
  unfolding flatten_response_headers_def apply_forwarded_headers_def copy_copy_headers append_Nil
  using assms
  by (intro copy_headers_filter) (auto simp: headers_ok_def list_all_iff is_hop_header_def split: option.splits)

section \<open>What a path can become\<close>

lemma trim_start_char_first: "trim_start_char c s = d # t \<Longrightarrow> d \<noteq> c"
  by (induction s) (auto simp: trim_start_char_def split: if_splits)

lemma compose_local_url_join:
  "compose_local_url U base pq =
    (case url_parse U (if strip_suffix ''/'' base \<noteq> None then base else base @ ''/'') of
       Inl e \<Rightarrow> Inl e | Inr b \<Rightarrow> url_join U b (trim_start_char CHR ''/'' pq))"
  by (simp add: compose_local_url_def Let_def split: sum.split)

text \<open>
  C39: the agent can be sent anywhere. When the library joins an absolute URL to a base as URLs are
  joined (the absolute one replaces the base), a public request for \<open>/t/<id>/<absolute URL>\<close> makes
  the agent call that URL, whatever its local base address is.
\<close>

theorem absolute_path_leaves_base:
  assumes "url_parse U (if strip_suffix ''/'' base \<noteq> None then base else base @ ''/'') = Inr b"
    and "url_join U b url = url_parse U url" and "url \<noteq> []" and "hd url \<noteq> CHR ''/''"
  shows "compose_local_url U base (extract_target_path (Some (''/t/'' @ tid @ ''/'' @ url)) tid tail) = url_parse U url"
proof -
  have "trim_start_char CHR ''/'' (''/'' @ url) = url"
    using assms(3,4) by (cases url) (simp_all add: trim_start_char_def)
  then show ?thesis
    using assms(1,2) extract_prefixed [of tid "''/'' @ url" tail] by (simp add: compose_local_url_join)
qed

text \<open>An instance: URLs are their text; a reference with a colon is absolute, any other is appended.\<close>

definition plain_url :: "string url_lib" where
  "plain_url = \<lparr>url_parse = Inr, url_join = (\<lambda>b r. Inr (if CHR '':'' \<in> set r then r else b @ r)),
     url_scheme = (\<lambda>u. takeWhile (\<lambda>c. c \<noteq> CHR '':'') u),
     url_set_scheme = (\<lambda>s u. Some (s @ dropWhile (\<lambda>c. c \<noteq> CHR '':'') u)),
     url_path = (\<lambda>u. u), url_set_path = (\<lambda>p u. p), url_clear_query = (\<lambda>u. u), url_clear_fragment = (\<lambda>u. u),
     url_to_string = (\<lambda>u. u)\<rparr>"

theorem absolute_path_leaves_base_witness:
  "compose_local_url plain_url ''http://127.0.0.1:3000''
     (extract_target_path (Some (''/t/'' @ ''demo'' @ ''/'' @ ''http://evil/x'')) ''demo'' []) = Inr ''http://evil/x''"
proof -
  have "url_parse plain_url (if strip_suffix ''/'' ''http://127.0.0.1:3000'' \<noteq> None then ''http://127.0.0.1:3000''
      else ''http://127.0.0.1:3000'' @ ''/'') = Inr ''http://127.0.0.1:3000/''"
    by (simp add: plain_url_def strip_suffix_def)
  from absolute_path_leaves_base [OF this, of "''http://evil/x''" "''demo''" "[]"]
  show ?thesis by (simp add: plain_url_def)
qed

text \<open>
  A path can not name another host by itself. What the agent joins to its base never starts
  with a slash, however many the path has, so the reference is neither absolute-path nor
  network-path; and only slashes are dropped.
\<close>

lemma joined_reference_relative:
  "\<exists>n r. pq = replicate n CHR ''/'' @ r \<and> \<not> starts_with r ''/'' \<and>
    compose_local_url U base pq =
      (case url_parse U (if strip_suffix ''/'' base \<noteq> None then base else base @ ''/'') of
         Inl e \<Rightarrow> Inl e | Inr b \<Rightarrow> url_join U b r)"
proof -
  have "takeWhile (\<lambda>x. x = CHR ''/'') pq = replicate (length (takeWhile (\<lambda>x. x = CHR ''/'') pq)) CHR ''/''"
    by (induction pq) auto
  then have "pq = replicate (length (takeWhile (\<lambda>x. x = CHR ''/'') pq)) CHR ''/'' @ trim_start_char CHR ''/'' pq"
    unfolding trim_start_char_def by (metis takeWhile_dropWhile_id)
  moreover have "\<not> starts_with (trim_start_char CHR ''/'' pq) ''/''"
    by (auto simp: starts_with_iff dest: trim_start_char_first)
  ultimately show ?thesis unfolding compose_local_url_join by blast
qed

end
