(* ===== verification/Relay_Session.thy ===== *)
theory Relay_Session
  imports Relay_State
begin

text \<open>
  The relay's end of an agent connection, \<open>crates/relay-server/src/ws_session.rs\<close>:
  \<open>registration\<close> is the start of \<open>handle_socket\<close> up to its loop, as the actions of the task in
  the order the code has them: the insertion into the agent table, the acknowledgement put on the
  connection's channel \<open>out\<close>, the abort of the writer task. \<open>session_loop\<close> is the receive loop over
  the two message handlers, \<open>handle_socket_actions\<close> the actions of a whole session with the
  clean-up at its end, and \<open>open_session\<close> and \<open>handle_socket\<close> what these actions do to the state.
  \<open>writer_run\<close> is the writer task beside a session. The lemmas show who can register, what a message
  can change, what reaches the socket, and that a session that ends frees its tunnel.
\<close>

section \<open>Registration\<close>

definition relay_capabilities :: "string list" where
  "relay_capabilities = [CAP_WS_TUNNEL_V1]"

text \<open>The first read: a result of the stream, its end, or the 10 second timeout.\<close>

datatype 't first_read = FirstRead "'t read" | FirstEnd | FirstTimeout

definition read_register_message :: "'t json \<Rightarrow> 't first_read \<Rightarrow> control_message option" where
  "read_register_message J r =
    (case r of
       FirstRead (ReadMsg (MText text)) \<Rightarrow>
         (case from_str J text of Inr msg \<Rightarrow> Some msg | Inl e \<Rightarrow> None)
     | FirstRead _ \<Rightarrow> None
     | FirstEnd \<Rightarrow> None
     | FirstTimeout \<Rightarrow> None)"

definition register_ack :: "bool \<Rightarrow> string option \<Rightarrow> control_message" where
  "register_ack ok reason = RegisterAck ok reason (Some PROTOCOL_VERSION) relay_capabilities"

text \<open>
  What a session's task does, one action after the other: an operation on the shared state, with the
  receivers that are alive then, a message put on a channel, the abort of the connection's writer task.
\<close>

datatype 't session_action =
    SessDo "chan \<Rightarrow> bool" state_op
  | SessPut "'t relay_out"
  | AbortWriter

fun run_session :: "'t session_action list \<Rightarrow> 't relay_act" where
  "run_session [] st = (st, [])"
| "run_session (SessDo rx op # acts) st =
    (case exec_op rx op st of (st1, o1) \<Rightarrow> (case run_session acts st1 of (st2, o2) \<Rightarrow> (st2, o1 @ o2)))"
| "run_session (SessPut m # acts) st = (case run_session acts st of (st2, o2) \<Rightarrow> (st2, m # o2))"
| "run_session (AbortWriter # acts) st = run_session acts st"

text \<open>
  From the first message to the loop: the actions, and the tunnel and connection id if the agent is
  registered. \<open>cid\<close> is the fresh connection id and \<open>st\<close> the state at the check of the token and the
  insertion, which tells whether it inserted.
\<close>

definition registration ::
    "'t json \<Rightarrow> (chan \<Rightarrow> bool) \<Rightarrow> chan \<Rightarrow> uuid \<Rightarrow> 't first_read \<Rightarrow> app_state \<Rightarrow>
      't session_action list \<times> (string \<times> uuid) option" where
  "registration J rx out cid first st =
    (let ack = (\<lambda>ok reason. map SessPut (snd (send_control J rx out (register_ack ok reason))));
         reject = (\<lambda>reason. (ack False (Some reason) @ [AbortWriter], None))
     in case read_register_message J first of
       None \<Rightarrow> ([AbortWriter], None)
     | Some (RegisterAgent tunnel_id token version caps) \<Rightarrow>
         (let peer_version = (case version of None \<Rightarrow> LEGACY_PROTOCOL_VERSION | Some v \<Rightarrow> v)
          in if \<not> is_supported_protocol_version peer_version then
               reject (''unsupported protocol_version: '' @ show_nat (unat peer_version))
             else if \<not> is_valid_tunnel_id tunnel_id then reject ''invalid tunnel_id format''
             else if \<not> validate_token st token then reject ''invalid token''
             else let handle = \<lparr>connection_id = cid, sender = out, capabilities = set caps,
                        protocol_version = peer_version\<rparr>;
                      insert = SessDo rx (SInsertAgent tunnel_id handle);
                      inserted = snd (insert_agent_if_absent tunnel_id handle st)
                  in if \<not> inserted then
                       (insert # ack False (Some ''tunnel_id already in use'') @ [AbortWriter], None)
                     else (insert # ack True None, Some (tunnel_id, cid)))
     | Some _ \<Rightarrow> reject ''first message must be register_agent'')"

definition open_session ::
    "'t json \<Rightarrow> (chan \<Rightarrow> bool) \<Rightarrow> chan \<Rightarrow> uuid \<Rightarrow> 't first_read \<Rightarrow> app_state \<Rightarrow>
      app_state \<times> 't relay_out list \<times> (string \<times> uuid) option" where
  "open_session J rx out cid first st =
    (case registration J rx out cid first st of
       (acts, registered) \<Rightarrow> (case run_session acts st of (st', sent) \<Rightarrow> (st', sent, registered)))"

section \<open>Messages\<close>

text \<open>The handlers return the \<open>Result\<close> that the loop only logs, the state and the sends.\<close>

definition handle_text_message ::
    "'t json \<Rightarrow> (chan \<Rightarrow> bool) \<Rightarrow> chan \<Rightarrow> 't \<Rightarrow> app_state \<Rightarrow>
      (string + unit) \<times> app_state \<times> 't relay_out list" where
  "handle_text_message J rx out text st =
    (case from_str J text of
       Inl e \<Rightarrow> (Inl e, st, [])
     | Inr msg \<Rightarrow>
        (Inr (),
         case msg of
           HttpResponseStart rid status headers \<Rightarrow> notify_start rx rid status headers st
         | HttpResponseEnd rid \<Rightarrow> notify_end rx rid st
         | WsConnectAck sid ok subprotocol reason \<Rightarrow> notify_ws_connect_ack rx sid ok subprotocol reason st
         | WsClose sid code reason \<Rightarrow> notify_ws_close rx sid code reason st
         | ControlError rid code message \<Rightarrow>
             (case rid of None \<Rightarrow> (st, []) | Some r \<Rightarrow> notify_error rx r code message st)
         | ControlPing ts_ms \<Rightarrow> (st, snd (send_control J rx out (ControlPong ts_ms)))
         | ControlPong _ \<Rightarrow> (st, [])
         | other \<Rightarrow> (st, [])))"

definition handle_binary_message ::
    "(chan \<Rightarrow> bool) \<Rightarrow> bytes \<Rightarrow> app_state \<Rightarrow> (string + unit) \<times> app_state \<times> 't relay_out list" where
  "handle_binary_message rx bs st =
    (case decode_chunk_header bs of
       Inl e \<Rightarrow> (Inl (chunk_decode_error_text e), st, [])
     | Inr (header, payload) \<Rightarrow>
        (case kind header of
           ResponseBody \<Rightarrow>
             (Inr (), andthen (notify_body rx (request_id header) payload)
                (if fin header then notify_end rx (request_id header) else skip) st)
         | RequestBody \<Rightarrow> (Inr (), st, [])
         | WsLocalFrame \<Rightarrow>
             (case decode_ws_payload payload of
                Inl e \<Rightarrow> (Inl (chunk_decode_error_text e), st, [])
              | Inr (opcode, data) \<Rightarrow> (Inr (), notify_ws_frame rx (request_id header) opcode data st))
         | WsClientFrame \<Rightarrow> (Inr (), st, [])))"

text \<open>
  One round of the loop: whether it goes on, the state and the sends. A raw frame is a case the
  relay's library does not have.
\<close>

definition session_read ::
    "'t json \<Rightarrow> (chan \<Rightarrow> bool) \<Rightarrow> chan \<Rightarrow> 't read \<Rightarrow> app_state \<Rightarrow> bool \<times> app_state \<times> 't relay_out list" where
  "session_read J rx out r st =
    (case r of
       ReadMsg (MText text) \<Rightarrow> (True, snd (handle_text_message J rx out text st))
     | ReadMsg (MBinary bs) \<Rightarrow> (True, snd (handle_binary_message rx bs st))
     | ReadMsg (MPing payload) \<Rightarrow> (True, st, deliver (rx out) (ToAgent out (MPong payload)))
     | ReadMsg (MPong _) \<Rightarrow> (True, st, [])
     | ReadMsg (MClose _) \<Rightarrow> (False, st, [])
     | ReadRawFrame \<Rightarrow> (True, st, [])
     | ReadErr _ \<Rightarrow> (False, st, []))"

text \<open>
  The loop over the results of reading, each with the receivers that are alive when it is handled;
  the end of the list is the end of the stream.
\<close>

fun session_loop ::
    "'t json \<Rightarrow> chan \<Rightarrow> ((chan \<Rightarrow> bool) \<times> 't read) list \<Rightarrow> 't relay_act" where
  "session_loop J out [] st = (st, [])"
| "session_loop J out ((rx, r) # rs) st =
    (case session_read J rx out r st of
       (continue, st1, o1) \<Rightarrow>
         if continue then (case session_loop J out rs st1 of (st2, o2) \<Rightarrow> (st2, o1 @ o2))
         else (st1, o1))"

section \<open>What a session does, as operations on the state\<close>

text \<open>
  The operation of the shared state behind each control message and each frame. Everything a
  session does to the state after its registration is one of these operations.
\<close>

fun message_ops :: "control_message \<Rightarrow> state_op list" where
  "message_ops (HttpResponseStart rid status headers) = [SNotifyStart rid status headers]"
| "message_ops (HttpResponseEnd rid) = [SNotifyEnd rid]"
| "message_ops (WsConnectAck sid ok p r) = [SNotifyWsConnectAck sid ok p r]"
| "message_ops (WsClose sid code reason) = [SNotifyWsClose sid code reason]"
| "message_ops (ControlError (Some rid) code message) = [SNotifyError rid code message]"
| "message_ops _ = []"

definition frame_ops :: "bytes \<Rightarrow> state_op list" where
  "frame_ops bs =
    (case decode_chunk_header bs of
       Inl _ \<Rightarrow> []
     | Inr (h, payload) \<Rightarrow>
        (case kind h of
           ResponseBody \<Rightarrow>
             SNotifyBody (request_id h) payload # (if fin h then [SNotifyEnd (request_id h)] else [])
         | WsLocalFrame \<Rightarrow>
             (case decode_ws_payload payload of
                Inl _ \<Rightarrow> [] | Inr (op, data) \<Rightarrow> [SNotifyWsFrame (request_id h) op data])
         | _ \<Rightarrow> []))"

definition read_ops :: "'t json \<Rightarrow> 't read \<Rightarrow> state_op list" where
  "read_ops J r =
    (case r of
       ReadMsg (MText t) \<Rightarrow> (case from_str J t of Inl _ \<Rightarrow> [] | Inr m \<Rightarrow> message_ops m)
     | ReadMsg (MBinary bs) \<Rightarrow> frame_ops bs
     | _ \<Rightarrow> [])"

text \<open>What the session itself answers on its own channel: pongs, at both levels.\<close>

definition read_replies :: "'t json \<Rightarrow> (chan \<Rightarrow> bool) \<Rightarrow> chan \<Rightarrow> 't read \<Rightarrow> 't relay_out list" where
  "read_replies J rx out r =
    (case r of
       ReadMsg (MText t) \<Rightarrow>
         (case from_str J t of
            Inr (ControlPing ts) \<Rightarrow> snd (send_control J rx out (ControlPong ts)) | _ \<Rightarrow> [])
     | ReadMsg (MPing p) \<Rightarrow> deliver (rx out) (ToAgent out (MPong p))
     | _ \<Rightarrow> [])"

lemma exec_one: "for_each (exec_op rx) [op] st = exec_op rx op st"
  by (simp add: andthen_def skip_def split: prod.splits)

lemma session_read_ops:
  "snd (session_read J rx out r st) =
    (case for_each (exec_op rx) (read_ops J r) st of (st', o') \<Rightarrow> (st', o' @ read_replies J rx out r))"
proof (cases r)
  case (ReadMsg m)
  show ?thesis
  proof (cases m)
    case (MText t)
    show ?thesis
    proof (cases "from_str J t")
      case (Inr msg)
      with ReadMsg MText show ?thesis
        by (cases msg rule: message_ops.cases)
           (simp_all add: session_read_def handle_text_message_def read_ops_def read_replies_def
              andthen_def skip_def split: prod.splits)
    qed (simp add: ReadMsg MText session_read_def handle_text_message_def read_ops_def
        read_replies_def skip_def)
  next
    case (MBinary bs)
    then show ?thesis
      by (auto simp: ReadMsg session_read_def handle_binary_message_def read_ops_def frame_ops_def
          read_replies_def andthen_def skip_def
          split: sum.split stream_kind.split prod.splits)
  qed (simp_all add: ReadMsg session_read_def read_ops_def read_replies_def skip_def)
qed (simp_all add: session_read_def read_ops_def read_replies_def skip_def)

text \<open>
  The loop as actions. Whether it goes on after a read depends on the read alone.
\<close>

definition session_goes_on :: "'t read \<Rightarrow> bool" where
  "session_goes_on r = (case r of ReadMsg (MClose _) \<Rightarrow> False | ReadErr _ \<Rightarrow> False | _ \<Rightarrow> True)"

fun loop_actions :: "'t json \<Rightarrow> chan \<Rightarrow> ((chan \<Rightarrow> bool) \<times> 't read) list \<Rightarrow> 't session_action list" where
  "loop_actions J out [] = []"
| "loop_actions J out ((rx, r) # rs) =
    map (SessDo rx) (read_ops J r) @ map SessPut (read_replies J rx out r) @
    (if session_goes_on r then loop_actions J out rs else [])"

section \<open>A session from its first message to its end\<close>

definition handle_socket_actions ::
    "'t json \<Rightarrow> (chan \<Rightarrow> bool) \<Rightarrow> chan \<Rightarrow> uuid \<Rightarrow> 't first_read \<Rightarrow>
      ((chan \<Rightarrow> bool) \<times> 't read) list \<Rightarrow> (chan \<Rightarrow> bool) \<Rightarrow> app_state \<Rightarrow> 't session_action list" where
  "handle_socket_actions J rx out cid first reads rx_end st =
    (case registration J rx out cid first st of
       (acts, None) \<Rightarrow> acts
     | (acts, Some (tunnel_id, cid)) \<Rightarrow>
         acts @ loop_actions J out reads @ [SessDo rx_end (SRemoveAgentIf tunnel_id cid), AbortWriter])"

definition handle_socket ::
    "'t json \<Rightarrow> (chan \<Rightarrow> bool) \<Rightarrow> chan \<Rightarrow> uuid \<Rightarrow> 't first_read \<Rightarrow>
      ((chan \<Rightarrow> bool) \<times> 't read) list \<Rightarrow> (chan \<Rightarrow> bool) \<Rightarrow> 't relay_act" where
  "handle_socket J rx out cid first reads rx_end st =
    run_session (handle_socket_actions J rx out cid first reads rx_end st) st"

text \<open>
  The writer task of a session: \<open>writer_run broken acts queue wire\<close> says that with the actions \<open>acts\<close>
  still to come and the messages \<open>queue\<close> on its channel the task can put \<open>wire\<close> on the socket, and
  no more. The two tasks run side by side: at any point the writer may take the next message or the
  session may go on, until the session aborts the writer. If the socket is \<open>broken\<close>, a send may also
  fail, which ends the task.
\<close>

inductive writer_run :: "bool \<Rightarrow> 't session_action list \<Rightarrow> 't message list \<Rightarrow> 't message list \<Rightarrow> bool" for broken where
  writer_sends: "writer_run broken acts queue wire \<Longrightarrow> writer_run broken acts (m # queue) (m # wire)"
| writer_fails: "broken \<Longrightarrow> writer_run broken acts (m # queue) []"
| session_does: "writer_run broken acts queue wire \<Longrightarrow> writer_run broken (SessDo rx op # acts) queue wire"
| session_puts:
    "writer_run broken acts (queue @ [m]) wire \<Longrightarrow> writer_run broken (SessPut (ToAgent out m) # acts) queue wire"
| session_aborts: "writer_run broken (AbortWriter # acts) queue []"

inductive_simps writer_run_do: "writer_run b (SessDo rx op # acts) [] wire"
inductive_simps writer_run_put: "writer_run b (SessPut (ToAgent out m) # acts) [] wire"
inductive_simps writer_run_abort: "writer_run b (AbortWriter # acts) [] wire" "writer_run b (AbortWriter # acts) (m # queue) wire"

text \<open>The messages a session puts on its own channel before it aborts the writer.\<close>

fun messages_put :: "'t session_action list \<Rightarrow> 't message list" where
  "messages_put [] = []"
| "messages_put (SessDo rx op # acts) = messages_put acts"
| "messages_put (SessPut (ToAgent out m) # acts) = m # messages_put acts"
| "messages_put (SessPut m # acts) = messages_put acts"
| "messages_put (AbortWriter # acts) = []"

text \<open>Whatever the schedule, the socket gets a prefix of them; and it may get them all.\<close>

lemma writer_run_prefix: "writer_run b acts queue wire \<Longrightarrow> \<exists>rest. queue @ messages_put acts = wire @ rest"
  by (induction rule: writer_run.induct) auto

lemma writer_run_drains:
  assumes "list_all (\<lambda>a. case a of SessPut m \<Rightarrow> (\<exists>c x. m = ToAgent c x) | _ \<Rightarrow> True) acts"
  shows "writer_run b (acts @ AbortWriter # others) queue (queue @ messages_put acts)"
proof -
  have drain: "writer_run b (AbortWriter # acts') queue queue" for acts' :: "'a session_action list" and queue
    by (induction queue) (auto intro: writer_run.intros)
  show ?thesis using assms
  proof (induction acts arbitrary: queue rule: messages_put.induct)
    case (3 out m acts)
    then have "writer_run b (acts @ AbortWriter # others) (queue @ [m]) ((queue @ [m]) @ messages_put acts)"
      by (metis (no_types, lifting) list.pred_inject(2))
    then have "writer_run b (SessPut (ToAgent out m) # acts @ AbortWriter # others) queue ((queue @ [m]) @ messages_put acts)"
      by (rule writer_run.session_puts)
    then show ?case by simp
  qed (auto simp: drain intro: writer_run.session_does)
qed

subsection \<open>What the actions do\<close>

lemma run_session_append:
  "run_session (as @ bs) st =
    (case run_session as st of (st1, o1) \<Rightarrow> (case run_session bs st1 of (st2, o2) \<Rightarrow> (st2, o1 @ o2)))"
  by (induction as st rule: run_session.induct) (simp_all split: prod.split)

lemma run_session_puts [simp]: "run_session (map SessPut ms) st = (st, ms)"
  by (induction ms) simp_all

lemma run_session_ops: "run_session (map (SessDo rx) ops) st = for_each (exec_op rx) ops st"
  by (induction ops arbitrary: st) (simp_all add: skip_def andthen_def split: prod.split)

lemma session_read_goes_on: "fst (session_read J rx out r st) = session_goes_on r"
  by (simp add: session_read_def session_goes_on_def split: read.split message.split)

lemma run_loop_actions: "run_session (loop_actions J out reads) st = session_loop J out reads st"
proof (induction reads arbitrary: st)
  case (Cons x rs)
  obtain rx r where x: "x = (rx, r)" by fastforce
  show ?case
    using session_read_goes_on [of J rx out r st] session_read_ops [of J rx out r st]
    by (auto simp: x run_session_append run_session_ops Cons.IH split: prod.splits)
qed simp

text \<open>The registration's result in one equation, and the session as registration, loop and clean-up.\<close>

lemma open_session_eq:
  "open_session J rx out cid first st =
    (let ack = (\<lambda>ok reason. snd (send_control J rx out (register_ack ok reason)));
         reject = (\<lambda>reason. (st, ack False (Some reason), None))
     in case read_register_message J first of
       None \<Rightarrow> (st, [], None)
     | Some (RegisterAgent tunnel_id token version caps) \<Rightarrow>
         (let peer_version = (case version of None \<Rightarrow> LEGACY_PROTOCOL_VERSION | Some v \<Rightarrow> v)
          in if \<not> is_supported_protocol_version peer_version then
               reject (''unsupported protocol_version: '' @ show_nat (unat peer_version))
             else if \<not> is_valid_tunnel_id tunnel_id then reject ''invalid tunnel_id format''
             else if \<not> validate_token st token then reject ''invalid token''
             else let (st', inserted) = insert_agent_if_absent tunnel_id
                    \<lparr>connection_id = cid, sender = out, capabilities = set caps,
                     protocol_version = peer_version\<rparr> st
                  in if \<not> inserted then reject ''tunnel_id already in use''
                     else (st', ack True None, Some (tunnel_id, cid)))
     | Some _ \<Rightarrow> reject ''first message must be register_agent'')"
  by (simp add: open_session_def registration_def Let_def run_session_append insert_agent_if_absent_def
      split: option.split control_message.split prod.split)

lemma handle_socket_eq:
  "handle_socket J rx out cid first reads rx_end st =
    (case open_session J rx out cid first st of
       (st1, o1, None) \<Rightarrow> (st1, o1)
     | (st1, o1, Some (tunnel_id, cid)) \<Rightarrow>
         (case andthen (session_loop J out reads) (remove_agent_if rx_end tunnel_id cid) st1 of
            (st2, o2) \<Rightarrow> (st2, o1 @ o2)))"
  by (simp add: handle_socket_def handle_socket_actions_def open_session_def run_session_append run_loop_actions
      andthen_def split: option.split prod.split)

section \<open>What a session can change\<close>

text \<open>A peer only notifies: it never adds or removes an entry by a choice of its own.\<close>

fun peer_op :: "state_op \<Rightarrow> bool" where
  "peer_op (SNotifyStart _ _ _) = True"
| "peer_op (SNotifyBody _ _) = True"
| "peer_op (SNotifyEnd _) = True"
| "peer_op (SNotifyError _ _ _) = True"
| "peer_op (SNotifyWsConnectAck _ _ _ _) = True"
| "peer_op (SNotifyWsFrame _ _ _) = True"
| "peer_op (SNotifyWsClose _ _ _) = True"
| "peer_op _ = False"

lemma message_ops_peer: "list_all peer_op (message_ops m)"
  by (cases m rule: message_ops.cases) simp_all

lemma frame_ops_peer: "list_all peer_op (frame_ops bs)"
  by (simp add: frame_ops_def split: sum.split prod.split stream_kind.split)

lemma read_ops_peer: "list_all peer_op (read_ops J r)"
  by (simp add: read_ops_def message_ops_peer frame_ops_peer
      split: read.split message.split sum.split)

lemma peer_op_frame:
  "peer_op op \<Longrightarrow> agents (fst (exec_op rx op st)) = agents st \<and>
     auth_tokens (fst (exec_op rx op st)) = auth_tokens st"
  by (cases op) (auto simp: state_op_defs split: option.split)

lemma run_peer_frame:
  "list_all peer_op ops \<Longrightarrow> agents (fst (for_each (exec_op rx) ops st)) = agents st \<and>
     auth_tokens (fst (for_each (exec_op rx) ops st)) = auth_tokens st"
  by (induction ops arbitrary: st) (simp_all add: act_simps peer_op_frame)

lemma session_read_frame:
  assumes "session_read J rx out r st = (b, st', o')"
  shows "agents st' = agents st \<and> auth_tokens st' = auth_tokens st"
    and "state_ok st \<Longrightarrow> state_ok st'"
proof -
  from session_read_ops [of J rx out r st]
  have "st' = fst (for_each (exec_op rx :: _ \<Rightarrow> 'a relay_act) (read_ops J r) st)"
    by (simp add: assms split: prod.splits)
  then show "agents st' = agents st \<and> auth_tokens st' = auth_tokens st"
    and "state_ok st \<Longrightarrow> state_ok st'"
    by (simp_all add: run_peer_frame read_ops_peer ops.run_inv)
qed

lemma session_loop_inv:
  assumes "session_loop J out reads st = (st', o')"
  shows "agents st' = agents st \<and> auth_tokens st' = auth_tokens st \<and> (state_ok st \<longrightarrow> state_ok st')"
  using assms
proof (induction reads arbitrary: st st' o')
  case Nil
  then show ?case by simp
next
  case (Cons x rs)
  obtain rx r where x: "x = (rx, r)" by fastforce
  obtain b st1 o1 where r: "session_read J rx out r st = (b, st1, o1)" by (metis prod_cases3)
  obtain st2 o2 where l: "session_loop J out rs st1 = (st2, o2)" by fastforce
  from Cons.IH [OF l] session_read_frame [OF r] Cons.prems show ?case
    by (auto simp: x r l split: if_splits)
qed

section \<open>Who registers\<close>

lemma open_session_iff:
  "(\<exists>o'. open_session J rx out cid first st = (st', o', Some (tid, cid'))) \<longleftrightarrow>
    (\<exists>token version caps.
      read_register_message J first = Some (RegisterAgent tid token version caps) \<and>
      (version = None \<or> version = Some 1 \<or> version = Some 2) \<and>
      is_valid_tunnel_id tid \<and> token \<in> auth_tokens st \<and> get_agent st tid = None \<and> cid' = cid \<and>
      st' = st\<lparr>agents := tbl_insert tid
        \<lparr>connection_id = cid, sender = out, capabilities = set caps,
         protocol_version = (case version of None \<Rightarrow> 1 | Some v \<Rightarrow> v)\<rparr> (agents st)\<rparr>)"
proof (cases "read_register_message J first")
  case (Some m)
  then show ?thesis
    by (cases m)
       (auto simp: open_session_eq Let_def insert_agent_if_absent_def get_agent_def
          validate_token_def is_supported_protocol_version_def LEGACY_PROTOCOL_VERSION_def
          PROTOCOL_VERSION_def split: option.splits)
qed (simp add: open_session_eq)

lemma open_session_registered:
  assumes "open_session J rx out cid first st = (st', o', Some (tid, cid'))"
  obtains h where "connection_id h = cid'" and "get_agent st tid = None"
    and "st' = st\<lparr>agents := tbl_insert tid h (agents st)\<rparr>"
proof -
  from assms have "\<exists>o'. open_session J rx out cid first st = (st', o', Some (tid, cid'))" by blast
  then show ?thesis
    unfolding open_session_iff by (elim exE conjE) (rule that [rotated 2], assumption, simp_all)
qed

lemma open_session_rejected:
  "open_session J rx out cid first st = (st', o', None) \<Longrightarrow> st' = st"
  by (auto simp: open_session_eq Let_def insert_agent_if_absent_def
      split: option.splits control_message.splits if_splits)

text \<open>
  C29: who can register. The agent table of a relay gets an entry exactly when the first message
  is a \<open>register_agent\<close> whose version is supported (a missing one counts as version 1), whose
  tunnel id is well-formed, whose token is one of the relay's, and whose tunnel is free; the entry
  is that connection's, and nothing else of the state changes.
\<close>

theorem open_session_registers_iff:
  "(\<exists>o'. open_session J rx out cid first st = (st', o', Some (tid, cid'))) \<longleftrightarrow>
    (\<exists>token version caps.
      read_register_message J first = Some (RegisterAgent tid token version caps) \<and>
      (version = None \<or> version = Some 1 \<or> version = Some 2) \<and>
      is_valid_tunnel_id tid \<and> token \<in> auth_tokens st \<and> get_agent st tid = None \<and> cid' = cid \<and>
      st' = st\<lparr>agents := tbl_insert tid
        \<lparr>connection_id = cid, sender = out, capabilities = set caps,
         protocol_version = (case version of None \<Rightarrow> 1 | Some v \<Rightarrow> v)\<rparr> (agents st)\<rparr>)"
  by (rule open_session_iff)

text \<open>
  The agent is told the outcome. A readable first message is answered with exactly one
  \<open>register_ack\<close> on the connection's channel, with the relay's version and capabilities, whose
  \<open>ok\<close> is whether the agent was registered and which has a reason exactly when it was not.
\<close>

lemma open_session_ack:
  assumes "json_ok J" and "rx out" and "read_register_message J first \<noteq> None"
    and "open_session J rx out cid first st = (st', o', r)"
  shows "\<exists>t reason. o' = [ToAgent out (MText t)] \<and>
    from_str J t = Inr (RegisterAck (r \<noteq> None) reason (Some 2) [''ws_tunnel_v1'']) \<and>
    (reason = None \<longleftrightarrow> r \<noteq> None)"
proof -
  have ack: "\<exists>t. snd (send_control J rx out m) = [ToAgent out (MText t)] \<and> from_str J t = Inr m" for m
    using send_control_ok [OF assms(1), of m rx out] assms(2) by auto
  have "\<exists>reason. o' = snd (send_control J rx out (register_ack (r \<noteq> None) reason)) \<and>
      (reason = None \<longleftrightarrow> r \<noteq> None)"
    using assms(3,4)
    by (fastforce simp: open_session_eq Let_def insert_agent_if_absent_def
        split: option.splits control_message.splits if_splits)
  with ack show ?thesis
    by (metis register_ack_def relay_capabilities_def CAP_WS_TUNNEL_V1_def PROTOCOL_VERSION_def)
qed

text \<open>
  The shape of a registration's actions. A rejection with a reason is perhaps the insertion that failed,
  then the acknowledgement, then the abort of the writer; a registration is the insertion, then the
  acknowledgement.
\<close>

lemma ack_put:
  assumes "json_ok J" and "rx out"
  shows "\<exists>ta. snd (send_control J rx out m) = [ToAgent out (MText ta)] \<and> from_str J ta = Inr m"
  using send_control_ok [OF assms(1), of m rx out] assms(2) by auto

lemma registration_rejected:
  assumes "json_ok J" and "rx out" and "read_register_message J first \<noteq> None"
    and "registration J rx out cid first st = (acts, None)"
  obtains before ta reason where "acts = before @ [SessPut (ToAgent out (MText ta)), AbortWriter]"
    and "before = [] \<or> (\<exists>op. before = [SessDo rx op])"
    and "from_str J ta = Inr (RegisterAck False (Some reason) (Some 2) [''ws_tunnel_v1''])"
proof -
  let ?ack = "\<lambda>reason. map SessPut (snd (send_control J rx out (register_ack False (Some reason)))) @ [AbortWriter]"
  obtain m where m: "read_register_message J first = Some m" using assms(3) by blast
  have "(\<exists>reason. acts = ?ack reason) \<or> (\<exists>op reason. acts = SessDo rx op # ?ack reason)"
    using assms(4) by (cases m) (auto simp: registration_def m Let_def split: if_splits)
  then obtain before reason where acts: "before = [] \<or> (\<exists>op. before = [SessDo rx op])"
    "acts = before @ ?ack reason"
    by (metis append_Cons append_Nil)
  obtain ta where "snd (send_control J rx out (register_ack False (Some reason))) = [ToAgent out (MText ta)]"
    "from_str J ta = Inr (register_ack False (Some reason))"
    using ack_put [where rx = rx and out = out, OF assms(1,2)] by blast
  with acts show thesis
    by (intro that [of before ta reason])
       (simp_all add: register_ack_def relay_capabilities_def CAP_WS_TUNNEL_V1_def PROTOCOL_VERSION_def)
qed

lemma registration_accepted:
  assumes "json_ok J" and "rx out" and "registration J rx out cid first st = (acts, Some (tid, cid'))"
  obtains h ta where "acts = [SessDo rx (SInsertAgent tid h), SessPut (ToAgent out (MText ta))]"
    and "get_agent st tid = None" and "sender h = out" and "connection_id h = cid" and "cid' = cid"
    and "from_str J ta = Inr (RegisterAck True None (Some 2) [''ws_tunnel_v1''])"
proof -
  let ?acts = "\<lambda>h. SessDo rx (SInsertAgent tid h) # map SessPut (snd (send_control J rx out (register_ack True None)))"
  have "\<exists>h. sender h = out \<and> connection_id h = cid \<and> cid' = cid \<and> get_agent st tid = None \<and> acts = ?acts h"
  proof (cases "read_register_message J first")
    case (Some m)
    with assms(3) show ?thesis
      by (cases m) (auto simp: registration_def Let_def insert_agent_if_absent_def get_agent_def split: if_splits)
  qed (use assms(3) in \<open>simp add: registration_def\<close>)
  then obtain h where acts: "sender h = out" "connection_id h = cid" "cid' = cid" "get_agent st tid = None"
    "acts = ?acts h" by blast
  obtain ta where "snd (send_control J rx out (register_ack True None)) = [ToAgent out (MText ta)]"
    "from_str J ta = Inr (register_ack True None)"
    using ack_put [where rx = rx and out = out, OF assms(1,2)] by blast
  with acts show thesis
    by (intro that [of h ta])
       (simp_all add: register_ack_def relay_capabilities_def CAP_WS_TUNNEL_V1_def PROTOCOL_VERSION_def)
qed

text \<open>A session puts messages on its own channel only.\<close>

lemma loop_actions_own: "list_all (\<lambda>a. case a of SessPut m \<Rightarrow> (\<exists>c x. m = ToAgent c x) | _ \<Rightarrow> True) (loop_actions J out reads)"
proof (induction reads)
  case (Cons x rs)
  obtain rx r where x: "x = (rx, r)" by fastforce
  have "list_all (\<lambda>m. \<exists>c x. m = ToAgent c x) (read_replies J rx out r)"
    by (auto simp: read_replies_def send_control_def deliver_def
        split: read.split message.split sum.split control_message.split)
  with Cons.IH show ?case by (auto simp: x list_all_iff)
qed simp

section \<open>A whole session\<close>

text \<open>
  C28: a session leaves the agent table as it found it. Whatever an agent connection sends, and
  however it ends, after it the same tunnels are registered to the same connections as before it;
  in particular a tunnel that it had registered is free again.
\<close>

theorem handle_socket_balanced:
  assumes "state_ok st"
  shows "get_agent (fst (handle_socket J rx out cid first reads rx_end st)) = get_agent st"
proof -
  obtain st1 o1 r where o: "open_session J rx out cid first st = (st1, o1, r)"
    by (metis prod_cases3)
  show ?thesis
  proof (cases r)
    case None
    with o show ?thesis
      using open_session_rejected by (fastforce simp: handle_socket_eq)
  next
    case (Some tc)
    obtain tid cid' where tc: "tc = (tid, cid')" by fastforce
    obtain h where h: "connection_id h = cid'" and free: "get_agent st tid = None"
      and st1: "st1 = st\<lparr>agents := tbl_insert tid h (agents st)\<rparr>"
      using open_session_registered [OF o [unfolded Some tc]] by blast
    obtain st2 o2 where l: "session_loop J out reads st1 = (st2, o2)" by fastforce
    obtain st3 and o3 :: "'a relay_out list"
      where r: "remove_agent_if rx_end tid cid' st2 = (st3, o3)" by fastforce
    from assms st1 have "state_ok st1" by (simp add: state_ok_def)
    with session_loop_inv [OF l] have ok2: "state_ok st2" and a2: "agents st2 = agents st1" by auto
    have "get_agent st2 tid = Some h" by (simp add: get_agent_def a2 st1 table_simps)
    with r have "agents st3 = tbl_remove tid (agents st1)"
      by (auto simp: remove_agent_if_eq [OF ok2] h a2)
    then have "get_agent st3 = get_agent st"
      using free by (auto simp: st1 get_agent_def table_simps)
    moreover have "fst (handle_socket J rx out cid first reads rx_end st) = st3"
      by (simp add: handle_socket_eq o Some tc andthen_def l r)
    ultimately show ?thesis by simp
  qed
qed

theorem handle_socket_balanced_witness:
  "get_agent (fst (handle_socket plain_json (\<lambda>_. True) 50 9
      (FirstRead (ReadMsg (MText (RegisterAgent ''new'' ''tok'' None []))))
      [(\<lambda>_. True, ReadMsg (MPing [1])), (\<lambda>_. True, ReadErr ''reset'')] (\<lambda>_. True) sample_state))
    = get_agent sample_state"
  by (rule handle_socket_balanced) simp

section \<open>Routing\<close>

text \<open>The id a message carries, in its text or in the header of its frame.\<close>

fun control_id :: "control_message \<Rightarrow> uuid option" where
  "control_id (HttpRequestStart rid _ _ _) = Some rid"
| "control_id (HttpRequestEnd rid) = Some rid"
| "control_id (HttpResponseStart rid _ _) = Some rid"
| "control_id (HttpResponseEnd rid) = Some rid"
| "control_id (WsConnect sid _ _ _) = Some sid"
| "control_id (WsConnectAck sid _ _ _) = Some sid"
| "control_id (WsClose sid _ _) = Some sid"
| "control_id (ControlError rid _ _) = rid"
| "control_id _ = None"

definition carried_id :: "'t json \<Rightarrow> 't read \<Rightarrow> uuid option" where
  "carried_id J r =
    (case r of
       ReadMsg (MText t) \<Rightarrow> (case from_str J t of Inl _ \<Rightarrow> None | Inr m \<Rightarrow> control_id m)
     | ReadMsg (MBinary bs) \<Rightarrow>
         (case decode_chunk_header bs of Inl _ \<Rightarrow> None | Inr (h, _) \<Rightarrow> Some (request_id h))
     | _ \<Rightarrow> None)"

text \<open>
  Where a session may send on a message with a given id: to the channel its table has under that very
  id, or on the session's own channel \<open>out\<close>.
\<close>

fun routed :: "app_state \<Rightarrow> chan \<Rightarrow> uuid option \<Rightarrow> 't relay_out \<Rightarrow> bool" where
  "routed st out i (ToRequest c _) = (Option.bind i (tbl_get (inflight st)) = Some c)"
| "routed st out i (ToPending c _) = (map_option wp_tx (Option.bind i (tbl_get (ws_pending st))) = Some c)"
| "routed st out i (ToStream c _) = (map_option ws_sender (Option.bind i (tbl_get (ws_streams st))) = Some c)"
| "routed st out i (ToAgent c _) = (c = out)"

definition sub_state :: "app_state \<Rightarrow> app_state \<Rightarrow> bool" where
  "sub_state s t \<longleftrightarrow> tbl_get (inflight s) \<subseteq>\<^sub>m tbl_get (inflight t) \<and>
     tbl_get (ws_pending s) \<subseteq>\<^sub>m tbl_get (ws_pending t) \<and> tbl_get (ws_streams s) \<subseteq>\<^sub>m tbl_get (ws_streams t)"

lemma map_leD: "m \<subseteq>\<^sub>m m' \<Longrightarrow> m k = Some v \<Longrightarrow> m' k = Some v"
  by (auto simp: map_le_def dom_def)

lemma routed_mono: "sub_state s t \<Longrightarrow> routed s out i m \<Longrightarrow> routed t out i m"
  by (cases m; cases i) (auto simp: sub_state_def dest: map_leD)

lemma sub_state_simps [simp]:
  "sub_state st st" "sub_state (remove_inflight r st) st" "sub_state (remove_ws_pending s st) st"
  "sub_state (remove_ws_stream s st) st"
  by (simp_all add: sub_state_def remove_inflight_def remove_ws_pending_def remove_ws_stream_def
      table_simps map_le_def)

fun op_id :: "state_op \<Rightarrow> uuid option" where
  "op_id (SNotifyStart rid _ _) = Some rid"
| "op_id (SNotifyBody rid _) = Some rid"
| "op_id (SNotifyEnd rid) = Some rid"
| "op_id (SNotifyError rid _ _) = Some rid"
| "op_id (SNotifyWsConnectAck sid _ _ _) = Some sid"
| "op_id (SNotifyWsFrame sid _ _) = Some sid"
| "op_id (SNotifyWsClose sid _ _) = Some sid"
| "op_id _ = None"

definition notifies :: "uuid option \<Rightarrow> state_op \<Rightarrow> bool" where
  "notifies i op \<longleftrightarrow> peer_op op \<and> op_id op = i"

lemma message_ops_notify: "list_all (notifies (control_id m)) (message_ops m)"
  by (cases m rule: message_ops.cases) (simp_all add: notifies_def)

lemma read_ops_notify: "list_all (notifies (carried_id J r)) (read_ops J r)"
proof (cases r)
  case (ReadMsg m)
  then show ?thesis
    by (cases m) (auto simp: read_ops_def carried_id_def message_ops_notify frame_ops_def notifies_def
      split: sum.split stream_kind.split prod.split)
qed (simp_all add: read_ops_def)

lemma notify_sub_state: "notifies i op \<Longrightarrow> sub_state (fst ((exec_op rx op :: 't relay_act) st)) st"
  by (cases op) (simp_all add: notifies_def notify_eqs
      notify_ws_connect_ack_def notify_ws_frame_def notify_ws_close_def split: option.split)

lemma notify_routed:
  "notifies i op \<Longrightarrow> list_all (routed st out i) (snd ((exec_op rx op :: 't relay_act) st))"
  by (cases op) (auto simp: notifies_def notify_eqs
      notify_ws_connect_ack_def notify_ws_frame_def notify_ws_close_def deliver_def split: option.split)

lemma notify_step:
  fixes o' :: "'t relay_out list"
  assumes "notifies i op" and "exec_op rx op st = (st', o')"
  shows "sub_state st' st" and "list_all (routed st out i) o'"
  using notify_sub_state [OF assms(1), of rx st, where 't = 't]
    notify_routed [OF assms(1), of st out rx, where 't = 't] by (simp_all add: assms(2))

lemma run_notify_routed:
  fixes o' :: "'t relay_out list"
  assumes "list_all (notifies i) ops" and "for_each (exec_op rx) ops st = (st', o')"
  shows "list_all (routed st out i) o'"
  using assms
proof (induction ops arbitrary: st st' o')
  case (Cons op ops)
  obtain st1 o1 where e: "exec_op rx op st = (st1, o1 :: 't relay_out list)" by fastforce
  obtain st2 o2 where r: "for_each (exec_op rx) ops st1 = (st2, o2 :: 't relay_out list)" by fastforce
  from Cons.prems e r have o': "o' = o1 @ o2" by (simp add: andthen_def)
  have "list_all (routed st out i) o1" and "sub_state st1 st"
    using notify_step [OF _ e, of i] Cons.prems by simp_all
  moreover have "list_all (routed st1 out i) o2"
    using Cons.IH [OF _ r] Cons.prems by simp
  ultimately show ?case by (auto simp: o' list_all_iff intro: routed_mono)
qed (simp add: skip_def)

text \<open>
  C36: whatever an agent sends, the relay forwards it only into the channel that the shared state
  has under the id the message carries, a response to the request of that id, an acknowledgement to
  the waiting upgrade of that id, a frame or close to the tunnel of that id, and answers only on the
  agent's own channel; no message makes the relay write to another agent's connection.
\<close>

theorem session_read_routing:
  "list_all (routed st out (carried_id J r)) (snd (snd (session_read J rx out r st)))"
proof -
  obtain st' and o' :: "'a relay_out list"
    where e: "for_each (exec_op rx) (read_ops J r) st = (st', o')" by fastforce
  have "list_all (routed st out (carried_id J r)) (read_replies J rx out r)"
    by (cases r) (auto simp: read_replies_def send_control_def deliver_def
        split: message.split sum.split control_message.split)
  with run_notify_routed [OF read_ops_notify e] session_read_ops [of J rx out r st] e show ?thesis
    by (simp)
qed

text \<open>
  Nothing an agent sends after its registration touches the agent table or the tokens, and
  the tables keep distinct keys, for any sequence of messages.
\<close>

lemma session_loop_frame:
  assumes "state_ok st" and "session_loop J out reads st = (st', o')"
  shows "agents st' = agents st \<and> auth_tokens st' = auth_tokens st \<and> state_ok st'"
  using session_loop_inv [OF assms(2)] assms(1) by simp

lemma session_loop_frame_witness:
  "\<exists>st' o'. session_loop plain_json 50
      [(\<lambda>_. True, ReadMsg (MText (HttpResponseEnd 100))), (\<lambda>_. True, ReadMsg (MBinary [9]))]
      sample_state = (st', o') \<and> agents st' = agents sample_state"
proof -
  obtain st' o' where "session_loop plain_json 50
      [(\<lambda>_. True, ReadMsg (MText (HttpResponseEnd 100))), (\<lambda>_. True, ReadMsg (MBinary [9]))]
      sample_state = (st', o')" by fastforce
  from session_loop_frame [OF sample_state_ok this] this show ?thesis by blast
qed

end
