(* ===== verification/Agent_Client.thy ===== *)
theory Agent_Client
  imports Agent_Proxy Relay_Session
begin

text \<open>
  The agent's connection to the relay, \<open>crates/agent/src/relay_client.rs\<close>: registration, the two
  message handlers with the tasks they spawn, the task of one HTTP request, the task of one
  WebSocket stream, the end of a connection, and the reconnect delay. As on the relay's side a task
  is modelled by its trace, given what it meets: the local server, whether each send finds the
  relay's channel open, and the order in which its two sources are ready.
\<close>

section \<open>Data\<close>

datatype ws_inbound_event = InFrame ws_opcode bytes | InClose "u16 option" "string option"

record register_ack_info =
  relay_protocol_version :: u8
  relay_caps :: "string list"

text \<open>The part of \<open>RuntimeCtx\<close> that is data.\<close>

record runtime_ctx =
  local_base :: string
  relay_supports_ws :: bool
  relay_frame_version :: u8

record proxy_request =
  pr_id :: uuid
  pr_method :: string
  pr_path_and_query :: string
  pr_headers :: header_list
  pr_body_rx :: chan

record ws_connect_request =
  wr_id :: uuid
  wr_path_and_query :: string
  wr_headers :: header_list
  wr_subprotocols :: "string list"

text \<open>What the read loop does to the outside: sends and spawned tasks.\<close>

datatype 't agent_out =
    ToRelay "'t message"
  | ToBody chan bytes
  | ToSession chan ws_inbound_event
  | SpawnProxy proxy_request
  | SpawnWs ws_connect_request

definition agent_send_control ::
    "'t json \<Rightarrow> bool \<Rightarrow> control_message \<Rightarrow> (string + unit) \<times> 't agent_out list" where
  "agent_send_control J relay_open msg =
    (case to_string J msg of
       Inl e \<Rightarrow> (Inl e, [])
     | Inr payload \<Rightarrow> if relay_open then (Inr (), [ToRelay (MText payload)])
                       else (Inl ''relay channel closed'', []))"

lemma agent_send_control_ok:
  assumes "json_ok J"
  obtains t where "from_str J t = Inr msg" and "agent_send_control J True msg = (Inr (), [ToRelay (MText t)])"
proof -
  from assms obtain t where "to_string J msg = Inr t" and "from_str J t = Inr msg"
    unfolding json_ok_def by blast
  then show thesis by (intro that [of t]) (simp_all add: agent_send_control_def)
qed

section \<open>Registration\<close>

definition register_message :: "string \<Rightarrow> string \<Rightarrow> control_message" where
  "register_message tunnel_id token =
     RegisterAgent tunnel_id token (Some PROTOCOL_VERSION) [CAP_WS_TUNNEL_V1]"

definition wait_register_ack :: "'t json \<Rightarrow> 't first_read \<Rightarrow> string + register_ack_info" where
  "wait_register_ack J r =
    (case r of
       FirstTimeout \<Rightarrow> Inl ''deadline has elapsed''
     | FirstEnd \<Rightarrow> Inl ''relay closed websocket before register ack''
     | FirstRead (ReadErr e) \<Rightarrow> Inl e
     | FirstRead (ReadMsg (MText text)) \<Rightarrow>
         (case from_str J text of
            Inl e \<Rightarrow> Inl e
          | Inr ack \<Rightarrow>
             (case ack of
                RegisterAck ok reason peer_version caps \<Rightarrow>
                  if ok then
                    (let version = (case peer_version of Some v \<Rightarrow> v | None \<Rightarrow> LEGACY_PROTOCOL_VERSION)
                     in if \<not> is_supported_protocol_version version then
                          Inl (''relay replied with unsupported protocol_version: '' @ show_nat (unat version))
                        else Inr \<lparr>relay_protocol_version = version, relay_caps = caps\<rparr>)
                  else Inl (''register rejected: '' @ (case reason of Some s \<Rightarrow> s | None \<Rightarrow> ''unknown''))
              | _ \<Rightarrow> Inl ''unexpected register ack message''))
     | FirstRead _ \<Rightarrow> Inl ''register ack must be text frame'')"

definition make_ctx :: "string \<Rightarrow> register_ack_info \<Rightarrow> runtime_ctx" where
  "make_ctx base ack = \<lparr>local_base = base, relay_supports_ws = list_ex (\<lambda>c. c = CAP_WS_TUNNEL_V1) (relay_caps ack),
     relay_frame_version = relay_protocol_version ack\<rparr>"

section \<open>The read loop\<close>

text \<open>\<open>rx\<close> tells which body and session channels still have their receiver; \<open>c\<close> is fresh.\<close>

definition agent_handle_text ::
    "'t json \<Rightarrow> bool \<Rightarrow> (chan \<Rightarrow> bool) \<Rightarrow> runtime_ctx \<Rightarrow> chan \<Rightarrow> 't \<Rightarrow> (agent_state, 't agent_out) act" where
  "agent_handle_text J relay_open rx ctx c text st =
    (case from_str J text of
       Inl e \<Rightarrow> (st, [])
     | Inr msg \<Rightarrow>
        (case msg of
           HttpRequestStart rid method path_and_query headers \<Rightarrow>
             (inflight_insert rid c st,
              [SpawnProxy \<lparr>pr_id = rid, pr_method = method, pr_path_and_query = path_and_query,
                 pr_headers = headers, pr_body_rx = c\<rparr>])
         | HttpRequestEnd rid \<Rightarrow> (inflight_remove rid st, [])
         | WsConnect sid path_and_query headers subprotocols \<Rightarrow>
             if \<not> relay_supports_ws ctx then
               (st, snd (agent_send_control J relay_open (WsConnectAck sid False None
                      (Some ''relay does not support websocket tunnel capability''))))
             else (st, [SpawnWs \<lparr>wr_id = sid, wr_path_and_query = path_and_query, wr_headers = headers,
                          wr_subprotocols = subprotocols\<rparr>])
         | WsClose sid code reason \<Rightarrow>
             (case tbl_get (ag_ws_sessions st) sid of
                None \<Rightarrow> (st, [])
              | Some tx \<Rightarrow> (st, deliver (rx tx) (ToSession tx (InClose code reason))))
         | ControlPing ts_ms \<Rightarrow> (st, snd (agent_send_control J relay_open (ControlPong ts_ms)))
         | ControlError rid code message \<Rightarrow>
             (case rid of None \<Rightarrow> (st, []) | Some r \<Rightarrow> (inflight_remove r st, []))
         | ControlPong ts_ms \<Rightarrow> (st, [])
         | other \<Rightarrow> (st, [])))"

definition agent_handle_binary :: "(chan \<Rightarrow> bool) \<Rightarrow> bytes \<Rightarrow> (agent_state, 't agent_out) act" where
  "agent_handle_binary rx bs st =
    (case decode_chunk_header bs of
       Inl e \<Rightarrow> (st, [])
     | Inr (header, payload) \<Rightarrow>
        (case kind header of
           RequestBody \<Rightarrow>
             andthen
               (\<lambda>st. case inflight_get st (request_id header) of
                  None \<Rightarrow> (st, [])
                | Some tx \<Rightarrow> if rx tx then (st, [ToBody tx payload])
                              else (inflight_remove (request_id header) st, []))
               (\<lambda>st. if fin header then (inflight_remove (request_id header) st, []) else (st, [])) st
         | WsClientFrame \<Rightarrow>
             (case decode_ws_payload payload of
                Inl e \<Rightarrow> (st, [])
              | Inr (opcode, data) \<Rightarrow>
                 (case tbl_get (ag_ws_sessions st) (request_id header) of
                    None \<Rightarrow> (st, [])
                  | Some tx \<Rightarrow> (st, deliver (rx tx) (ToSession tx (InFrame opcode data)))))
         | ResponseBody \<Rightarrow> (st, [])
         | WsLocalFrame \<Rightarrow> (st, [])))"

text \<open>One round: \<open>Inr True\<close> to go on, \<open>Inr False\<close> to leave the loop, \<open>Inl\<close> to leave the function.\<close>

definition agent_read ::
    "'t json \<Rightarrow> bool \<Rightarrow> (chan \<Rightarrow> bool) \<Rightarrow> runtime_ctx \<Rightarrow> chan \<Rightarrow> 't read \<Rightarrow> agent_state \<Rightarrow>
      (string + bool) \<times> agent_state \<times> 't agent_out list" where
  "agent_read J relay_open rx ctx c r st =
    (case r of
       ReadErr e \<Rightarrow> (Inl e, st, [])
     | ReadMsg (MText text) \<Rightarrow> (Inr True, agent_handle_text J relay_open rx ctx c text st)
     | ReadMsg (MBinary bs) \<Rightarrow> (Inr True, agent_handle_binary rx bs st)
     | ReadMsg (MPing payload) \<Rightarrow> (Inr True, st, deliver relay_open (ToRelay (MPong payload)))
     | ReadMsg (MPong _) \<Rightarrow> (Inr True, st, [])
     | ReadMsg (MClose _) \<Rightarrow> (Inr False, st, [])
     | ReadRawFrame \<Rightarrow> (Inr True, st, []))"

text \<open>
  The session table is shared with the stream tasks (\<open>Arc<Mutex<..>>\<close>): a round comes with what
  those tasks did to it since the last one.
\<close>

datatype session_op = SessInsert uuid chan | SessRemove uuid

fun exec_session_op :: "session_op \<Rightarrow> agent_state \<Rightarrow> agent_state" where
  "exec_session_op (SessInsert sid tx) st = session_insert sid tx st"
| "exec_session_op (SessRemove sid) st = cleanup_ws_session sid st"

record 't agent_round =
  ar_tasks :: "session_op list"
  ar_open :: bool
  ar_rx :: "chan \<Rightarrow> bool"
  ar_chan :: chan
  ar_read :: "'t read"

fun agent_loop ::
    "'t json \<Rightarrow> runtime_ctx \<Rightarrow> 't agent_round list \<Rightarrow> agent_state \<Rightarrow>
      (string + unit) \<times> agent_state \<times> 't agent_out list" where
  "agent_loop J ctx [] st = (Inr (), st, [])"
| "agent_loop J ctx (r # rs) st =
    (case agent_read J (ar_open r) (ar_rx r) ctx (ar_chan r) (ar_read r)
            (fold exec_session_op (ar_tasks r) st) of
       (Inl e, st1, o1) \<Rightarrow> (Inl e, st1, o1)
     | (Inr go_on, st1, o1) \<Rightarrow>
         if go_on then (case agent_loop J ctx rs st1 of (res, st2, o2) \<Rightarrow> (res, st2, o1 @ o2))
         else (Inr (), st1, o1))"

text \<open>
  The end of \<open>run_once\<close> after the registration: when the loop ends, both tables are cleared and
  the writer and ping tasks aborted; when a read fails, \<open>?\<close> returns at once, which drops the
  local body table but leaves the shared session table and the tasks. The result is what the
  function returns, the tables, whether the tasks were aborted, and the loop's sends.
\<close>

record 't connection_end =
  ce_result :: "string + unit"
  ce_state :: agent_state
  ce_aborted :: bool
  ce_out :: "'t agent_out list"

definition run_connection :: "'t json \<Rightarrow> runtime_ctx \<Rightarrow> 't agent_round list \<Rightarrow> 't connection_end" where
  "run_connection J ctx rounds =
    (case agent_loop J ctx rounds \<lparr>ag_inflight = [], ag_ws_sessions = []\<rparr> of
       (Inl e, st, sent) \<Rightarrow>
         \<lparr>ce_result = Inl e, ce_state = inflight_clear st, ce_aborted = False, ce_out = sent\<rparr>
     | (Inr _, st, sent) \<Rightarrow>
         \<lparr>ce_result = Inr (), ce_state = (inflight_clear st)\<lparr>ag_ws_sessions := []\<rparr>, ce_aborted = True,
          ce_out = sent\<rparr>)"

section \<open>One HTTP request\<close>

text \<open>
  The local server: what sending a request gives, an error or a status, headers and the body items,
  each with whether the relay's channel is open when the loop reaches it.
\<close>

datatype local_reply = LocalErr string | LocalReply u16 header_map "(body_item \<times> bool) list"

fun stream_response_body ::
    "u8 \<Rightarrow> uuid \<Rightarrow> u32 \<Rightarrow> (body_item \<times> bool) list \<Rightarrow> (string + unit) \<times> 't agent_out list" where
  "stream_response_body version rid n [] = (Inr (), [])"
| "stream_response_body version rid n ((BodyErr e, _) # rest) = (Inl e, [])"
| "stream_response_body version rid n ((Chunk chunk, is_open) # rest) =
    (if chunk = [] then stream_response_body version rid n rest
     else let frame = encode_chunk_frame_with_version version
                \<lparr>kind = ResponseBody, request_id = rid, seq = n, fin = False\<rparr> chunk
          in if \<not> is_open then (Inl ''relay channel closed'', [])
             else case stream_response_body version rid (n + 1) rest of
               (r, sent) \<Rightarrow> (r, ToRelay (MBinary frame) # sent))"

text \<open>
  \<open>method_of\<close> is \<open>Method::from_bytes\<close>; \<open>serve\<close> the local server, from the method, the URL and the
  headers the client library is given (the body comes through the request's channel).
\<close>

definition proxy_one_request ::
    "'t json \<Rightarrow> http_lib \<Rightarrow> 'u url_lib \<Rightarrow> (string \<Rightarrow> string + string) \<Rightarrow>
      (string \<Rightarrow> 'u \<Rightarrow> header_map \<Rightarrow> local_reply) \<Rightarrow> runtime_ctx \<Rightarrow> bool \<Rightarrow> bool \<Rightarrow> proxy_request \<Rightarrow>
      (string + unit) \<times> 't agent_out list" where
  "proxy_one_request J H U method_of serve ctx start_open end_open req =
    (case compose_local_url U (local_base ctx) (pr_path_and_query req) of
       Inl e \<Rightarrow> (Inl e, [])
     | Inr local_url \<Rightarrow>
        (case method_of (pr_method req) of
           Inl e \<Rightarrow> (Inl e, [])
         | Inr method \<Rightarrow>
            (case serve method local_url (apply_forward_headers H [] (pr_headers req)) of
               LocalErr e \<Rightarrow> (Inl e, [])
             | LocalReply status headers items \<Rightarrow>
                (case agent_send_control J start_open
                        (HttpResponseStart (pr_id req) status (flatten_response_headers H headers)) of
                   (Inl e, s) \<Rightarrow> (Inl e, s)
                 | (Inr _, s) \<Rightarrow>
                    (case stream_response_body (relay_frame_version ctx) (pr_id req) 0 items of
                       (Inl e, sb) \<Rightarrow> (Inl e, s @ sb)
                     | (Inr _, sb) \<Rightarrow>
                        (case agent_send_control J end_open (HttpResponseEnd (pr_id req)) of
                           (r, se) \<Rightarrow> (r, s @ sb @ se)))))))"

text \<open>The spawned task: an error is reported to the relay.\<close>

definition proxy_task ::
    "'t json \<Rightarrow> http_lib \<Rightarrow> 'u url_lib \<Rightarrow> (string \<Rightarrow> string + string) \<Rightarrow>
      (string \<Rightarrow> 'u \<Rightarrow> header_map \<Rightarrow> local_reply) \<Rightarrow> runtime_ctx \<Rightarrow> bool \<Rightarrow> bool \<Rightarrow> bool \<Rightarrow> proxy_request \<Rightarrow>
      't agent_out list" where
  "proxy_task J H U method_of serve ctx start_open end_open err_open req =
    (case proxy_one_request J H U method_of serve ctx start_open end_open req of
       (Inr _, sent) \<Rightarrow> sent
     | (Inl err, sent) \<Rightarrow>
         sent @ snd (agent_send_control J err_open
           (ControlError (Some (pr_id req)) ''local_proxy_error'' err)))"

section \<open>One WebSocket stream\<close>

definition send_ws_frame_to_relay ::
    "bool \<Rightarrow> u8 \<Rightarrow> uuid \<Rightarrow> stream_kind \<Rightarrow> ws_opcode \<Rightarrow> bytes \<Rightarrow> (string + unit) \<times> 't agent_out list" where
  "send_ws_frame_to_relay relay_open version sid knd opcode payload =
    (let frame = encode_chunk_frame_with_version version
           \<lparr>kind = knd, request_id = sid, seq = 0, fin = True\<rparr> (encode_ws_payload opcode payload)
     in if relay_open then (Inr (), [ToRelay (MBinary frame)]) else (Inl ''relay channel closed'', []))"

text \<open>What a stream does: to the session table, to the relay, to the local server's socket.\<close>

datatype 't stream_action = Sess session_op | WPut "'t agent_out" | WLocal "string message"

definition local_message :: "ws_opcode \<Rightarrow> bytes \<Rightarrow> string message" where
  "local_message opcode payload =
    (case opcode of
       OpText \<Rightarrow> (case from_utf8 payload of Some text \<Rightarrow> MText text | None \<Rightarrow> MClose None)
     | OpBinary \<Rightarrow> MBinary payload
     | OpPing \<Rightarrow> MPing payload
     | OpPong \<Rightarrow> MPong payload
     | OpClose \<Rightarrow> MClose None)"

definition from_inbound :: "bool \<Rightarrow> ws_inbound_event option \<Rightarrow> bool \<times> string message list" where
  "from_inbound local_ok ev =
    (case ev of
       None \<Rightarrow> (False, [])
     | Some (InFrame opcode payload) \<Rightarrow> (local_ok, deliver local_ok (local_message opcode payload))
     | Some (InClose code reason) \<Rightarrow>
         (False, deliver local_ok (MClose (map_option
            (\<lambda>c. \<lparr>close_code = c, close_reason = (case reason of Some r \<Rightarrow> r | None \<Rightarrow> [])\<rparr>) code))))"

definition from_local ::
    "'t json \<Rightarrow> bool \<Rightarrow> uuid \<Rightarrow> u8 \<Rightarrow> string read option \<Rightarrow> bool \<times> 't agent_out list" where
  "from_local J relay_open sid version r =
    (let frame = (\<lambda>opcode payload.
           case send_ws_frame_to_relay relay_open version sid WsLocalFrame opcode payload of
             (Inl _, s) \<Rightarrow> (False, s) | (Inr _, s) \<Rightarrow> (True, s));
         close = (\<lambda>code reason. (False, snd (agent_send_control J relay_open (WsClose sid code reason))))
     in case r of
          None \<Rightarrow> close (Some 1000) (Some ''local ws ended'')
        | Some (ReadMsg (MText text)) \<Rightarrow> frame OpText (as_bytes text)
        | Some (ReadMsg (MBinary bs)) \<Rightarrow> frame OpBinary bs
        | Some (ReadMsg (MPing bs)) \<Rightarrow> frame OpPing bs
        | Some (ReadMsg (MPong bs)) \<Rightarrow> frame OpPong bs
        | Some (ReadMsg (MClose cl)) \<Rightarrow>
            (case cl of
               Some f \<Rightarrow> close (Some (close_code f)) (Some (close_reason f))
             | None \<Rightarrow> close (Some 1000) None)
        | Some ReadRawFrame \<Rightarrow> (True, [])
        | Some (ReadErr err) \<Rightarrow> close (Some 1011) (Some (''local ws read error: '' @ err)))"

datatype stream_event = Inbound bool "ws_inbound_event option" | LocalRead bool "string read option"

fun stream_loop :: "'t json \<Rightarrow> uuid \<Rightarrow> u8 \<Rightarrow> stream_event list \<Rightarrow> 't stream_action list \<times> bool" where
  "stream_loop J sid version [] = ([], False)"
| "stream_loop J sid version (Inbound ok ev # evs) =
    (case from_inbound ok ev of
       (go_on, ms) \<Rightarrow>
         if go_on then (case stream_loop J sid version evs of (tr, e) \<Rightarrow> (map WLocal ms @ tr, e))
         else (map WLocal ms, True))"
| "stream_loop J sid version (LocalRead relay_open r # evs) =
    (case from_local J relay_open sid version r of
       (go_on, s) \<Rightarrow>
         if go_on then (case stream_loop J sid version evs of (tr, e) \<Rightarrow> (map WPut s @ tr, e))
         else (map WPut s, True))"

text \<open>
  The request to the local server: the library's own headers, then the forwarded ones, then the
  subprotocols in place of any header of that name. \<open>client_request\<close> is the library's
  \<open>into_client_request\<close>, \<open>connect_local\<close> the handshake, which gives the response headers.
\<close>

definition hm_insert :: "string \<Rightarrow> bytes \<Rightarrow> header_map \<Rightarrow> header_map" where
  "hm_insert name value headers = filter (\<lambda>(n, _). n \<noteq> name) headers @ [(name, value)]"

definition ws_request_headers :: "http_lib \<Rightarrow> header_map \<Rightarrow> header_list \<Rightarrow> string list \<Rightarrow> header_map" where
  "ws_request_headers H req_headers headers subprotocols =
    (let hs = req_headers @ copy_headers (\<lambda>(key, value).
           if should_skip_ws_forward_header key then None
           else case header_name H key of None \<Rightarrow> None
             | Some name \<Rightarrow> (case header_value H value of None \<Rightarrow> None | Some v \<Rightarrow> Some (name, v))) headers
     in if subprotocols \<noteq> [] then
          (case header_value H (join_strings '', '' subprotocols) of
             Some value \<Rightarrow> hm_insert ''sec-websocket-protocol'' value hs
           | None \<Rightarrow> hs)
        else hs)"

record 'u local_ws =
  client_request :: "'u \<Rightarrow> string + header_map"
  connect_local :: "'u \<Rightarrow> header_map \<Rightarrow> string + header_map"

definition run_one_ws_stream ::
    "'t json \<Rightarrow> http_lib \<Rightarrow> 'u url_lib \<Rightarrow> 'u local_ws \<Rightarrow> runtime_ctx \<Rightarrow> chan \<Rightarrow> bool \<Rightarrow> stream_event list \<Rightarrow>
      ws_connect_request \<Rightarrow> (string + bool) \<times> 't stream_action list" where
  "run_one_ws_stream J H U L ctx in_tx ack_open evs req =
    (case compose_local_ws_url U (local_base ctx) (wr_path_and_query req) of
       Inl e \<Rightarrow> (Inl e, [])
     | Inr local_url \<Rightarrow>
        (case client_request L local_url of
           Inl e \<Rightarrow> (Inl e, [])
         | Inr req_headers \<Rightarrow>
            (case connect_local L local_url
                    (ws_request_headers H req_headers (wr_headers req) (wr_subprotocols req)) of
               Inl e \<Rightarrow> (Inl e, [])
             | Inr response_headers \<Rightarrow>
                (let selected = Option.bind (hm_get response_headers ''sec-websocket-protocol'') (value_to_str H)
                 in case agent_send_control J ack_open (WsConnectAck (wr_id req) True selected None) of
                      (Inl e, s) \<Rightarrow> (Inl e, map WPut s)
                    | (Inr _, s) \<Rightarrow>
                       (case stream_loop J (wr_id req) (relay_frame_version ctx) evs of
                          (tr, finished) \<Rightarrow>
                            (Inr finished,
                             map WPut s @ Sess (SessInsert (wr_id req) in_tx) # tr
                               @ (if finished then [Sess (SessRemove (wr_id req))] else [])))))))"

text \<open>The spawned task: a stream that could not be opened is rejected. \<open>True\<close> if it has ended.\<close>

definition handle_ws_connect ::
    "'t json \<Rightarrow> http_lib \<Rightarrow> 'u url_lib \<Rightarrow> 'u local_ws \<Rightarrow> runtime_ctx \<Rightarrow> chan \<Rightarrow> bool \<Rightarrow> bool \<Rightarrow> stream_event list \<Rightarrow>
      ws_connect_request \<Rightarrow> 't stream_action list \<times> bool" where
  "handle_ws_connect J H U L ctx in_tx ack_open nack_open evs req =
    (case run_one_ws_stream J H U L ctx in_tx ack_open evs req of
       (Inr finished, tr) \<Rightarrow> (tr, finished)
     | (Inl err, tr) \<Rightarrow>
         (tr @ map WPut (snd (agent_send_control J nack_open (WsConnectAck (wr_id req) False None (Some err))))
            @ [Sess (SessRemove (wr_id req))], True))"

section \<open>Reconnecting\<close>

text \<open>\<open>backoff_with_jitter\<close> in milliseconds; \<open>jitter_ms\<close> is the random number, below 500.\<close>

definition backoff_with_jitter :: "u32 \<Rightarrow> u64 \<Rightarrow> nat \<Rightarrow> nat" where
  "backoff_with_jitter attempt max_backoff_secs jitter_ms =
    (let exp = min (2 ^ min (unat attempt) 6) (2 ^ 64 - 1) :: nat;
         base_secs = max (min exp (unat max_backoff_secs)) 1
     in base_secs * 1000 + jitter_ms)"

definition next_attempt :: "u32 \<Rightarrow> string + unit \<Rightarrow> u32" where
  "next_attempt attempt r =
    (case r of Inr _ \<Rightarrow> 0 | Inl _ \<Rightarrow> if attempt = - 1 then - 1 else attempt + 1)"

definition derive_public_tunnel_url :: "'u url_lib \<Rightarrow> string \<Rightarrow> string \<Rightarrow> string option" where
  "derive_public_tunnel_url U relay_url tunnel_id =
    (case url_parse U relay_url of
       Inl _ \<Rightarrow> None
     | Inr url \<Rightarrow>
        (let s = url_scheme U url;
             scheme = (if s = ''ws'' then Some ''http'' else if s = ''wss'' then Some ''https''
                       else if s = ''http'' then Some ''http'' else if s = ''https'' then Some ''https''
                       else None)
         in case scheme of
              None \<Rightarrow> None
            | Some sc \<Rightarrow>
               (case url_set_scheme U sc url of
                  None \<Rightarrow> None
                | Some url \<Rightarrow>
                   (let relay_path = trim_end_char CHR ''/'' (url_path U url);
                        base_path = (case strip_suffix ''/ws'' relay_path of Some b \<Rightarrow> b | None \<Rightarrow> []);
                        tunnel_path = (if base_path = [] then ''/t/'' @ tunnel_id @ ''/''
                                       else base_path @ ''/t/'' @ tunnel_id @ ''/'')
                    in Some (url_to_string U (url_clear_fragment U (url_clear_query U
                         (url_set_path U tunnel_path url))))))))"

section \<open>What a request task tells the relay\<close>

text \<open>
  The operations of the relay's state that the agent's messages become when the relay's session
  reads them (\<open>read_ops\<close> of \<open>Relay_Session\<close>).
\<close>

definition relay_ops :: "'t json \<Rightarrow> 't agent_out list \<Rightarrow> state_op list" where
  "relay_ops J sent = concat (map (\<lambda>m. case m of ToRelay msg \<Rightarrow> read_ops J (ReadMsg msg) | _ \<Rightarrow> []) sent)"

lemma relay_ops_simps [simp]:
  "relay_ops J [] = []"
  "relay_ops J (xs @ ys) = relay_ops J xs @ relay_ops J ys"
  "relay_ops J (ToRelay msg # xs) = read_ops J (ReadMsg msg) @ relay_ops J xs"
  by (simp_all add: relay_ops_def)

lemma relay_ops_control:
  assumes "json_ok J"
  shows "relay_ops J (snd (agent_send_control J True msg)) = message_ops msg"
    and "fst (agent_send_control J True msg) = Inr ()"
proof -
  obtain t where "from_str J t = Inr msg" "agent_send_control J True msg = (Inr (), [ToRelay (MText t)])"
    using agent_send_control_ok [OF assms] by blast
  then show "relay_ops J (snd (agent_send_control J True msg)) = message_ops msg"
    and "fst (agent_send_control J True msg) = Inr ()"
    by (simp_all add: read_ops_def)
qed

lemma stream_response_body_ops:
  fixes J :: "'t json"
  assumes "is_supported_protocol_version v"
  shows "relay_ops J (snd (stream_response_body v rid n (map (\<lambda>b. (Chunk b, True)) bs @ rest))) =
      map (SNotifyBody rid) (filter (\<lambda>b. b \<noteq> []) bs)
        @ relay_ops J (snd (stream_response_body v rid (n + word_of_nat (length (filter (\<lambda>b. b \<noteq> []) bs))) rest))"
  using assms
  by (induction bs arbitrary: n)
     (simp_all add: Let_def case_prod_unfold read_ops_def frame_ops_def decode_encode add_ac)

lemma stream_response_body_result:
  "fst (stream_response_body v rid n (map (\<lambda>b. (Chunk b, True)) bs @ rest) :: _ \<times> 't agent_out list) =
    fst (stream_response_body v rid (n + word_of_nat (length (filter (\<lambda>b. b \<noteq> []) bs))) rest :: _ \<times> 't agent_out list)"
  by (induction bs arbitrary: n) (simp_all add: Let_def case_prod_unfold add_ac)

text \<open>
  The outcome of a request at the local server: an error before any response, or a status and
  headers with the chunks of the body and, if it breaks off, the error.
\<close>

datatype local_outcome = NoResponse string | Response u16 header_map "bytes list" "string option"

fun body_items :: "bytes list \<Rightarrow> string option \<Rightarrow> (body_item \<times> bool) list" where
  "body_items bs None = map (\<lambda>b. (Chunk b, True)) bs"
| "body_items bs (Some e) = map (\<lambda>b. (Chunk b, True)) bs @ [(BodyErr e, True)]"

definition local_outcome ::
    "http_lib \<Rightarrow> 'u url_lib \<Rightarrow> (string \<Rightarrow> string + string) \<Rightarrow> (string \<Rightarrow> 'u \<Rightarrow> header_map \<Rightarrow> local_reply) \<Rightarrow>
      string \<Rightarrow> proxy_request \<Rightarrow> local_outcome \<Rightarrow> bool" where
  "local_outcome H U method_of serve base req oc \<longleftrightarrow>
    (case compose_local_url U base (pr_path_and_query req) of
       Inl e \<Rightarrow> oc = NoResponse e
     | Inr url \<Rightarrow>
        (case method_of (pr_method req) of
           Inl e \<Rightarrow> oc = NoResponse e
         | Inr m \<Rightarrow>
            (case serve m url (apply_forward_headers H [] (pr_headers req)) of
               LocalErr e \<Rightarrow> oc = NoResponse e
             | LocalReply status headers items \<Rightarrow>
                 (case oc of
                    NoResponse _ \<Rightarrow> False
                  | Response s hs bs err \<Rightarrow> s = status \<and> hs = headers \<and> items = body_items bs err))))"

text \<open>What the relay should be told of an outcome.\<close>

fun outcome_ops :: "http_lib \<Rightarrow> uuid \<Rightarrow> local_outcome \<Rightarrow> state_op list" where
  "outcome_ops H rid (NoResponse e) = [SNotifyError rid ''local_proxy_error'' e]"
| "outcome_ops H rid (Response status headers bs err) =
     SNotifyStart rid status (flatten_response_headers H headers)
       # map (SNotifyBody rid) (filter (\<lambda>b. b \<noteq> []) bs)
       @ [case err of None \<Rightarrow> SNotifyEnd rid | Some e \<Rightarrow> SNotifyError rid ''local_proxy_error'' e]"

lemma proxy_task_relay_ops:
  fixes J :: "'a json"
  assumes "json_ok J" and "is_supported_protocol_version (relay_frame_version ctx)"
    and "local_outcome H U method_of serve (local_base ctx) req oc"
  shows "relay_ops J (proxy_task J H U method_of serve ctx True True True req) = outcome_ops H (pr_id req) oc"
proof (cases oc)
  case (NoResponse e)
  with assms(3) have "proxy_one_request J H U method_of serve ctx True True req = (Inl e, [])"
    by (auto simp: local_outcome_def proxy_one_request_def split: sum.splits local_reply.splits)
  with NoResponse show ?thesis by (simp add: proxy_task_def relay_ops_control [OF assms(1)])
next
  case (Response s hs bs err)
  let ?start = "HttpResponseStart (pr_id req) s (flatten_response_headers H hs)"
  let ?body = "stream_response_body (relay_frame_version ctx) (pr_id req) 0 (body_items bs err) :: _ \<times> 'a agent_out list"
  obtain ts where ts: "agent_send_control J True ?start = (Inr (), ts)" "relay_ops J ts = message_ops ?start"
    using relay_ops_control [OF assms(1), of ?start] by (metis prod.collapse)
  obtain te where te: "agent_send_control J True (HttpResponseEnd (pr_id req)) = (Inr (), te)"
      "relay_ops J te = message_ops (HttpResponseEnd (pr_id req))"
    using relay_ops_control [OF assms(1), of "HttpResponseEnd (pr_id req)"] by (metis prod.collapse)
  have one: "proxy_one_request J H U method_of serve ctx True True req =
      (case ?body of (Inl e, sb) \<Rightarrow> (Inl e, ts @ sb) | (Inr _, sb) \<Rightarrow> (Inr (), ts @ sb @ te))"
    using assms(3)
    by (auto simp: Response local_outcome_def proxy_one_request_def ts(1) te(1)
        split: sum.splits local_reply.splits prod.splits)
  note body_ops = stream_response_body_ops [OF assms(2), of J "pr_id req" 0 bs]
    and body_result = stream_response_body_result [of "relay_frame_version ctx" "pr_id req" 0 bs, where 't = 'a]
  show ?thesis
  proof (cases err)
    case None
    with body_ops [of "[]"] body_result [of "[]"] obtain sb where
      "?body = (Inr (), sb)" "relay_ops J sb = map (SNotifyBody (pr_id req)) (filter (\<lambda>b. b \<noteq> []) bs)"
      by (cases ?body) auto
    with one show ?thesis by (simp add: Response None proxy_task_def ts(2) te(2))
  next
    case (Some e)
    with body_ops [of "[(BodyErr e, True)]"] body_result [of "[(BodyErr e, True)]"] obtain sb where
      "?body = (Inl e, sb)" "relay_ops J sb = map (SNotifyBody (pr_id req)) (filter (\<lambda>b. b \<noteq> []) bs)"
      by (cases ?body) auto
    with one show ?thesis by (simp add: Response Some proxy_task_def ts(2) relay_ops_control [OF assms(1)])
  qed
qed

text \<open>
  C31: a request task answers its request exactly once. Whatever happens at the local server (no
  URL, no method, no connection, a response, a response that breaks off), the messages it sends are
  read by the relay as operations on this request: at most one start with the status and the
  filtered headers, the non-empty chunks in order, then exactly one end or error, nothing after it.
\<close>

theorem proxy_task_answers:
  assumes "json_ok J" and "is_supported_protocol_version (relay_frame_version ctx)"
    and "local_outcome H U method_of serve (local_base ctx) req oc"
  shows "relay_ops J (proxy_task J H U method_of serve ctx True True True req) =
    (case oc of
       NoResponse e \<Rightarrow> [SNotifyError (pr_id req) ''local_proxy_error'' e]
     | Response status headers bs err \<Rightarrow>
         SNotifyStart (pr_id req) status (flatten_response_headers H headers)
           # map (SNotifyBody (pr_id req)) (filter (\<lambda>b. b \<noteq> []) bs)
           @ [case err of None \<Rightarrow> SNotifyEnd (pr_id req)
                | Some e \<Rightarrow> SNotifyError (pr_id req) ''local_proxy_error'' e])"
  unfolding proxy_task_relay_ops [OF assms] by (cases oc) simp_all

text \<open>A local server for the instances: it answers every request with 201 and two chunks.\<close>

definition sample_serve :: "string \<Rightarrow> string \<Rightarrow> header_map \<Rightarrow> local_reply" where
  "sample_serve m u hs = LocalReply 201 [(''etag'', as_bytes ''x''), (''te'', as_bytes ''y'')]
     [(Chunk [1], True), (Chunk [], True), (Chunk [2, 3], True)]"

definition sample_ctx :: runtime_ctx where
  "sample_ctx = \<lparr>local_base = ''http://l'', relay_supports_ws = True, relay_frame_version = 1\<rparr>"

definition sample_proxy_request :: proxy_request where
  "sample_proxy_request = \<lparr>pr_id = 100, pr_method = ''GET'', pr_path_and_query = ''/x'', pr_headers = [],
     pr_body_rx = 5\<rparr>"

lemma sample_outcome:
  "local_outcome plain_http plain_url Inr sample_serve (local_base sample_ctx) sample_proxy_request
    (Response 201 [(''etag'', as_bytes ''x''), (''te'', as_bytes ''y'')] [[1], [], [2, 3]] None)"
  by (simp add: local_outcome_def compose_local_url_join plain_url_def sample_serve_def)

lemma sample_ctx_version: "is_supported_protocol_version (relay_frame_version sample_ctx)"
  by (simp add: sample_ctx_def)

theorem proxy_task_answers_witness:
  "relay_ops plain_json (proxy_task plain_json plain_http plain_url Inr sample_serve sample_ctx True True True
      sample_proxy_request) =
    [SNotifyStart 100 201 [(''etag'', ''x'')], SNotifyBody 100 [1], SNotifyBody 100 [2, 3], SNotifyEnd 100]"
  by (subst proxy_task_answers [OF plain_json_ok sample_ctx_version sample_outcome])
     (simp add: sample_proxy_request_def flatten_response_headers_def plain_http_def is_hop_header_def
        hop_headers_def to_ascii_lowercase_def ascii_lower_def)

section \<open>The reconnect delay\<close>

lemma backoff_bounds:
  "1000 * max 1 (min (min (2 ^ unat attempt) 64) (unat m)) + j = backoff_with_jitter attempt m j"
proof -
  have "(2::nat) ^ min (unat attempt) 6 = min (2 ^ unat attempt) 64"
  proof (cases "unat attempt \<le> 6")
    case True
    then have "(2::nat) ^ unat attempt \<le> 2 ^ 6" by (intro power_increasing) simp_all
    with True show ?thesis by (simp add: min_def)
  next
    case False
    then have "(2::nat) ^ 6 \<le> 2 ^ unat attempt" by (intro power_increasing) simp_all
    with False show ?thesis by (simp add: min_def)
  qed
  then show ?thesis by (simp add: backoff_with_jitter_def max.commute)
qed

text \<open>
  With a jitter below 500 ms each delay lies between one second and the least of 64 s and the
  configured maximum (but at least one second), plus the jitter; the counter saturates.
\<close>

lemma reconnect_delays_bounded:
  assumes "j < 500"
  shows "1000 \<le> backoff_with_jitter a m j \<and> backoff_with_jitter a m j < 1000 * max 1 (min 64 (unat m)) + 500 \<and>
    backoff_with_jitter 0 m j < 1500"
proof -
  have "max 1 (min (min (2 ^ unat a) 64) (unat m)) \<le> max 1 (min 64 (unat m))" by simp
  then show ?thesis
    unfolding backoff_bounds [symmetric] using assms by simp linarith
qed

section \<open>The end of a connection\<close>

text \<open>
  An unclean end of a connection leaks its streams. When the connection ends with a close or
  the end of the stream, both tables are empty and the tasks aborted; when a read fails, the
  function returns before its clean-up: the tasks are not aborted, and the session table is what
  the loop left, so its streams stay open at the local server.
\<close>

lemma read_error_skips_cleanup:
  "(case agent_loop J ctx rounds \<lparr>ag_inflight = [], ag_ws_sessions = []\<rparr> of
      (Inr _, _, _) \<Rightarrow> ce_aborted (run_connection J ctx rounds) \<and>
        ce_state (run_connection J ctx rounds) = \<lparr>ag_inflight = [], ag_ws_sessions = []\<rparr>
    | (Inl e, st, _) \<Rightarrow> \<not> ce_aborted (run_connection J ctx rounds) \<and>
        ag_ws_sessions (ce_state (run_connection J ctx rounds)) = ag_ws_sessions st) \<and>
   ce_aborted (run_connection J ctx [\<lparr>ar_tasks = [SessInsert sid tx], ar_open = True, ar_rx = \<lambda>_. True,
       ar_chan = c, ar_read = ReadErr e\<rparr>]) = False \<and>
   ag_ws_sessions (ce_state (run_connection J ctx [\<lparr>ar_tasks = [SessInsert sid tx], ar_open = True,
       ar_rx = \<lambda>_. True, ar_chan = c, ar_read = ReadErr e\<rparr>])) = [(sid, tx)]"
  by (auto simp: run_connection_def inflight_clear_def agent_read_def session_insert_def tbl_insert_def
      split: prod.splits sum.splits)

section \<open>The streams of the agent\<close>

fun adds_session :: "uuid \<Rightarrow> session_op \<Rightarrow> bool" where
  "adds_session sid (SessInsert s _) = (s = sid)" | "adds_session sid _ = False"

interpretation sess_entry: owned_entry "\<lambda>(_::unit) op st. (exec_session_op op st, [] :: unit list)" "\<lambda>_. True"
    "\<lambda>st. tbl_get (ag_ws_sessions st) sid \<noteq> None" "adds_session sid" "\<lambda>op. op = SessRemove sid" for sid
proof
  fix st op
  assume "tbl_get (ag_ws_sessions (fst (exec_session_op op st, [] :: unit list))) sid \<noteq> None"
  then show "adds_session sid op \<or> tbl_get (ag_ws_sessions st) sid \<noteq> None \<and> op \<noteq> SessRemove sid"
    by (cases op) (auto simp: session_insert_def cleanup_ws_session_def table_simps split: if_splits)
qed simp

definition session_ops :: "'t stream_action list \<Rightarrow> session_op list" where
  "session_ops tr = List.map_filter (\<lambda>a. case a of Sess op \<Rightarrow> Some op | _ \<Rightarrow> None) tr"

definition stream_to_relay :: "'t stream_action list \<Rightarrow> 't agent_out list" where
  "stream_to_relay tr = List.map_filter (\<lambda>a. case a of WPut m \<Rightarrow> Some m | _ \<Rightarrow> None) tr"

definition stream_to_local :: "'t stream_action list \<Rightarrow> string message list" where
  "stream_to_local tr = List.map_filter (\<lambda>a. case a of WLocal m \<Rightarrow> Some m | _ \<Rightarrow> None) tr"

lemma stream_trace_simps [simp]:
  "session_ops [] = []" "stream_to_relay [] = []" "stream_to_local [] = []"
  "session_ops (Sess op # tr) = op # session_ops tr" "session_ops (WPut m # tr) = session_ops tr"
  "session_ops (WLocal k # tr) = session_ops tr"
  "stream_to_relay (Sess op # tr) = stream_to_relay tr" "stream_to_relay (WPut m # tr) = m # stream_to_relay tr"
  "stream_to_relay (WLocal k # tr) = stream_to_relay tr"
  "stream_to_local (Sess op # tr) = stream_to_local tr" "stream_to_local (WPut m # tr) = stream_to_local tr"
  "stream_to_local (WLocal k # tr) = k # stream_to_local tr"
  by (simp_all add: session_ops_def stream_to_relay_def stream_to_local_def map_filter_simps)

lemma stream_trace_append [simp]:
  "session_ops (xs @ ys) = session_ops xs @ session_ops ys"
  "stream_to_relay (xs @ ys) = stream_to_relay xs @ stream_to_relay ys"
  "stream_to_local (xs @ ys) = stream_to_local xs @ stream_to_local ys"
  by (simp_all add: session_ops_def stream_to_relay_def stream_to_local_def List.map_filter_def)

lemma stream_trace_puts [simp]:
  "session_ops (map WPut ms) = []" "stream_to_relay (map WPut ms) = ms" "stream_to_local (map WPut ms) = []"
  by (induction ms) simp_all

lemma stream_trace_locals [simp]:
  "session_ops (map WLocal ks) = []" "stream_to_relay (map WLocal ks) = []" "stream_to_local (map WLocal ks) = ks"
  by (induction ks) simp_all

lemma stream_loop_ops [simp]: "session_ops (fst (stream_loop J sid v evs)) = []"
  by (induction J sid v evs rule: stream_loop.induct) (auto split: prod.splits)

lemma handle_ws_connect_ops:
  assumes "handle_ws_connect J H U L ctx tx ao no evs req = (tr, True)"
  shows "session_ops tr \<in> {[SessRemove (wr_id req)], [SessInsert (wr_id req) tx, SessRemove (wr_id req)]}"
proof -
  have "session_ops tr' = []" if "stream_loop J sid v evs = (tr', b)" for tr' b sid v
    using stream_loop_ops [of J sid v evs] that by simp
  with assms show ?thesis
    by (auto simp: handle_ws_connect_def run_one_ws_stream_def Let_def
        split: sum.splits prod.splits if_splits)
qed

text \<open>
  C34: a finished stream leaves the agent's table. Whether it could not be opened, the relay or the
  local server ended it, or a send failed, and however the other streams' tasks interleave, its
  session is gone afterwards.
\<close>

theorem agent_session_freed:
  fixes steps :: "(bool \<times> unit \<times> session_op) list"
  assumes "handle_ws_connect J H U L ctx tx ack_open nack_open evs req = (tr, True)"
    and "tbl_get (ag_ws_sessions st) (wr_id req) = None"
    and "interleaved (adds_session (wr_id req)) (session_ops tr) steps"
  shows "tbl_get (ag_ws_sessions (fold exec_session_op (map (snd \<circ> snd) steps) st)) (wr_id req) = None"
proof -
  have "\<not> held (adds_session (wr_id req)) (\<lambda>op. op = SessRemove (wr_id req)) (session_ops tr) False"
    using handle_ws_connect_ops [OF assms(1)] by auto
  from sess_entry.entry_freed [OF _ _ assms(3) this, of st] assms(2)
  have "tbl_get (ag_ws_sessions (fst (for_each (\<lambda>(w, op) st. (exec_session_op op st, [] :: unit list))
      (map snd steps) st))) (wr_id req) = None" by (simp add: case_prod_unfold)
  moreover have "fst (for_each (\<lambda>(w, op) st. (exec_session_op op st, [] :: unit list)) (map snd steps) st) =
      fold exec_session_op (map (snd \<circ> snd) steps) st"
    by (induction steps arbitrary: st) (auto simp: act_simps case_prod_unfold)
  ultimately show ?thesis by simp
qed

definition sample_connect :: ws_connect_request where
  "sample_connect = \<lparr>wr_id = 9, wr_path_and_query = ''/ws'', wr_headers = [], wr_subprotocols = []\<rparr>"

definition sample_local_ws :: "string local_ws" where
  "sample_local_ws = \<lparr>client_request = (\<lambda>u. Inr []), connect_local = (\<lambda>u hs. Inr [])\<rparr>"

lemma sample_stream:
  "handle_ws_connect plain_json plain_http plain_url sample_local_ws sample_ctx 70 True True
     [Inbound True (Some (InFrame OpBinary [1])), LocalRead True None] sample_connect =
   ([WPut (ToRelay (MText (WsConnectAck 9 True None None))), Sess (SessInsert 9 70), WLocal (MBinary [1]),
     WPut (ToRelay (MText (WsClose 9 (Some 1000) (Some ''local ws ended'')))), Sess (SessRemove 9)], True)"
  by (simp add: handle_ws_connect_def run_one_ws_stream_def sample_connect_def sample_local_ws_def sample_ctx_def
      compose_local_ws_url_def compose_local_url_join plain_url_def strip_suffix_def trim_start_char_def
      plain_json_def agent_send_control_def from_inbound_def local_message_def from_local_def hm_get_def Let_def)

theorem agent_session_freed_witness:
  "tbl_get (ag_ws_sessions (fold exec_session_op
     [SessInsert 8 60, SessInsert 9 70, SessRemove 8, SessRemove 9] \<lparr>ag_inflight = [], ag_ws_sessions = []\<rparr>)) 9 = None"
  using agent_session_freed [OF sample_stream, of "\<lparr>ag_inflight = [], ag_ws_sessions = []\<rparr>"
      "[(False, (), SessInsert 8 60), (True, (), SessInsert 9 70), (False, (), SessRemove 8), (True, (), SessRemove 9)]"]
  by (simp add: sample_connect_def interleaved_def)

end
