(* ===== verification/Agent_Upload.thy ===== *)
theory Agent_Upload
  imports Agent_Client
begin

text \<open>
  The request bodies of the agent as a concurrent system. \<open>Agent_Client\<close> gives the read loop of
  \<open>relay_client.rs\<close> as a function in which a send to a body channel is one step; here the channels
  are bounded, the loop waits in \<open>handle_binary_message\<close> until a channel has room or has lost its
  receiver, and the local server's side takes chunks, sees the end, or drops the body, in any order.
  Proved here: what the local server takes is what the relay sent for the request, in order and
  all that the agent had read when it sees the end; a send to a full channel stops the whole loop; and a body cut off by the loss
  of the connection ends for the local server like a complete one.
\<close>

section \<open>State\<close>

definition BODY_CAPACITY :: nat where
  "BODY_CAPACITY = 128"

text \<open>The loop reads a message, or holds a clone of a sender and waits to put a chunk on it, or has ended.\<close>

datatype read_loop = Reading | Sending chunk_header chan bytes | LoopLeft

text \<open>
  Besides the agent's tables: the chunks on each body channel and the channels whose receiver is
  there. The rest is history: the request each channel was made for, the chunks the loop has read
  for it while it was registered, those the HTTP client has taken, and the channels at whose end the
  client has been.
\<close>

record upload_system =
  us_agent :: agent_state
  us_loop :: read_loop
  us_queue :: "chan \<Rightarrow> bytes list"
  us_rx :: "chan set"
  us_owner :: "chan \<rightharpoonup> uuid"
  us_read :: "chan \<Rightarrow> bytes list"
  us_taken :: "chan \<Rightarrow> bytes list"
  us_ended :: "chan set"

definition new_uploads :: upload_system where
  "new_uploads = \<lparr>us_agent = \<lparr>ag_inflight = [], ag_ws_sessions = []\<rparr>, us_loop = Reading, us_queue = (\<lambda>_. []),
     us_rx = {}, us_owner = Map.empty, us_read = (\<lambda>_. []), us_taken = (\<lambda>_. []), us_ended = {}\<rparr>"

text \<open>A frame of a request body; the chunk that waits for a channel; whether a sender is left.\<close>

definition body_frame :: "bytes \<Rightarrow> (chunk_header \<times> bytes) option" where
  "body_frame bs =
    (case decode_chunk_header bs of
       Inl e \<Rightarrow> None
     | Inr (header, payload) \<Rightarrow> if kind header = RequestBody then Some (header, payload) else None)"

definition pending :: "upload_system \<Rightarrow> chan \<Rightarrow> bytes list" where
  "pending s c = (case us_loop s of Sending h d p \<Rightarrow> if d = c then [p] else [] | _ \<Rightarrow> [])"

definition has_sender :: "upload_system \<Rightarrow> chan \<Rightarrow> bool" where
  "has_sender s c \<longleftrightarrow> list_ex (\<lambda>(_, d). d = c) (ag_inflight (us_agent s)) \<or> pending s c \<noteq> []"

fun spawned :: "'t agent_out list \<Rightarrow> proxy_request option" where
  "spawned [] = None"
| "spawned (SpawnProxy r # out) = Some r"
| "spawned (_ # out) = spawned out"

text \<open>A spawned request has the receiver of its body.\<close>

definition start_body :: "proxy_request option \<Rightarrow> upload_system \<Rightarrow> upload_system" where
  "start_body r s =
    (case r of
       None \<Rightarrow> s
     | Some r \<Rightarrow> s\<lparr>us_owner := (us_owner s)(pr_body_rx r \<mapsto> pr_id r), us_rx := insert (pr_body_rx r) (us_rx s)\<rparr>)"

section \<open>Steps\<close>

datatype upload_label = AgentLoop | StreamTask | LocalServer chan

text \<open>
  The loop's steps are those of \<open>agent_read\<close>, with a body frame in two: cloning the sender, and
  the send. A channel made for a request is new. When the loop is left by a close or the end of the
  stream both tables are cleared; when it is left by a read error the body table is dropped with the
  function's locals and the session table stays (\<open>run_connection\<close>).
\<close>

inductive upload_step ::
    "'t json \<Rightarrow> runtime_ctx \<Rightarrow> upload_system \<Rightarrow> upload_label \<Rightarrow> upload_system \<Rightarrow> bool" for J ctx where
  text_read:
    "us_loop s = Reading \<Longrightarrow> us_owner s c = None \<Longrightarrow>
     agent_handle_text J relay_open rx ctx c t (us_agent s) = (st', out) \<Longrightarrow>
     upload_step J ctx s AgentLoop (start_body (spawned out) (s\<lparr>us_agent := st'\<rparr>))"
| other_read:
    "us_loop s = Reading \<Longrightarrow> agent_read J relay_open rx ctx c r (us_agent s) = (Inr True, st', out) \<Longrightarrow>
     \<forall>t. r \<noteq> ReadMsg (MText t) \<Longrightarrow> \<forall>bs. r = ReadMsg (MBinary bs) \<longrightarrow>
       (case body_frame bs of None \<Rightarrow> True | Some (h, p) \<Rightarrow> inflight_get (us_agent s) (request_id h) = None) \<Longrightarrow>
     upload_step J ctx s AgentLoop (s\<lparr>us_agent := st'\<rparr>)"
| chunk_read:
    "us_loop s = Reading \<Longrightarrow> body_frame bs = Some (h, p) \<Longrightarrow>
     inflight_get (us_agent s) (request_id h) = Some c \<Longrightarrow>
     upload_step J ctx s AgentLoop
       (s\<lparr>us_loop := Sending h c p, us_read := (us_read s)(c := us_read s c @ [p])\<rparr>)"
| chunk_sent:
    "us_loop s = Sending h c p \<Longrightarrow> c \<in> us_rx s \<Longrightarrow> length (us_queue s c) < BODY_CAPACITY \<Longrightarrow>
     upload_step J ctx s AgentLoop
       (s\<lparr>us_loop := Reading, us_queue := (us_queue s)(c := us_queue s c @ [p]),
          us_agent := (if fin h then inflight_remove (request_id h) (us_agent s) else us_agent s)\<rparr>)"
| chunk_lost:
    "us_loop s = Sending h c p \<Longrightarrow> c \<notin> us_rx s \<Longrightarrow>
     upload_step J ctx s AgentLoop
       (s\<lparr>us_loop := Reading, us_agent := inflight_remove (request_id h) (us_agent s)\<rparr>)"
| loop_left:
    "us_loop s = Reading \<Longrightarrow>
     upload_step J ctx s AgentLoop
       (s\<lparr>us_loop := LoopLeft,
          us_agent := (if read_failed then inflight_clear (us_agent s)
                       else (inflight_clear (us_agent s))\<lparr>ag_ws_sessions := []\<rparr>)\<rparr>)"
| session_changed:
    "upload_step J ctx s StreamTask (s\<lparr>us_agent := exec_session_op op (us_agent s)\<rparr>)"
| body_taken:
    "c \<in> us_rx s \<Longrightarrow> us_queue s c = p # rest \<Longrightarrow>
     upload_step J ctx s (LocalServer c)
       (s\<lparr>us_queue := (us_queue s)(c := rest), us_taken := (us_taken s)(c := us_taken s c @ [p])\<rparr>)"
| body_ended:
    "c \<in> us_rx s \<Longrightarrow> us_queue s c = [] \<Longrightarrow> \<not> has_sender s c \<Longrightarrow>
     upload_step J ctx s (LocalServer c) (s\<lparr>us_ended := insert c (us_ended s)\<rparr>)"
| body_dropped:
    "c \<in> us_rx s \<Longrightarrow>
     upload_step J ctx s (LocalServer c) (s\<lparr>us_rx := us_rx s - {c}, us_queue := (us_queue s)(c := [])\<rparr>)"

inductive uploads_reachable :: "'t json \<Rightarrow> runtime_ctx \<Rightarrow> upload_system \<Rightarrow> bool" for J ctx where
  uploads_init: "uploads_reachable J ctx new_uploads"
| uploads_next: "uploads_reachable J ctx s \<Longrightarrow> upload_step J ctx s l s' \<Longrightarrow> uploads_reachable J ctx s'"

inductive_cases upload_stepE: "upload_step J ctx s l s'"

section \<open>What the loop does to the table\<close>

lemma handle_text_cases:
  assumes "agent_handle_text J relay_open rx ctx c t st = (st', out)"
  obtains (start) r where "spawned out = Some r" "pr_body_rx r = c" "st' = inflight_insert (pr_id r) c st"
    | (remove) rid where "spawned out = None" "st' = inflight_remove rid st"
    | (keep) "spawned out = None" "st' = st"
proof (cases "from_str J t")
  case (Inl e)
  with assms show ?thesis by (intro keep) (auto simp: agent_handle_text_def)
next
  case (Inr msg)
  have control: "spawned (snd (agent_send_control J relay_open m)) = None" for m
    by (auto simp: agent_send_control_def split: sum.split)
  from Inr assms show ?thesis
    by (cases msg)
       (auto simp: agent_handle_text_def control deliver_def split: option.splits if_splits
          intro: start remove keep)
qed

lemma read_keeps:
  assumes "agent_read J relay_open rx ctx c r st = (Inr True, st', out)" and "\<forall>t. r \<noteq> ReadMsg (MText t)"
    and "\<forall>bs. r = ReadMsg (MBinary bs) \<longrightarrow>
      (case body_frame bs of None \<Rightarrow> True | Some (h, p) \<Rightarrow> inflight_get st (request_id h) = None)"
  obtains "st' = st" | rid where "st' = inflight_remove rid st"
  using assms
  by (cases r)
     (auto simp: agent_read_def agent_handle_binary_def body_frame_def andthen_def
        split: message.splits sum.splits stream_kind.splits option.splits if_splits prod.splits)

section \<open>The invariant\<close>

text \<open>
  Every entry of the table and the waiting chunk belong to the request their channel was made for;
  a channel that was not made has nothing; what was read for a live receiver is what was taken,
  queued and waits; a client that has been at the end has all and no sender is left.
\<close>

definition uploads_ok :: "upload_system \<Rightarrow> bool" where
  "uploads_ok s \<longleftrightarrow>
    tbl_ok (ag_inflight (us_agent s)) \<and>
    (\<forall>r c. (r, c) \<in> set (ag_inflight (us_agent s)) \<longrightarrow> us_owner s c = Some r) \<and>
    (\<forall>h c p. us_loop s = Sending h c p \<longrightarrow> us_owner s c = Some (request_id h)) \<and>
    (\<forall>c. us_owner s c = None \<longrightarrow> us_queue s c = [] \<and> us_read s c = [] \<and> us_taken s c = [] \<and>
       c \<notin> us_rx s \<and> c \<notin> us_ended s) \<and>
    (\<forall>c. c \<in> us_rx s \<longrightarrow> us_read s c = us_taken s c @ us_queue s c @ pending s c) \<and>
    (\<forall>c. length (us_queue s c) \<le> BODY_CAPACITY \<and> (\<exists>rest. us_read s c = us_taken s c @ rest)) \<and>
    (\<forall>c. c \<in> us_ended s \<longrightarrow> \<not> has_sender s c \<and> us_taken s c = us_read s c)"

lemma uploads_okD:
  assumes "uploads_ok s"
  shows "tbl_ok (ag_inflight (us_agent s))"
    and "(r, c) \<in> set (ag_inflight (us_agent s)) \<Longrightarrow> us_owner s c = Some r"
    and "us_loop s = Sending h c p \<Longrightarrow> us_owner s c = Some (request_id h)"
    and "us_owner s c = None \<Longrightarrow> us_queue s c = [] \<and> us_read s c = [] \<and> us_taken s c = [] \<and>
      c \<notin> us_rx s \<and> c \<notin> us_ended s"
    and "c \<in> us_rx s \<Longrightarrow> us_read s c = us_taken s c @ us_queue s c @ pending s c"
    and "length (us_queue s c) \<le> BODY_CAPACITY" and "\<exists>rest. us_read s c = us_taken s c @ rest"
    and "c \<in> us_ended s \<Longrightarrow> \<not> has_sender s c" and "c \<in> us_ended s \<Longrightarrow> us_taken s c = us_read s c"
  using assms unfolding uploads_ok_def by blast+

lemma uploads_okI:
  assumes "tbl_ok (ag_inflight (us_agent s))"
    and "\<And>r c. (r, c) \<in> set (ag_inflight (us_agent s)) \<Longrightarrow> us_owner s c = Some r"
    and "\<And>h c p. us_loop s = Sending h c p \<Longrightarrow> us_owner s c = Some (request_id h)"
    and "\<And>c. us_owner s c = None \<Longrightarrow> us_queue s c = [] \<and> us_read s c = [] \<and> us_taken s c = [] \<and>
      c \<notin> us_rx s \<and> c \<notin> us_ended s"
    and "\<And>c. c \<in> us_rx s \<Longrightarrow> us_read s c = us_taken s c @ us_queue s c @ pending s c"
    and "\<And>c. length (us_queue s c) \<le> BODY_CAPACITY" and "\<And>c. \<exists>rest. us_read s c = us_taken s c @ rest"
    and "\<And>c. c \<in> us_ended s \<Longrightarrow> \<not> has_sender s c" and "\<And>c. c \<in> us_ended s \<Longrightarrow> us_taken s c = us_read s c"
  shows "uploads_ok s"
  using assms unfolding uploads_ok_def by blast

lemma uploads_ok_new: "uploads_ok new_uploads"
  by (simp add: uploads_ok_def new_uploads_def BODY_CAPACITY_def)

lemma has_sender_mem: "has_sender s c \<longleftrightarrow> (\<exists>r. (r, c) \<in> set (ag_inflight (us_agent s))) \<or> pending s c \<noteq> []"
  by (auto simp: has_sender_def list_ex_iff)

lemma tbl_insert_subset: "tbl_ok t \<Longrightarrow> set (tbl_insert k v t) \<subseteq> insert (k, v) (set t)"
proof (intro subsetI)
  fix x assume ok: "tbl_ok t" and x: "x \<in> set (tbl_insert k v t)"
  then have "tbl_get (tbl_insert k v t) (fst x) = Some (snd x)" by (simp add: tbl_get_iff)
  with ok show "x \<in> insert (k, v) (set t)" by (cases x) (auto simp: table_simps tbl_get_iff split: if_splits)
qed

text \<open>A smaller table keeps the invariant, and so does a new channel.\<close>

lemma uploads_ok_shrink:
  assumes "uploads_ok s" and "tbl_ok (ag_inflight st)" and "set (ag_inflight st) \<subseteq> set (ag_inflight (us_agent s))"
  shows "uploads_ok (s\<lparr>us_agent := st\<rparr>)"
  using assms unfolding uploads_ok_def has_sender_mem pending_def by (simp add: subset_iff) blast

lemma uploads_ok_remove: "uploads_ok s \<Longrightarrow> uploads_ok (s\<lparr>us_agent := inflight_remove rid (us_agent s)\<rparr>)"
  by (rule uploads_ok_shrink) (simp_all add: inflight_remove_def uploads_okD(1) tbl_remove_subset)

lemma uploads_ok_start:
  assumes "uploads_ok s" and "us_owner s (pr_body_rx r) = None" and "us_loop s = Reading"
  shows "uploads_ok (start_body (Some r) (s\<lparr>us_agent := inflight_insert (pr_id r) (pr_body_rx r) (us_agent s)\<rparr>))"
proof -
  let ?t = "tbl_insert (pr_id r) (pr_body_rx r) (ag_inflight (us_agent s))"
  let ?s = "start_body (Some r) (s\<lparr>us_agent := inflight_insert (pr_id r) (pr_body_rx r) (us_agent s)\<rparr>)"
  note D = uploads_okD [OF assms(1)] and new = uploads_okD(4) [OF assms(1,2)]
  have sel: "us_loop ?s = Reading" "us_queue ?s = us_queue s" "us_read ?s = us_read s" "us_taken ?s = us_taken s"
    "us_ended ?s = us_ended s" "us_rx ?s = insert (pr_body_rx r) (us_rx s)"
    "us_owner ?s = (us_owner s)(pr_body_rx r \<mapsto> pr_id r)" "ag_inflight (us_agent ?s) = ?t"
    "pending ?s = (\<lambda>_. [])" "pending s = (\<lambda>_. [])"
    using assms(3) by (simp_all add: start_body_def inflight_insert_def pending_def fun_eq_iff)
  have entry: "(k, v) \<in> set ?t \<Longrightarrow> (k, v) = (pr_id r, pr_body_rx r) \<or> (k, v) \<in> set (ag_inflight (us_agent s))" for k v
    using tbl_insert_subset [OF uploads_okD(1) [OF assms(1)]] by blast
  show ?thesis
  proof (rule uploads_okI, unfold sel)
    show "tbl_ok ?t" using D(1) by simp
    show "((us_owner s)(pr_body_rx r \<mapsto> pr_id r)) c = Some k" if "(k, c) \<in> set ?t" for k c
      using entry [OF that] D(2) [of k c] assms(2) by auto
    show "us_queue s c = [] \<and> us_read s c = [] \<and> us_taken s c = [] \<and> c \<notin> insert (pr_body_rx r) (us_rx s) \<and> c \<notin> us_ended s"
      if "((us_owner s)(pr_body_rx r \<mapsto> pr_id r)) c = None" for c
      using that D(4) by (simp split: if_splits)
    show "us_read s c = us_taken s c @ us_queue s c @ []" if "c \<in> insert (pr_body_rx r) (us_rx s)" for c
      using that D(5) new by (auto simp: sel(10))
    show "us_taken s c = us_read s c" if "c \<in> us_ended s" for c using D(9) [OF that] .
    show "\<not> has_sender ?s c" if "c \<in> us_ended s" for c
      using D(8) [OF that] entry that new unfolding has_sender_mem sel by blast
  qed (use D in auto)
qed

lemma uploads_ok_chunk_read:
  assumes "uploads_ok s" and "us_loop s = Reading" and "inflight_get (us_agent s) (request_id h) = Some c"
  shows "uploads_ok (s\<lparr>us_loop := Sending h c p, us_read := (us_read s)(c := us_read s c @ [p])\<rparr>)" (is "uploads_ok ?s")
proof -
  note D = uploads_okD [OF assms(1)]
  have c: "(request_id h, c) \<in> set (ag_inflight (us_agent s))"
    using assms(3) D(1) by (simp add: inflight_get_def tbl_get_iff)
  have old: "pending s d = []" for d using assms(2) by (simp add: pending_def)
  have new: "pending ?s d = (if d = c then [p] else [])" for d by (simp add: pending_def)
  have "us_agent ?s = us_agent s" by simp
  then have sender: "has_sender ?s d \<Longrightarrow> has_sender s d" for d
    using c by (auto simp: has_sender_mem new split: if_splits)
  show ?thesis
  proof (rule uploads_okI)
    show "us_owner ?s d = Some (request_id h')" if "us_loop ?s = Sending h' d p'" for h' d p'
      using that D(2) [OF c] by simp
    show "us_queue ?s d = [] \<and> us_read ?s d = [] \<and> us_taken ?s d = [] \<and> d \<notin> us_rx ?s \<and> d \<notin> us_ended ?s"
      if "us_owner ?s d = None" for d
      using that D(4) [of d] D(2) [OF c] by auto
    show "us_read ?s d = us_taken ?s d @ us_queue ?s d @ pending ?s d" if "d \<in> us_rx ?s" for d
      using that D(5) [of d] by (simp add: new old) auto
    show "\<exists>rest. us_read ?s d = us_taken ?s d @ rest" for d
      using D(7) [of d] by auto
    show "us_taken ?s d = us_read ?s d" if "d \<in> us_ended ?s" for d
      using that D(8,9) [of d] c by (auto simp: has_sender_mem)
    show "\<not> has_sender ?s d" if "d \<in> us_ended ?s" for d
      using that D(8) [of d] sender by auto
  qed (use D in auto)
qed

lemma uploads_ok_chunk_sent:
  assumes "uploads_ok s" and "us_loop s = Sending h c p" and "c \<in> us_rx s" and "length (us_queue s c) < BODY_CAPACITY"
  shows "uploads_ok (s\<lparr>us_loop := Reading, us_queue := (us_queue s)(c := us_queue s c @ [p])\<rparr>)" (is "uploads_ok ?s")
proof -
  note D = uploads_okD [OF assms(1)]
  have old: "pending s d = (if d = c then [p] else [])" for d using assms(2) by (simp add: pending_def)
  have new: "pending ?s d = []" for d by (simp add: pending_def)
  have sender: "has_sender ?s d \<Longrightarrow> has_sender s d" for d by (auto simp: has_sender_mem new)
  show ?thesis
  proof (rule uploads_okI)
    show "us_queue ?s d = [] \<and> us_read ?s d = [] \<and> us_taken ?s d = [] \<and> d \<notin> us_rx ?s \<and> d \<notin> us_ended ?s"
      if "us_owner ?s d = None" for d
      using that D(4) [of d] assms(3) by auto
    show "us_read ?s d = us_taken ?s d @ us_queue ?s d @ pending ?s d" if "d \<in> us_rx ?s" for d
      using that D(5) [of d] by (simp add: new) (simp add: old)
    show "length (us_queue ?s d) \<le> BODY_CAPACITY" for d using D(6) [of d] assms(4) by simp
    show "\<not> has_sender ?s d" if "d \<in> us_ended ?s" for d using that D(8) [of d] sender by auto
  qed (use D in auto)
qed

lemma uploads_ok_chunk_lost:
  assumes "uploads_ok s" and "us_loop s = Sending h c p" and "c \<notin> us_rx s"
  shows "uploads_ok (s\<lparr>us_loop := Reading\<rparr>)" (is "uploads_ok ?s")
proof -
  note D = uploads_okD [OF assms(1)]
  have old: "pending s d = (if d = c then [p] else [])" for d using assms(2) by (simp add: pending_def)
  have new: "pending ?s d = []" for d by (simp add: pending_def)
  show ?thesis
  proof (rule uploads_okI)
    show "us_read ?s d = us_taken ?s d @ us_queue ?s d @ pending ?s d" if "d \<in> us_rx ?s" for d
      using that D(5) [of d] assms(3) by (auto simp: new old split: if_splits)
    show "\<not> has_sender ?s d" if "d \<in> us_ended ?s" for d
      using that D(8) [of d] by (auto simp: has_sender_mem new)
  qed (use D in auto)
qed

lemma uploads_ok_body_taken:
  assumes "uploads_ok s" and "c \<in> us_rx s" and "us_queue s c = p # rest"
  shows "uploads_ok (s\<lparr>us_queue := (us_queue s)(c := rest), us_taken := (us_taken s)(c := us_taken s c @ [p])\<rparr>)" (is "uploads_ok ?s")
proof -
  note D = uploads_okD [OF assms(1)]
  have same: "pending ?s = pending s" "has_sender ?s = has_sender s"
    by (simp_all add: pending_def has_sender_def fun_eq_iff)
  show ?thesis
  proof (rule uploads_okI)
    show "us_queue ?s d = [] \<and> us_read ?s d = [] \<and> us_taken ?s d = [] \<and> d \<notin> us_rx ?s \<and> d \<notin> us_ended ?s"
      if "us_owner ?s d = None" for d
      using that D(4) [of d] assms(2) by auto
    show "us_read ?s d = us_taken ?s d @ us_queue ?s d @ pending ?s d" if "d \<in> us_rx ?s" for d
      using that D(5) [of d] assms(3) by (auto simp: same)
    show "length (us_queue ?s d) \<le> BODY_CAPACITY" for d
      using D(6) [of d] assms(3) by auto
    show "\<exists>rest. us_read ?s d = us_taken ?s d @ rest" for d
      using D(7) [of d] D(5) [OF assms(2)] assms(3) by auto
    show "us_taken ?s d = us_read ?s d" if "d \<in> us_ended ?s" for d
      using that D(9) [of d] D(5) [OF assms(2)] assms(3) by auto
    show "\<not> has_sender ?s d" if "d \<in> us_ended ?s" for d
      using that D(8) [of d] by (simp add: same)
  qed (use D in auto)
qed

lemma uploads_ok_body_ended:
  assumes "uploads_ok s" and "c \<in> us_rx s" and "us_queue s c = []" and "\<not> has_sender s c"
  shows "uploads_ok (s\<lparr>us_ended := insert c (us_ended s)\<rparr>)" (is "uploads_ok ?s")
proof -
  note D = uploads_okD [OF assms(1)]
  have same: "pending ?s = pending s" "has_sender ?s = has_sender s"
    by (simp_all add: pending_def has_sender_def fun_eq_iff)
  have "pending s c = []" using assms(4) by (simp add: has_sender_mem)
  then have all: "us_taken s c = us_read s c" using D(5) [OF assms(2)] assms(3) by simp
  show ?thesis
  proof (rule uploads_okI)
    show "us_queue ?s d = [] \<and> us_read ?s d = [] \<and> us_taken ?s d = [] \<and> d \<notin> us_rx ?s \<and> d \<notin> us_ended ?s"
      if "us_owner ?s d = None" for d
      using that D(4) [of d] assms(2) by auto
    show "us_read ?s d = us_taken ?s d @ us_queue ?s d @ pending ?s d" if "d \<in> us_rx ?s" for d
      using that D(5) [of d] by (simp add: same)
    show "\<not> has_sender ?s d" "us_taken ?s d = us_read ?s d" if "d \<in> us_ended ?s" for d
      using that D(8,9) [of d] assms(4) all by (auto simp: same)
  qed (use D in auto)
qed

lemma uploads_ok_body_dropped:
  assumes "uploads_ok s"
  shows "uploads_ok (s\<lparr>us_rx := us_rx s - {c}, us_queue := (us_queue s)(c := [])\<rparr>)" (is "uploads_ok ?s")
proof -
  note D = uploads_okD [OF assms(1)]
  have same: "pending ?s = pending s" "has_sender ?s = has_sender s"
    by (simp_all add: pending_def has_sender_def fun_eq_iff)
  show ?thesis
  proof (rule uploads_okI)
    show "us_read ?s d = us_taken ?s d @ us_queue ?s d @ pending ?s d" if "d \<in> us_rx ?s" for d
      using that D(5) [of d] by (auto simp: same)
    show "\<not> has_sender ?s d" if "d \<in> us_ended ?s" for d
      using that D(8) [of d] by (simp add: same)
  qed (use D in auto)
qed

lemma uploads_ok_left:
  assumes "uploads_ok s" and "us_loop s = Reading" and "ag_inflight st = []"
  shows "uploads_ok (s\<lparr>us_loop := LoopLeft, us_agent := st\<rparr>)"
proof -
  have "uploads_ok (s\<lparr>us_agent := st\<rparr>)"
    by (rule uploads_ok_shrink [OF assms(1)]) (simp_all add: assms(3))
  moreover have "pending (s\<lparr>us_loop := LoopLeft, us_agent := a\<rparr>) = pending (s\<lparr>us_agent := a\<rparr>)" for a
    using assms(2) by (simp add: pending_def fun_eq_iff)
  ultimately show ?thesis unfolding uploads_ok_def has_sender_mem by simp
qed

lemma uploads_ok_step:
  assumes "uploads_ok s" and "upload_step J ctx s l s'"
  shows "uploads_ok s'"
  using assms(2)
proof cases
  case (text_read c relay_open rx t st' out)
  from text_read(5) show ?thesis
  proof (cases rule: handle_text_cases)
    case (start r)
    with text_read uploads_ok_start [OF assms(1), of r] show ?thesis by simp
  qed (use text_read assms(1) uploads_ok_remove [OF assms(1)] in \<open>simp_all add: start_body_def\<close>)
next
  case (other_read relay_open rx c r st' out)
  from other_read(4-6) show ?thesis
    by (rule read_keeps) (use other_read(2) assms(1) uploads_ok_remove in simp_all)
next
  case (chunk_sent h c p)
  note sent = uploads_ok_chunk_sent [OF assms(1) chunk_sent(3-5)]
  from sent uploads_ok_remove [OF sent, of "request_id h"] show ?thesis
    using chunk_sent(2) by (simp split: if_splits)
next
  case (chunk_lost h c p)
  from uploads_ok_remove [OF uploads_ok_chunk_lost [OF assms(1) chunk_lost(3,4)], of "request_id h"]
  show ?thesis by (simp add: chunk_lost(2))
next
  case (session_changed op)
  show ?thesis unfolding session_changed
    by (rule uploads_ok_shrink [OF assms(1)])
       (cases op; simp add: session_insert_def cleanup_ws_session_def uploads_okD(1) [OF assms(1)])+
qed (use assms(1) in \<open>simp_all add: uploads_ok_chunk_read uploads_ok_left inflight_clear_def uploads_ok_body_taken
    uploads_ok_body_ended uploads_ok_body_dropped\<close>)

lemma uploads_ok_reachable: "uploads_reachable J ctx s \<Longrightarrow> uploads_ok s"
  by (induction rule: uploads_reachable.induct) (auto intro: uploads_ok_new uploads_ok_step)


section \<open>A chunk that passes is a step of the read loop\<close>

text \<open>With room in the channel, reading a body frame and sending its chunk is \<open>agent_read\<close>.\<close>

lemma chunk_is_read:
  fixes J :: "'t json"
  assumes "us_loop s = Reading" and "body_frame bs = Some (h, p)"
    and "inflight_get (us_agent s) (request_id h) = Some c" and "c \<in> us_rx s"
    and "length (us_queue s c) < BODY_CAPACITY"
  obtains s1 s2 where "upload_step J ctx s AgentLoop s1" and "upload_step J ctx s1 AgentLoop s2"
    and "agent_read J relay_open (\<lambda>d. d \<in> us_rx s) ctx c' (ReadMsg (MBinary bs)) (us_agent s) =
      (Inr True, us_agent s2, [ToBody c p])"
    and "us_loop s2 = Reading" and "us_rx s2 = us_rx s" and "us_queue s2 = (us_queue s)(c := us_queue s c @ [p])"
proof
  let ?s1 = "s\<lparr>us_loop := Sending h c p, us_read := (us_read s)(c := us_read s c @ [p])\<rparr>"
  let ?s2 = "?s1\<lparr>us_loop := Reading, us_queue := (us_queue ?s1)(c := us_queue ?s1 c @ [p]),
      us_agent := (if fin h then inflight_remove (request_id h) (us_agent ?s1) else us_agent ?s1)\<rparr>"
  show "upload_step J ctx s AgentLoop ?s1" by (rule chunk_read) (rule assms)+
  show "upload_step J ctx ?s1 AgentLoop ?s2" by (rule chunk_sent) (simp_all add: assms)
  show "agent_read J relay_open (\<lambda>d. d \<in> us_rx s) ctx c' (ReadMsg (MBinary bs)) (us_agent s) =
      (Inr True, us_agent ?s2, [ToBody c p])"
    using assms(2-4)
    by (auto simp: agent_read_def agent_handle_binary_def body_frame_def andthen_def split: sum.splits if_splits)
qed simp_all

section \<open>Reachable states with a request\<close>

text \<open>A state in which the loop reads and the given request has its channel, with chunks queued.\<close>

definition upload_state :: "agent_state \<Rightarrow> uuid \<Rightarrow> chan \<Rightarrow> bytes list \<Rightarrow> upload_system" where
  "upload_state st rid c q = new_uploads\<lparr>us_agent := st, us_owner := [c \<mapsto> rid], us_rx := {c},
     us_queue := (\<lambda>_. [])(c := q), us_read := (\<lambda>_. [])(c := q)\<rparr>"

lemma upload_state_sel [simp]:
  "us_agent (upload_state st rid c q) = st" "us_loop (upload_state st rid c q) = Reading"
  "us_owner (upload_state st rid c q) = [c \<mapsto> rid]" "us_rx (upload_state st rid c q) = {c}"
  "us_queue (upload_state st rid c q) = (\<lambda>_. [])(c := q)" "us_read (upload_state st rid c q) = (\<lambda>_. [])(c := q)"
  "us_taken (upload_state st rid c q) = (\<lambda>_. [])" "us_ended (upload_state st rid c q) = {}"
  by (simp_all add: upload_state_def new_uploads_def)

lemma upload_starts:
  assumes "from_str J t = Inr (HttpRequestStart rid m pq hs)"
  shows "uploads_reachable J ctx (upload_state \<lparr>ag_inflight = [(rid, c)], ag_ws_sessions = []\<rparr> rid c [])"
proof -
  have "agent_handle_text J True (\<lambda>_. True) ctx c t (us_agent new_uploads) =
      (\<lparr>ag_inflight = [(rid, c)], ag_ws_sessions = []\<rparr>,
       [SpawnProxy \<lparr>pr_id = rid, pr_method = m, pr_path_and_query = pq, pr_headers = hs, pr_body_rx = c\<rparr>])"
    by (simp add: agent_handle_text_def assms new_uploads_def inflight_insert_def tbl_insert_def)
  from text_read [OF _ _ this] have "upload_step J ctx new_uploads AgentLoop
      (upload_state \<lparr>ag_inflight = [(rid, c)], ag_ws_sessions = []\<rparr> rid c [])"
    by (simp add: new_uploads_def upload_state_def start_body_def fun_upd_idem)
  then show ?thesis by (rule uploads_next [OF uploads_init])
qed

lemma upload_fills:
  assumes "uploads_reachable J ctx (upload_state st rid c [])" and "inflight_get st rid = Some c"
    and "body_frame bs = Some (h, p)" and "request_id h = rid" and "\<not> fin h" and "n \<le> BODY_CAPACITY"
  shows "uploads_reachable J ctx (upload_state st rid c (replicate n p))"
  using assms(6)
proof (induction n)
  case (Suc n)
  let ?s = "upload_state st rid c (replicate n p)"
  let ?s1 = "?s\<lparr>us_loop := Sending h c p, us_read := (us_read ?s)(c := us_read ?s c @ [p])\<rparr>"
  have r: "uploads_reachable J ctx ?s" using Suc by simp
  have "upload_step J ctx ?s AgentLoop ?s1"
    by (rule chunk_read [OF _ assms(3)]) (simp_all add: assms(2,4))
  with r have r1: "uploads_reachable J ctx ?s1" by (rule uploads_next)
  have "upload_step J ctx ?s1 AgentLoop (?s1\<lparr>us_loop := Reading, us_queue := (us_queue ?s1)(c := us_queue ?s1 c @ [p]),
      us_agent := (if fin h then inflight_remove (request_id h) (us_agent ?s1) else us_agent ?s1)\<rparr>)"
    by (rule chunk_sent) (use Suc.prems in simp_all)
  from uploads_next [OF r1 this] show ?case
    by (simp add: assms(5) upload_state_def new_uploads_def replicate_append_same)
qed (simp add: assms(1))


section \<open>What the system shows\<close>

text \<open>
  C19: the local server gets the chunks of a request's body that the agent read, in order and without
  loss. At every moment what it has taken from a channel is a beginning of what the agent has read for
  that request; as long as it keeps the receiver the rest is queued or waits; when it has seen the
  end it has taken all that the agent had read for it, and no sender is left that could add to it;
  never more than 128 chunks are buffered. Whether the agent had read the whole body by then is not
  said: if the connection was lost in between, it had not.
\<close>

theorem upload_in_order:
  fixes J :: "'t json"
  assumes "uploads_reachable J ctx s"
  shows "(\<exists>rest. us_read s c = us_taken s c @ rest) \<and>
    (c \<in> us_rx s \<longrightarrow> us_read s c = us_taken s c @ us_queue s c @ pending s c) \<and>
    (c \<in> us_ended s \<longrightarrow> us_taken s c = us_read s c \<and> \<not> has_sender s c) \<and> length (us_queue s c) \<le> BODY_CAPACITY"
  using uploads_okD(5-9) [OF uploads_ok_reachable [OF assms]] by blast

text \<open>A request with three chunks read, as a state that is reached.\<close>

definition sample_upload :: "nat \<Rightarrow> upload_system" where
  "sample_upload n = upload_state \<lparr>ag_inflight = [(7, 30)], ag_ws_sessions = []\<rparr> 7 30 (replicate n [65])"

definition upload_frame :: bytes where
  "upload_frame = encode_chunk_frame_with_version 2 \<lparr>kind = RequestBody, request_id = 7, seq = 0, fin = False\<rparr> [65]"

lemma upload_frame_body:
  "body_frame upload_frame = Some (\<lparr>kind = RequestBody, request_id = 7, seq = 0, fin = False\<rparr>, [65])"
  by (simp add: body_frame_def upload_frame_def decode_encode is_supported_protocol_version_def PROTOCOL_VERSION_def)

lemma sample_upload_entry: "inflight_get (us_agent (sample_upload n)) 7 = Some 30"
  by (simp add: sample_upload_def inflight_get_def tbl_get_def)

lemma sample_upload_reachable:
  assumes "n \<le> BODY_CAPACITY"
  shows "uploads_reachable plain_json ctx (sample_upload n)"
proof -
  have "from_str plain_json (HttpRequestStart 7 ''POST'' ''/'' []) = Inr (HttpRequestStart 7 ''POST'' ''/'' [])"
    by (simp add: plain_json_def)
  from upload_fills [OF upload_starts [OF this, where c = 30] _ upload_frame_body _ _ assms] show ?thesis
    by (simp add: sample_upload_def inflight_get_def tbl_get_def)
qed

theorem upload_in_order_witness:
  "(\<exists>rest. us_read (sample_upload 3) 30 = us_taken (sample_upload 3) 30 @ rest) \<and>
   us_read (sample_upload 3) 30 = [[65], [65], [65]]"
proof -
  have "uploads_reachable plain_json ctx (sample_upload 3)" for ctx
    by (rule sample_upload_reachable) (simp add: BODY_CAPACITY_def)
  from upload_in_order [OF this, of 30] show ?thesis by (simp add: sample_upload_def numeral_3_eq_3)
qed

text \<open>The steps in which the local server does nothing with the given channel.\<close>

definition others_step :: "'t json \<Rightarrow> runtime_ctx \<Rightarrow> chan \<Rightarrow> upload_system \<Rightarrow> upload_system \<Rightarrow> bool" where
  "others_step J ctx c s s' \<longleftrightarrow> (\<exists>l. l \<noteq> LocalServer c \<and> upload_step J ctx s l s')"

definition blocked_on :: "chan \<Rightarrow> upload_system \<Rightarrow> bool" where
  "blocked_on c s \<longleftrightarrow> (\<exists>h p. us_loop s = Sending h c p) \<and> c \<in> us_rx s \<and> length (us_queue s c) = BODY_CAPACITY"

lemma blocked_agent:
  assumes "blocked_on c s" and "upload_step J ctx s l s'"
  shows "l \<noteq> AgentLoop"
  using assms(2) by cases (use assms(1) in \<open>auto simp: blocked_on_def\<close>)

lemma blocked_others:
  assumes "blocked_on c s" and "others_step J ctx c s s'"
  shows "blocked_on c s' \<and> us_read s' = us_read s \<and> us_owner s' = us_owner s \<and>
    ag_inflight (us_agent s') = ag_inflight (us_agent s)"
proof -
  obtain l where l: "l \<noteq> LocalServer c" "upload_step J ctx s l s'" using assms(2) by (auto simp: others_step_def)
  note no = blocked_agent [OF assms(1) l(2)]
  from l(2) show ?thesis
  proof cases
    case (session_changed op)
    then show ?thesis using assms(1)
      by (cases op) (auto simp: blocked_on_def session_insert_def cleanup_ws_session_def)
  qed (use no l(1) assms(1) in \<open>auto simp: blocked_on_def\<close>)
qed

text \<open>
  C23: one local request that does not take its body stops the agent. While the read loop has read a
  chunk and waits to put it on a channel that is full and whose receiver is there, whatever the stream tasks and the other local requests do, it stays
  there: no frame is read for any request, no request starts and no entry changes, until the
  local server takes a chunk of that very body or drops it.
\<close>

theorem slow_upload_blocks_agent:
  fixes J :: "'t json"
  assumes "blocked_on c s" and "(others_step J ctx c)\<^sup>*\<^sup>* s s'"
  shows "blocked_on c s' \<and> us_read s' = us_read s \<and> us_owner s' = us_owner s \<and>
    ag_inflight (us_agent s') = ag_inflight (us_agent s) \<and> (\<nexists>s''. upload_step J ctx s' AgentLoop s'')"
proof -
  from assms(2) have "blocked_on c s' \<and> us_read s' = us_read s \<and> us_owner s' = us_owner s \<and>
    ag_inflight (us_agent s') = ag_inflight (us_agent s)"
  proof (induction rule: rtranclp_induct)
    case (step y z)
    with blocked_others [of c y J ctx z] show ?case by simp
  qed (use assms(1) in simp)
  then show ?thesis using blocked_agent by blast
qed

text \<open>The blocked state is reached: 128 chunks of one body, and one more read.\<close>

theorem slow_upload_blocks_agent_witness:
  "\<exists>s. uploads_reachable plain_json sample_ctx s \<and> blocked_on 30 s \<and>
     (\<nexists>s'. upload_step plain_json sample_ctx s AgentLoop s')"
proof -
  let ?s = "sample_upload BODY_CAPACITY" and ?h = "\<lparr>kind = RequestBody, request_id = 7, seq = 0, fin = False\<rparr>"
  let ?s1 = "?s\<lparr>us_loop := Sending ?h 30 [65], us_read := (us_read ?s)(30 := us_read ?s 30 @ [[65]])\<rparr>"
  have "upload_step plain_json sample_ctx ?s AgentLoop ?s1"
    by (rule chunk_read [OF _ upload_frame_body]) (use sample_upload_entry in \<open>simp_all add: sample_upload_def\<close>)
  from uploads_next [OF sample_upload_reachable this] have r: "uploads_reachable plain_json sample_ctx ?s1" by simp
  have b: "blocked_on 30 ?s1" by (simp add: blocked_on_def sample_upload_def)
  from slow_upload_blocks_agent [OF b rtranclp.rtrancl_refl] r b show ?thesis by blast
qed

text \<open>A client that has taken all of a body whose entry goes is at the end.\<close>

lemma body_over:
  assumes "uploads_ok s" and "inflight_get (us_agent s) rid = Some c" and "c \<in> us_rx s" and "us_queue s c = []"
    and "us_loop s = Reading" and "rid \<notin> fst ` set (ag_inflight st)"
    and "set (ag_inflight st) \<subseteq> set (ag_inflight (us_agent s))" and "\<And>h d p. l \<noteq> Sending h d p"
  shows "upload_step J ctx (s\<lparr>us_loop := l, us_agent := st\<rparr>) (LocalServer c)
    (s\<lparr>us_loop := l, us_agent := st, us_ended := insert c (us_ended s)\<rparr>)"
proof -
  note D = uploads_okD [OF assms(1)]
  have "us_owner s c = Some rid" by (rule D(2)) (use assms(2) D(1) in \<open>simp add: inflight_get_def tbl_get_iff\<close>)
  then have "(r, c) \<notin> set (ag_inflight st)" for r using D(2) [of r c] assms(6,7) by force
  then have "\<not> has_sender (s\<lparr>us_loop := l, us_agent := st\<rparr>) c"
    using assms(8) by (auto simp: has_sender_mem pending_def split: read_loop.splits)
  from body_ended [OF _ _ this] show ?thesis by (simp add: assms(3,4))
qed


text \<open>
  C24: a body that is cut off looks complete. When the local server has taken all that was read of a
  body so far, both the relay's end of the request and the loss of the connection to the relay lead
  to the same end of the body for it, with the same chunks: the HTTP client sends a truncated request
  as a complete one.
\<close>

theorem cut_upload_looks_complete:
  fixes J :: "'t json"
  assumes "uploads_reachable J ctx s" and "us_loop s = Reading" and "inflight_get (us_agent s) rid = Some c"
    and "c \<in> us_rx s" and "us_queue s c = []" and "from_str J t = Inr (HttpRequestEnd rid)"
    and "us_owner s fresh = None"
  shows "\<exists>whole whole_end cut cut_end.
    upload_step J ctx s AgentLoop whole \<and> us_loop whole = Reading \<and>
    upload_step J ctx whole (LocalServer c) whole_end \<and>
    upload_step J ctx s AgentLoop cut \<and> us_loop cut = LoopLeft \<and>
    upload_step J ctx cut (LocalServer c) cut_end \<and>
    c \<in> us_ended whole_end \<and> c \<in> us_ended cut_end \<and>
    us_taken whole_end c = us_read s c \<and> us_taken cut_end c = us_read s c"
proof -
  let ?whole = "s\<lparr>us_loop := Reading, us_agent := inflight_remove rid (us_agent s)\<rparr>"
  let ?cut = "s\<lparr>us_loop := LoopLeft, us_agent := inflight_clear (us_agent s)\<rparr>"
  note ok = uploads_ok_reachable [OF assms(1)]
  have all: "us_taken s c = us_read s c"
    using uploads_okD(5) [OF ok assms(4)] assms(2,5) by (simp add: pending_def)
  have "agent_handle_text J True (\<lambda>_. True) ctx fresh t (us_agent s) = (inflight_remove rid (us_agent s), [])"
    by (simp add: agent_handle_text_def assms(6))
  from text_read [OF assms(2,7) this] have "upload_step J ctx s AgentLoop ?whole"
    using assms(2) by (cases s) (simp add: start_body_def)
  moreover have "upload_step J ctx s AgentLoop ?cut"
    using loop_left [OF assms(2), of J ctx True] by simp
  moreover have "upload_step J ctx ?whole (LocalServer c) (?whole\<lparr>us_ended := insert c (us_ended s)\<rparr>)"
    by (rule body_over [OF ok assms(3-5,2)]) (auto simp: inflight_remove_def tbl_remove_def AList.delete_eq)
  moreover have "upload_step J ctx ?cut (LocalServer c) (?cut\<lparr>us_ended := insert c (us_ended s)\<rparr>)"
    by (rule body_over [OF ok assms(3-5,2)]) (simp_all add: inflight_clear_def)
  ultimately show ?thesis
    by (intro exI [of _ ?whole] exI [of _ "?whole\<lparr>us_ended := insert c (us_ended s)\<rparr>"]
        exI [of _ ?cut] exI [of _ "?cut\<lparr>us_ended := insert c (us_ended s)\<rparr>"]) (simp add: all)
qed

theorem cut_upload_looks_complete_witness:
  "\<exists>cut cut_end. upload_step plain_json sample_ctx (sample_upload 0) AgentLoop cut \<and> us_loop cut = LoopLeft \<and>
     upload_step plain_json sample_ctx cut (LocalServer 30) cut_end \<and> 30 \<in> us_ended cut_end"
proof -
  have "\<exists>whole whole_end cut cut_end.
    upload_step plain_json sample_ctx (sample_upload 0) AgentLoop whole \<and> us_loop whole = Reading \<and>
    upload_step plain_json sample_ctx whole (LocalServer 30) whole_end \<and>
    upload_step plain_json sample_ctx (sample_upload 0) AgentLoop cut \<and> us_loop cut = LoopLeft \<and>
    upload_step plain_json sample_ctx cut (LocalServer 30) cut_end \<and>
    30 \<in> us_ended whole_end \<and> 30 \<in> us_ended cut_end \<and>
    us_taken whole_end 30 = us_read (sample_upload 0) 30 \<and> us_taken cut_end 30 = us_read (sample_upload 0) 30"
    by (rule cut_upload_looks_complete [OF sample_upload_reachable _ sample_upload_entry, where t = "HttpRequestEnd 7" and fresh = 31])
       (simp_all add: sample_upload_def plain_json_def)
  then show ?thesis by blast
qed

end
