(* ===== verification/Relay_Tunnel.thy ===== *)
theory Relay_Tunnel
  imports Relay_Http
begin

text \<open>
  The public side of the relay for WebSockets: \<open>crates/relay-server/src/ws_tunnel.rs\<close>.
  \<open>upgrade_client_ws\<close> announces the stream to the agent and accepts the upgrade,
  \<open>handle_client_socket\<close> is the task of the upgraded socket: it waits for the agent's
  acknowledgement and then copies messages both ways until one side ends. Both are modelled by
  their trace, as the request handler is. The lemmas show what each message becomes, how every exit
  leaves the tables, and what the agent is told.
\<close>

section \<open>The tunnel's actions\<close>

text \<open>
  A client message has its text as a string. \<open>TPut\<close> is a message to the agent, \<open>TClient\<close> one
  to the client's socket.
\<close>

datatype 't tunnel_action = TDo state_op | TPut "'t relay_out" | TClient "string message"

definition send_ws_frame ::
    "(chan \<Rightarrow> bool) \<Rightarrow> chan \<Rightarrow> uuid \<Rightarrow> u8 \<Rightarrow> stream_kind \<Rightarrow> ws_opcode \<Rightarrow> bytes \<Rightarrow>
      (string + unit) \<times> 't relay_out list" where
  "send_ws_frame rx c sid version knd opcode payload =
    (let frame = encode_chunk_frame_with_version version
           \<lparr>kind = knd, request_id = sid, seq = 0, fin = True\<rparr> (encode_ws_payload opcode payload)
     in if rx c then (Inr (), [ToAgent c (MBinary frame)])
        else (Inl ''agent websocket channel closed'', []))"

definition flatten_ws_headers :: "http_lib \<Rightarrow> header_map \<Rightarrow> header_list" where
  "flatten_ws_headers H headers =
     copy_headers (\<lambda>(key, value).
       if is_hop_header key \<or> eq_ignore_ascii_case key ''host'' then None
       else case value_to_str H value of Some v \<Rightarrow> Some (key, v) | None \<Rightarrow> None) headers"

definition parse_subprotocols :: "http_lib \<Rightarrow> header_map \<Rightarrow> string list" where
  "parse_subprotocols H headers =
    (case Option.bind (hm_get headers ''sec-websocket-protocol'') (value_to_str H) of
       None \<Rightarrow> []
     | Some raw \<Rightarrow> filter (\<lambda>token. token \<noteq> []) (map trim (split_char CHR '','' raw)))"

section \<open>Copying messages\<close>

text \<open>
  One round of the \<open>select!\<close> loop, from either side: whether the loop goes on, and what is sent.
  \<open>None\<close> is the end of that side's stream. The client's library hands over no raw frames.
\<close>

definition from_client ::
    "'t json \<Rightarrow> (chan \<Rightarrow> bool) \<Rightarrow> chan \<Rightarrow> uuid \<Rightarrow> u8 \<Rightarrow> string read option \<Rightarrow> bool \<times> 't relay_out list" where
  "from_client J rx c sid version r =
    (let frame = (\<lambda>opcode payload.
           case send_ws_frame rx c sid version WsClientFrame opcode payload of
             (Inl _, s) \<Rightarrow> (False, s) | (Inr _, s) \<Rightarrow> (True, s));
         close = (\<lambda>code reason. (False, snd (send_control J rx c (WsClose sid code reason))))
     in case r of
          None \<Rightarrow> close (Some 1000) (Some ''client socket ended'')
        | Some (ReadMsg (MText text)) \<Rightarrow> frame OpText (as_bytes text)
        | Some (ReadMsg (MBinary bs)) \<Rightarrow> frame OpBinary bs
        | Some (ReadMsg (MPing bs)) \<Rightarrow> frame OpPing bs
        | Some (ReadMsg (MPong bs)) \<Rightarrow> frame OpPong bs
        | Some (ReadMsg (MClose cl)) \<Rightarrow>
            (case cl of
               Some f \<Rightarrow> close (Some (close_code f)) (Some (close_reason f))
             | None \<Rightarrow> close (Some 1000) None)
        | Some (ReadErr err) \<Rightarrow> close (Some 1011) (Some (''client ws read error: '' @ err))
        | Some ReadRawFrame \<Rightarrow> (True, []))"

definition client_message :: "ws_opcode \<Rightarrow> bytes \<Rightarrow> string message" where
  "client_message opcode payload =
    (case opcode of
       OpText \<Rightarrow>
         (case from_utf8 payload of
            Some text \<Rightarrow> MText text
          | None \<Rightarrow> MClose (Some \<lparr>close_code = 1007, close_reason = ''invalid utf8 payload''\<rparr>))
     | OpBinary \<Rightarrow> MBinary payload
     | OpPing \<Rightarrow> MPing payload
     | OpPong \<Rightarrow> MPong payload
     | OpClose \<Rightarrow> MClose (Some \<lparr>close_code = 1000, close_reason = ''closed by agent''\<rparr>))"

definition from_relay :: "bool \<Rightarrow> ws_relay_event option \<Rightarrow> bool \<times> string message list" where
  "from_relay client_ok ev =
    (case ev of
       None \<Rightarrow> (False, [])
     | Some (WsEvFrame opcode payload) \<Rightarrow> (client_ok, deliver client_ok (client_message opcode payload))
     | Some (WsEvClose code reason) \<Rightarrow>
         (False, deliver client_ok (MClose (Some
            \<lparr>close_code = (case code of Some c \<Rightarrow> c | None \<Rightarrow> 1000),
             close_reason = (case reason of Some r \<Rightarrow> r | None \<Rightarrow> ''closed'')\<rparr>))))"

text \<open>A round: which side was ready, and the receivers alive then.\<close>

datatype tunnel_event = ClientRead "chan \<Rightarrow> bool" "string read option" | RelayRead bool "ws_relay_event option"

text \<open>The loop, and whether it has ended; with no rounds left it is still waiting.\<close>

fun tunnel_loop ::
    "'t json \<Rightarrow> chan \<Rightarrow> uuid \<Rightarrow> u8 \<Rightarrow> tunnel_event list \<Rightarrow> 't tunnel_action list \<times> bool" where
  "tunnel_loop J c sid version [] = ([], False)"
| "tunnel_loop J c sid version (ClientRead rx r # evs) =
    (case from_client J rx c sid version r of
       (go_on, s) \<Rightarrow>
         if go_on then (case tunnel_loop J c sid version evs of (tr, e) \<Rightarrow> (map TPut s @ tr, e))
         else (map TPut s, True))"
| "tunnel_loop J c sid version (RelayRead ok ev # evs) =
    (case from_relay ok ev of
       (go_on, ms) \<Rightarrow>
         if go_on then (case tunnel_loop J c sid version evs of (tr, e) \<Rightarrow> (map TClient ms @ tr, e))
         else (map TClient ms, True))"

section \<open>The client's socket\<close>

datatype ack_wait = AckGot ws_connect_ack | AckClosed | AckTimeout

definition awaited_ack :: "ack_wait \<Rightarrow> ws_connect_ack" where
  "awaited_ack w =
    (case w of
       AckGot ack \<Rightarrow> ack
     | AckClosed \<Rightarrow> \<lparr>ack_ok = False, selected_subprotocol = None,
         ack_reason = Some ''agent ws connect ack channel closed''\<rparr>
     | AckTimeout \<Rightarrow> \<lparr>ack_ok = False, selected_subprotocol = None,
         ack_reason = Some ''agent ws connect timeout''\<rparr>)"

definition handle_client_socket ::
    "'t json \<Rightarrow> string \<Rightarrow> uuid \<Rightarrow> chan \<Rightarrow> ack_wait \<Rightarrow> chan \<Rightarrow> u8 \<Rightarrow> bool \<Rightarrow> tunnel_event list \<Rightarrow>
      't tunnel_action list \<times> bool" where
  "handle_client_socket J tunnel_id sid event_tx w agent_sender version close_sent evs =
    (let ack = awaited_ack w;
         add = TDo (SAddWsStream sid tunnel_id event_tx);
         cleanup = [TDo (SRemoveWsStream sid), TDo (SRemoveWsPending sid)]
     in if \<not> ack_ok ack then
          let reason = (case ack_reason ack of Some r \<Rightarrow> r | None \<Rightarrow> ''agent rejected ws connect'')
          in (add # map TClient (deliver close_sent
                (MClose (Some \<lparr>close_code = 1011, close_reason = reason\<rparr>))) @ cleanup, True)
        else case tunnel_loop J agent_sender sid version evs of
               (tr, finished) \<Rightarrow> (add # tr @ (if finished then cleanup else []), finished))"

text \<open>
  The upgrade. The answer is an error response or an upgrade that offers the client the listed
  subprotocols; the socket's task then runs if the upgrade completes.
\<close>

datatype upgrade_result = UpgradeRefused http_response | UpgradeOffered "string list"

record upgrade_env =
  ue_agent :: "agent_handle option"
  ue_sid :: uuid
  ue_ack_tx :: chan
  ue_open :: bool
  ue_upgraded :: bool
  ue_event_tx :: chan
  ue_ack :: ack_wait
  ue_close_sent :: bool
  ue_events :: "tunnel_event list"

definition upgrade_client_ws ::
    "'t json \<Rightarrow> http_lib \<Rightarrow> string \<Rightarrow> string \<Rightarrow> header_map \<Rightarrow> upgrade_env \<Rightarrow>
      't tunnel_action list \<times> upgrade_result \<times> bool" where
  "upgrade_client_ws J H tunnel_id path_and_query headers e =
    (case ue_agent e of
       None \<Rightarrow> ([], UpgradeRefused (simple_response 502 ''no connected agent for tunnel''), True)
     | Some agent \<Rightarrow>
         if CAP_WS_TUNNEL_V1 \<notin> capabilities agent then
           ([], UpgradeRefused (simple_response 501 ''connected agent does not support websocket tunneling''), True)
         else
           (let sid = ue_sid e;
                forwarded_headers = flatten_ws_headers H headers;
                subprotocols = parse_subprotocols H headers;
                pending = TDo (SAddWsPending sid tunnel_id (ue_ack_tx e));
                connect = WsConnect sid path_and_query forwarded_headers subprotocols
            in case send_control J (\<lambda>_. ue_open e) (sender agent) connect of
                 (Inl _, s) \<Rightarrow>
                   (pending # map TPut s @ [TDo (SRemoveWsPending sid)],
                    UpgradeRefused (simple_response 502 ''failed to notify agent about ws connect''), True)
               | (Inr _, s) \<Rightarrow>
                   if ue_upgraded e then
                     (case handle_client_socket J tunnel_id sid (ue_event_tx e) (ue_ack e) (sender agent)
                             (protocol_version agent) (ue_close_sent e) (ue_events e) of
                        (tr, finished) \<Rightarrow> (pending # map TPut s @ tr, UpgradeOffered subprotocols, finished))
                   else (pending # map TPut s, UpgradeOffered subprotocols, True)))"

section \<open>The trace of a tunnel\<close>

definition tunnel_ops :: "'t tunnel_action list \<Rightarrow> state_op list" where
  "tunnel_ops tr = List.map_filter (\<lambda>a. case a of TDo op \<Rightarrow> Some op | _ \<Rightarrow> None) tr"

definition to_client :: "'t tunnel_action list \<Rightarrow> string message list" where
  "to_client tr = List.map_filter (\<lambda>a. case a of TClient m \<Rightarrow> Some m | _ \<Rightarrow> None) tr"

definition to_agent :: "'t tunnel_action list \<Rightarrow> 't relay_out list" where
  "to_agent tr = List.map_filter (\<lambda>a. case a of TPut m \<Rightarrow> Some m | _ \<Rightarrow> None) tr"

lemmas tunnel_trace_defs = tunnel_ops_def to_client_def to_agent_def map_filter_simps

lemma tunnel_trace_simps [simp]:
  "tunnel_ops [] = []" "to_client [] = []" "to_agent [] = []"
  "tunnel_ops (TDo op # tr) = op # tunnel_ops tr" "tunnel_ops (TPut m # tr) = tunnel_ops tr"
  "tunnel_ops (TClient k # tr) = tunnel_ops tr"
  "to_client (TDo op # tr) = to_client tr" "to_client (TPut m # tr) = to_client tr"
  "to_client (TClient k # tr) = k # to_client tr"
  "to_agent (TDo op # tr) = to_agent tr" "to_agent (TPut m # tr) = m # to_agent tr"
  "to_agent (TClient k # tr) = to_agent tr"
  by (simp_all add: tunnel_trace_defs)

lemma tunnel_trace_append [simp]:
  "tunnel_ops (xs @ ys) = tunnel_ops xs @ tunnel_ops ys"
  "to_client (xs @ ys) = to_client xs @ to_client ys"
  "to_agent (xs @ ys) = to_agent xs @ to_agent ys"
  by (simp_all add: tunnel_trace_defs List.map_filter_def)

lemma tunnel_trace_puts [simp]:
  "tunnel_ops (map TPut ms) = []" "to_client (map TPut ms) = []" "to_agent (map TPut ms) = ms"
  by (induction ms) simp_all

lemma tunnel_trace_clients [simp]:
  "tunnel_ops (map TClient ks) = []" "to_client (map TClient ks) = ks" "to_agent (map TClient ks) = []"
  by (induction ks) simp_all

lemma tunnel_loop_ops [simp]: "tunnel_ops (fst (tunnel_loop J c sid v evs)) = []"
  by (induction J c sid v evs rule: tunnel_loop.induct) (auto split: prod.splits)

lemma handle_client_socket_ops:
  "tunnel_ops (fst (handle_client_socket J tid sid tx w c v ok evs)) = SAddWsStream sid tid tx #
    (if snd (handle_client_socket J tid sid tx w c v ok evs)
     then [SRemoveWsStream sid, SRemoveWsPending sid] else [])"
proof -
  obtain tr b where "tunnel_loop J c sid v evs = (tr, b)" by fastforce
  with tunnel_loop_ops [of J c sid v evs] show ?thesis by (auto simp: handle_client_socket_def Let_def)
qed

lemma upgrade_client_ws_ops:
  assumes "upgrade_client_ws J H tid pq hs e = (tr, res, True)" and "ue_upgraded e \<or> (\<exists>rsp. res = UpgradeRefused rsp)"
  shows "tunnel_ops tr = [] \<or>
    tunnel_ops tr = [SAddWsPending (ue_sid e) tid (ue_ack_tx e), SRemoveWsPending (ue_sid e)] \<or>
    tunnel_ops tr = [SAddWsPending (ue_sid e) tid (ue_ack_tx e), SAddWsStream (ue_sid e) tid (ue_event_tx e),
       SRemoveWsStream (ue_sid e), SRemoveWsPending (ue_sid e)]"
proof -
  have *: "tunnel_ops tr' = [SAddWsStream (ue_sid e) tid (ue_event_tx e),
      SRemoveWsStream (ue_sid e), SRemoveWsPending (ue_sid e)]"
    if "handle_client_socket J tid (ue_sid e) (ue_event_tx e) w c v ok evs = (tr', True)" for tr' w c v ok evs
    using handle_client_socket_ops [of J tid "ue_sid e" "ue_event_tx e" w c v ok evs] that by simp
  from assms show ?thesis
    by (auto simp: upgrade_client_ws_def Let_def * split: option.splits if_splits sum.splits prod.splits)
qed

text \<open>
  C30: a WebSocket request that was refused, or whose upgrade completed and whose tunnel has ended,
  leaves nothing behind. Whether there was no fitting agent, its announcement could not be sent, the
  agent rejected it or did not answer, or either side closed it, and however the other tasks
  interleave, neither table has its id afterwards. The exit that is left out is an accepted request
  whose upgrade never completes: see \<open>abandoned_upgrade\<close>.
\<close>

theorem tunnel_entries_freed:
  assumes "upgrade_client_ws J H tid pq hs e = (tr, res, True)"
    and "ue_upgraded e \<or> (\<exists>rsp. res = UpgradeRefused rsp)" and "state_ok st" and "tbl_get (ws_pending st) (ue_sid e) = None"
    and "tbl_get (ws_streams st) (ue_sid e) = None"
    and "interleaved (adds_pending (ue_sid e)) (tunnel_ops tr) steps"
    and "interleaved (adds_stream (ue_sid e)) (tunnel_ops tr) steps"
  shows "tbl_get (ws_pending (fst ((run_ops (map snd steps) :: 't relay_act) st))) (ue_sid e) = None \<and>
    tbl_get (ws_streams (fst ((run_ops (map snd steps) :: 't relay_act) st))) (ue_sid e) = None"
proof -
  have "\<not> held (adds_pending (ue_sid e)) (\<lambda>op. op = SRemoveWsPending (ue_sid e)) (tunnel_ops tr) False"
    and "\<not> held (adds_stream (ue_sid e)) (\<lambda>op. op = SRemoveWsStream (ue_sid e)) (tunnel_ops tr) False"
    using upgrade_client_ws_ops [OF assms(1,2)] by auto
  with pend_entry.entry_freed [OF assms(3) _ assms(6)] strm_entry.entry_freed [OF assms(3) _ assms(7)]
  show ?thesis using assms(4,5) by blast
qed

section \<open>Messages of the client\<close>

text \<open>The opcode and payload of a message that is carried as a frame.\<close>

fun frame_of :: "string message \<Rightarrow> (ws_opcode \<times> bytes) option" where
  "frame_of (MText t) = Some (OpText, as_bytes t)"
| "frame_of (MBinary b) = Some (OpBinary, b)"
| "frame_of (MPing b) = Some (OpPing, b)"
| "frame_of (MPong b) = Some (OpPong, b)"
| "frame_of (MClose _) = None"

definition ws_frame :: "u8 \<Rightarrow> stream_kind \<Rightarrow> uuid \<Rightarrow> ws_opcode \<times> bytes \<Rightarrow> bytes" where
  "ws_frame v k sid = (\<lambda>(op, b). encode_chunk_frame_with_version v
     \<lparr>kind = k, request_id = sid, seq = 0, fin = True\<rparr> (encode_ws_payload op b))"

lemma ws_frame_decode:
  assumes "is_supported_protocol_version v"
  shows "decode_chunk_header (ws_frame v k sid (op, b)) =
      Inr (\<lparr>kind = k, request_id = sid, seq = 0, fin = True\<rparr>, encode_ws_payload op b)"
    and "decode_ws_payload (encode_ws_payload op b) = Inr (op, b)"
  using assms by (simp_all add: ws_frame_def decode_encode decode_encode_ws)

lemma from_client_frame:
  assumes "frame_of m = Some f"
  shows "from_client J rx c sid v (Some (ReadMsg m)) =
    (rx c, deliver (rx c) (ToAgent c (MBinary (ws_frame v WsClientFrame sid f))))"
  using assms
  by (cases m) (auto simp: from_client_def send_ws_frame_def ws_frame_def deliver_def Let_def)

lemma tunnel_loop_client:
  assumes "\<forall>m\<in>set ms. frame_of m \<noteq> None"
  shows "tunnel_loop J c sid v (map (\<lambda>m. ClientRead (\<lambda>_. True) (Some (ReadMsg m))) ms @ evs) =
    (map (\<lambda>m. TPut (ToAgent c (MBinary (ws_frame v WsClientFrame sid (the (frame_of m)))))) ms
       @ fst (tunnel_loop J c sid v evs), snd (tunnel_loop J c sid v evs))"
  using assms by (induction ms) (auto simp: from_client_frame split: prod.splits)

lemma tunnel_loop_relay:
  "tunnel_loop J c sid v (map (\<lambda>(op, b). RelayRead True (Some (WsEvFrame op b))) fs @ evs) =
    (map (\<lambda>(op, b). TClient (client_message op b)) fs
       @ fst (tunnel_loop J c sid v evs), snd (tunnel_loop J c sid v evs))"
  by (induction fs) (auto simp: from_relay_def split: prod.splits)

lemma client_message_frame:
  assumes "utf8_valid (as_bytes t)"
  shows "client_message OpText (as_bytes t) = MText t"
  using assms by (simp add: client_message_def from_utf8_as_bytes)

section \<open>Rejection and subprotocols\<close>

lemma handle_client_socket_rejected:
  assumes "\<not> ack_ok (awaited_ack w)"
  shows "handle_client_socket J tid sid tx w c v close_sent evs =
    (TDo (SAddWsStream sid tid tx) # map TClient (deliver close_sent (MClose (Some
        \<lparr>close_code = 1011, close_reason = (case ack_reason (awaited_ack w) of Some r \<Rightarrow> r
           | None \<Rightarrow> ''agent rejected ws connect'')\<rparr>)))
      @ [TDo (SRemoveWsStream sid), TDo (SRemoveWsPending sid)], True)"
  using assms by (simp add: handle_client_socket_def Let_def)

text \<open>
  A tunnel that the agent does not accept. A refusal, a dropped acknowledgement and the 10
  second timeout all end the same way: the client is upgraded and then closed with 1011 and the
  reason, and the only thing the agent ever gets for the stream is its announcement. After the
  timeout the agent is not told that nobody waits any more: there is no close message.
\<close>

lemma rejected_tunnel:
  fixes J :: "'t json"
  assumes "json_ok J" and "ue_agent e = Some a" and "CAP_WS_TUNNEL_V1 \<in> capabilities a"
    and "ue_open e" and "ue_upgraded e" and "\<not> ack_ok (awaited_ack (ue_ack e))" and "ue_close_sent e"
  shows "\<exists>tr t. upgrade_client_ws J H tid pq hs e = (tr, UpgradeOffered (parse_subprotocols H hs), True) \<and>
    to_client tr = [MClose (Some \<lparr>close_code = 1011, close_reason =
        (case ue_ack e of AckTimeout \<Rightarrow> ''agent ws connect timeout''
           | AckClosed \<Rightarrow> ''agent ws connect ack channel closed''
           | AckGot ack \<Rightarrow> (case ack_reason ack of Some r \<Rightarrow> r | None \<Rightarrow> ''agent rejected ws connect''))\<rparr>)] \<and>
    to_agent tr = [ToAgent (sender a) (MText t)] \<and>
    from_str J t = Inr (WsConnect (ue_sid e) pq (flatten_ws_headers H hs) (parse_subprotocols H hs))"
proof -
  let ?m = "WsConnect (ue_sid e) pq (flatten_ws_headers H hs) (parse_subprotocols H hs)"
  obtain t where "from_str J t = Inr ?m"
    "send_control J (\<lambda>_. True) (sender a) ?m = (Inr (), [ToAgent (sender a) (MText t)])"
    using send_control_ok [OF assms(1), of ?m "\<lambda>_. True" "sender a"] by auto
  with assms(2-5,7) show ?thesis
    by (intro exI [of _ "fst (upgrade_client_ws J H tid pq hs e)"] exI [of _ t])
       (simp add: upgrade_client_ws_def Let_def handle_client_socket_rejected [OF assms(6)],
        simp add: awaited_ack_def split: ack_wait.split)
qed

definition sample_upgrade :: upgrade_env where
  "sample_upgrade = \<lparr>ue_agent = Some (sample_agent\<lparr>capabilities := {CAP_WS_TUNNEL_V1}\<rparr>), ue_sid = 9,
     ue_ack_tx = 50, ue_open = True, ue_upgraded = True, ue_event_tx = 51, ue_ack = AckTimeout,
     ue_close_sent = True, ue_events = []\<rparr>"

lemma rejected_tunnel_witness:
  "\<exists>tr. upgrade_client_ws plain_json plain_http ''demo'' ''/ws'' [] sample_upgrade = (tr, UpgradeOffered [], True) \<and>
    to_client tr = [MClose (Some \<lparr>close_code = 1011, close_reason = ''agent ws connect timeout''\<rparr>)]"
proof -
  have "ue_agent sample_upgrade = Some (sample_agent\<lparr>capabilities := {CAP_WS_TUNNEL_V1}\<rparr>)"
    and "CAP_WS_TUNNEL_V1 \<in> capabilities (sample_agent\<lparr>capabilities := {CAP_WS_TUNNEL_V1}\<rparr>)"
    and "ue_open sample_upgrade" and "ue_upgraded sample_upgrade"
    and "\<not> ack_ok (awaited_ack (ue_ack sample_upgrade))" and "ue_close_sent sample_upgrade"
    by (simp_all add: sample_upgrade_def awaited_ack_def)
  from rejected_tunnel [OF plain_json_ok this, of plain_http "''demo''" "''/ws''" "[]"]
  show ?thesis by (auto simp: parse_subprotocols_def hm_get_def sample_upgrade_def)
qed

theorem tunnel_entries_freed_witness:
  "tbl_get (ws_streams (fst ((run_ops (map snd
     [(True, \<lambda>_. True, SAddWsPending 9 ''demo'' 50), (False, \<lambda>_. True, SNotifyWsFrame 300 OpText []),
      (True, \<lambda>_. True, SAddWsStream 9 ''demo'' 51), (False, \<lambda>_. True, SRemoveAgentIf ''demo'' 1),
      (True, \<lambda>_. True, SRemoveWsStream 9), (True, \<lambda>_. True, SRemoveWsPending 9)])
     :: control_message relay_act) sample_state))) 9 = None"
    (is "tbl_get (ws_streams (fst (?run sample_state))) 9 = None")
proof -
  let ?u = "upgrade_client_ws plain_json plain_http ''demo'' ''/ws'' [] sample_upgrade"
  have ops: "tunnel_ops (fst ?u) = [SAddWsPending 9 ''demo'' 50, SAddWsStream 9 ''demo'' 51,
      SRemoveWsStream 9, SRemoveWsPending 9]"
    and fin: "snd (snd ?u)"
    by (simp_all add: upgrade_client_ws_def sample_upgrade_def send_control_def plain_json_def Let_def
        handle_client_socket_def awaited_ack_def)
  have u: "?u = (fst ?u, fst (snd ?u), True)" using fin by (simp add: prod_eq_iff)
  have sid: "ue_sid sample_upgrade = 9"
    and up: "ue_upgraded sample_upgrade \<or> (\<exists>rsp. fst (snd ?u) = UpgradeRefused rsp)"
    by (simp_all add: sample_upgrade_def)
  have "tbl_get (ws_pending (fst (?run sample_state))) (ue_sid sample_upgrade) = None \<and>
      tbl_get (ws_streams (fst (?run sample_state))) (ue_sid sample_upgrade) = None"
    by (rule tunnel_entries_freed [OF u up sample_state_ok])
       (simp_all only: ops sid, simp_all add: interleaved_def sample_state_def tbl_get_def)
  then show ?thesis by (simp only: sid)
qed

lemma handle_client_socket_subprotocol:
  "handle_client_socket J tid sid tx (AckGot (ack\<lparr>selected_subprotocol := p\<rparr>)) c v ok evs =
   handle_client_socket J tid sid tx (AckGot ack) c v ok evs"
  by (simp add: handle_client_socket_def awaited_ack_def Let_def)

text \<open>
  The subprotocol that the local server selected does not reach the client. Whatever
  \<open>selected_subprotocol\<close> the agent acknowledges, the relay does and answers the same; the client
  was already offered its own list, before the agent was heard.
\<close>

lemma selected_subprotocol_ignored:
  "upgrade_client_ws J H tid pq hs (e\<lparr>ue_ack := AckGot (ack\<lparr>selected_subprotocol := p\<rparr>)\<rparr>) =
   upgrade_client_ws J H tid pq hs (e\<lparr>ue_ack := AckGot ack\<rparr>)"
  by (cases e, hypsubst)
     (unfold upgrade_client_ws_def upgrade_env.select_convs upgrade_env.update_convs
        handle_client_socket_subprotocol, rule refl)

section \<open>Before the upgrade completes\<close>

lemma upgrade_client_ws_first:
  assumes "json_ok J" and "ue_agent e = Some a" and "CAP_WS_TUNNEL_V1 \<in> capabilities a"
    and "ue_open e" and "ue_upgraded e"
  shows "\<exists>t rest. from_str J t = Inr (WsConnect (ue_sid e) pq (flatten_ws_headers H hs) (parse_subprotocols H hs)) \<and>
    fst (upgrade_client_ws J H tid pq hs e) = TDo (SAddWsPending (ue_sid e) tid (ue_ack_tx e)) #
      TPut (ToAgent (sender a) (MText t)) # TDo (SAddWsStream (ue_sid e) tid (ue_event_tx e)) # rest"
proof -
  let ?m = "WsConnect (ue_sid e) pq (flatten_ws_headers H hs) (parse_subprotocols H hs)"
  obtain t where t: "from_str J t = Inr ?m"
    "send_control J (\<lambda>_. ue_open e) (sender a) ?m = (Inr (), [ToAgent (sender a) (MText t)])"
    using send_control_ok [OF assms(1), of ?m "\<lambda>_. ue_open e" "sender a"] assms(4) by auto
  then show ?thesis
    using assms(2,3,5)
    by (intro exI [of _ t]) (auto simp: upgrade_client_ws_def Let_def handle_client_socket_def split: prod.split)
qed

text \<open>
  C27: between announcing a WebSocket and entering its stream the relay loses what the agent sends.
  The announcement is on the agent's channel before the stream is in its table. A frame or a close
  that the agent sends in between finds no stream and reaches no one. If the agent accepts and then
  disconnects in between, the clean-up finds neither a pending entry nor a stream, and the stream is
  entered after it: it then belongs to a tunnel without an agent, and its client is not told.
\<close>

theorem early_frames_lost:
  fixes J :: "'t json"
  assumes "json_ok J" and "ue_agent e = Some a" and "CAP_WS_TUNNEL_V1 \<in> capabilities a"
    and "ue_open e" and "ue_upgraded e"
    and "state_ok st" and "get_agent st tid = Some a" and "tbl_get (ws_streams st) (ue_sid e) = None"
  shows "(\<exists>t rest. fst (upgrade_client_ws J H tid pq hs e) = TDo (SAddWsPending (ue_sid e) tid (ue_ack_tx e)) #
      TPut (ToAgent (sender a) (MText t)) # TDo (SAddWsStream (ue_sid e) tid (ue_event_tx e)) # rest) \<and>
    run_ops [(rx, SNotifyWsFrame (ue_sid e) op data), (rx, SNotifyWsClose (ue_sid e) code reason)] st
      = (st, [] :: 't relay_out list) \<and>
    (let st' = fst ((run_ops [(rx, SNotifyWsConnectAck (ue_sid e) True p r), (rx, SRemoveAgentIf tid (connection_id a)),
           (rx, SAddWsStream (ue_sid e) tid (ue_event_tx e))] :: 't relay_act) st)
     in get_agent st' tid = None \<and>
        tbl_get (ws_streams st') (ue_sid e) = Some \<lparr>ws_tunnel_id = tid, ws_sender = ue_event_tx e\<rparr>)"
proof (intro conjI)
  show "\<exists>t rest. fst (upgrade_client_ws J H tid pq hs e) = TDo (SAddWsPending (ue_sid e) tid (ue_ack_tx e)) #
      TPut (ToAgent (sender a) (MText t)) # TDo (SAddWsStream (ue_sid e) tid (ue_event_tx e)) # rest"
    using upgrade_client_ws_first [OF assms(1-5)] by blast
  show "run_ops [(rx, SNotifyWsFrame (ue_sid e) op data), (rx, SNotifyWsClose (ue_sid e) code reason)] st
      = (st, [] :: 't relay_out list)"
    by (simp add: andthen_def skip_def notify_ws_frame_def notify_ws_close_def assms(8))
  let ?st1 = "fst ((notify_ws_connect_ack rx (ue_sid e) True p r :: 't relay_act) st)"
  have "state_ok ?st1" and "get_agent ?st1 tid = Some a"
    using exec_op_state_ok [OF assms(6), of rx "SNotifyWsConnectAck (ue_sid e) True p r", where 'a = 't] assms(7)
    by (auto simp: notify_ws_connect_ack_def remove_ws_pending_def get_agent_def split: option.split)
  then show "let st' = fst ((run_ops [(rx, SNotifyWsConnectAck (ue_sid e) True p r), (rx, SRemoveAgentIf tid (connection_id a)),
           (rx, SAddWsStream (ue_sid e) tid (ue_event_tx e))] :: 't relay_act) st)
     in get_agent st' tid = None \<and>
        tbl_get (ws_streams st') (ue_sid e) = Some \<lparr>ws_tunnel_id = tid, ws_sender = ue_event_tx e\<rparr>"
    by (simp add: Let_def fst_andthen skip_def remove_agent_if_eq add_ws_stream_def get_agent_def table_simps)
qed

theorem early_frames_lost_witness:
  "let st' = fst ((run_ops [(\<lambda>_. True, SNotifyWsConnectAck 9 True None None), (\<lambda>_. True, SRemoveAgentIf ''demo'' 4),
         (\<lambda>_. True, SAddWsStream 9 ''demo'' 51)] :: control_message relay_act)
       (fst (insert_agent_if_absent ''demo'' \<lparr>connection_id = 4, sender = 3, capabilities = {CAP_WS_TUNNEL_V1},
          protocol_version = 2\<rparr> (new_state {''tok''} 60))))
   in get_agent st' ''demo'' = None \<and> tbl_get (ws_streams st') 9 = Some \<lparr>ws_tunnel_id = ''demo'', ws_sender = 51\<rparr>"
proof -
  let ?a = "\<lparr>connection_id = 4, sender = 3, capabilities = {CAP_WS_TUNNEL_V1}, protocol_version = 2\<rparr> :: agent_handle"
  let ?e = "sample_upgrade\<lparr>ue_agent := Some ?a\<rparr>"
  let ?st = "fst (insert_agent_if_absent ''demo'' ?a (new_state {''tok''} 60))"
  have "ue_agent ?e = Some ?a" and "CAP_WS_TUNNEL_V1 \<in> capabilities ?a" and "ue_open ?e" and "ue_upgraded ?e"
    and "state_ok ?st" and "get_agent ?st ''demo'' = Some ?a" and "tbl_get (ws_streams ?st) (ue_sid ?e) = None"
    by (simp_all add: sample_upgrade_def insert_agent_if_absent_def new_state_def state_ok_def get_agent_def table_simps)
  from early_frames_lost [OF plain_json_ok this, THEN conjunct2, THEN conjunct2, of "\<lambda>_. True" None None]
  show ?thesis by (simp add: sample_upgrade_def)
qed

section \<open>An upgrade that does not complete\<close>

text \<open>
  If the client is gone before the upgrade completes, the socket's task never runs: the announcement
  is all the agent gets, and the pending entry is left to the others.
\<close>

lemma abandoned_upgrade:
  assumes "json_ok J" and "ue_agent e = Some a" and "CAP_WS_TUNNEL_V1 \<in> capabilities a"
    and "ue_open e" and "\<not> ue_upgraded e"
  obtains t where "from_str J t = Inr (WsConnect (ue_sid e) pq (flatten_ws_headers H hs) (parse_subprotocols H hs))"
    and "upgrade_client_ws J H tid pq hs e =
      ([TDo (SAddWsPending (ue_sid e) tid (ue_ack_tx e)), TPut (ToAgent (sender a) (MText t))],
       UpgradeOffered (parse_subprotocols H hs), True)"
proof -
  let ?m = "WsConnect (ue_sid e) pq (flatten_ws_headers H hs) (parse_subprotocols H hs)"
  obtain t where "from_str J t = Inr ?m"
    "send_control J (\<lambda>_. ue_open e) (sender a) ?m = (Inr (), [ToAgent (sender a) (MText t)])"
    using send_control_ok [OF assms(1), of ?m "\<lambda>_. ue_open e" "sender a"] assms(4) by auto
  then show thesis
    using assms(2,3,5) by (intro that [of t]) (simp_all add: upgrade_client_ws_def Let_def)
qed

text \<open>
  Only the agent's acknowledgement, its disconnect or the socket's task take a pending entry away;
  the acknowledgement then finds no receiver and nobody tells the agent.
\<close>

fun ends_pending :: "uuid \<Rightarrow> string \<Rightarrow> state_op \<Rightarrow> bool" where
  "ends_pending sid tid (SRemoveWsPending s) = (s = sid)"
| "ends_pending sid tid (SNotifyWsConnectAck s ok p r) = (s = sid)"
| "ends_pending sid tid (SRemoveAgentIf t c) = (t = tid)"
| "ends_pending sid tid op = False"

lemma pending_stays_op:
  assumes "state_ok st" and "tbl_get (ws_pending st) sid = Some p"
    and "\<not> ends_pending sid (wp_tunnel_id p) op" and "\<not> adds_pending sid op"
  shows "tbl_get (ws_pending (fst (exec_op rx op st))) sid = Some p"
  using assms
  by (cases op)
     (auto simp: state_op_defs table_simps remove_agent_if_eq tbl_get_filter state_ok_def
        split: option.splits if_splits)

lemma pending_stays:
  assumes "state_ok st" and "tbl_get (ws_pending st) sid = Some p"
    and "list_all (\<lambda>(rx, op). \<not> ends_pending sid (wp_tunnel_id p) op \<and> \<not> adds_pending sid op) ops"
  shows "tbl_get (ws_pending (fst (run_ops ops st))) sid = Some p"
  using assms
  by (induction ops arbitrary: st) (auto simp: fst_andthen skip_def pending_stays_op exec_op_state_ok)

lemma late_ack_unheard:
  assumes "tbl_get (ws_pending st) sid = Some p" and "\<not> rx (wp_tx p)"
  shows "exec_op rx (SNotifyWsConnectAck sid ok sub reason) st = (remove_ws_pending sid st, [])"
  using assms by (simp add: notify_ws_connect_ack_def deliver_def)

end
