(* ===== verification/Relay_Config.thy ===== *)
theory Relay_Config
  imports Relay_Session
begin

text \<open>
  The relay's configuration, \<open>crates/relay-server/src/config.rs\<close>: token lists, the optional
  file, and \<open>resolve\<close> with its precedence and its checks. The command-line parser, the file
  system and the YAML library are not in the repository; reading a file and the three YAML
  functions are a parameter. The lemmas say exactly which configurations resolve, to what, and what
  that means for the agents that can register.
\<close>

section \<open>Configuration\<close>

record config =
  cfg_file :: "string option"
  cfg_listen :: "string option"
  cfg_auth_tokens :: "string set option"
  cfg_request_timeout_secs :: "u64 option"

record resolved_config =
  rc_listen :: string
  rc_auth_tokens :: "string set"
  rc_request_timeout_secs :: u64

record file_config =
  fc_listen :: "string option"
  fc_auth_tokens :: "string list option"
  fc_request_timeout_secs :: "u64 option"

definition default_file_config :: file_config where
  "default_file_config =
     \<lparr>fc_listen = None, fc_auth_tokens = None, fc_request_timeout_secs = None\<rparr>"

text \<open>\<open>read_to_string\<close>, and \<open>from_str\<close>, \<open>is_null\<close>, \<open>from_value\<close> of the YAML library.\<close>

record 'y file_lib =
  read_file :: "string \<Rightarrow> string + string"
  yaml_from_str :: "string \<Rightarrow> string + 'y"
  yaml_is_null :: "'y \<Rightarrow> bool"
  yaml_from_value :: "'y \<Rightarrow> string + file_config"

text \<open>
  The errors of \<open>resolve\<close>, by their place. The context strings of \<open>anyhow\<close> are the
  constructors' names; the path is in the message.
\<close>

datatype config_error =
    FailedToRead string
  | InvalidYaml string
  | InvalidSchema string
  | ConfigMsg string

fun normalize_tokens_into :: "string set \<Rightarrow> string list \<Rightarrow> string + string set" where
  "normalize_tokens_into out [] = Inr out"
| "normalize_tokens_into out (token # tokens) =
    (let token = trim token
     in if token = [] then Inl ''empty token is not allowed''
        else normalize_tokens_into (insert token out) tokens)"

definition normalize_token_list :: "string list \<Rightarrow> string + string set" where
  "normalize_token_list tokens = normalize_tokens_into {} tokens"

definition parse_auth_tokens :: "string \<Rightarrow> string + string set" where
  "parse_auth_tokens raw =
    (if trim raw = [] then Inr {} else normalize_token_list (split_char CHR '','' raw))"

definition load_file_config :: "'y file_lib \<Rightarrow> string \<Rightarrow> config_error + file_config" where
  "load_file_config F path =
    (case read_file F path of
       Inl _ \<Rightarrow> Inl (FailedToRead path)
     | Inr raw \<Rightarrow>
        if trim raw = [] then Inr default_file_config
        else case yaml_from_str F raw of
          Inl _ \<Rightarrow> Inl (InvalidYaml path)
        | Inr value \<Rightarrow>
           if yaml_is_null F value then Inr default_file_config
           else case yaml_from_value F value of
             Inl _ \<Rightarrow> Inl (InvalidSchema path)
           | Inr fc \<Rightarrow> Inr fc)"

definition validate_resolved :: "resolved_config \<Rightarrow> config_error + unit" where
  "validate_resolved config =
    (if trim (rc_listen config) = [] then Inl (ConfigMsg ''listen must not be empty'')
     else if rc_request_timeout_secs config = 0 then Inl (ConfigMsg ''request_timeout_secs must be >= 1'')
     else if rc_auth_tokens config = {} then
       Inl (ConfigMsg ''auth_tokens must not be empty (set in config file or --auth-token)'')
     else Inr ())"

text \<open>The two passes of overrides: the file's, then the command line's.\<close>

definition override :: "'a option \<Rightarrow> 'a \<Rightarrow> 'a" where
  "override new old = (case new of Some x \<Rightarrow> x | None \<Rightarrow> old)"

definition default_resolved :: resolved_config where
  "default_resolved =
     \<lparr>rc_listen = ''0.0.0.0:8080'', rc_auth_tokens = {}, rc_request_timeout_secs = 60\<rparr>"

definition apply_file :: "file_config \<Rightarrow> resolved_config \<Rightarrow> config_error + resolved_config" where
  "apply_file fc resolved =
    (let resolved = resolved\<lparr>rc_listen := override (fc_listen fc) (rc_listen resolved)\<rparr>
     in case (case fc_auth_tokens fc of
                None \<Rightarrow> Inr (rc_auth_tokens resolved)
              | Some tokens \<Rightarrow> normalize_token_list tokens) of
          Inl e \<Rightarrow> Inl (ConfigMsg e)
        | Inr tokens \<Rightarrow>
            Inr (resolved\<lparr>rc_auth_tokens := tokens,
              rc_request_timeout_secs := override (fc_request_timeout_secs fc) (rc_request_timeout_secs resolved)\<rparr>))"

definition resolve :: "'y file_lib \<Rightarrow> config \<Rightarrow> config_error + resolved_config" where
  "resolve F cfg =
    (case (case cfg_file cfg of
             None \<Rightarrow> Inr default_resolved
           | Some path \<Rightarrow>
               (case load_file_config F path of
                  Inl e \<Rightarrow> Inl e
                | Inr fc \<Rightarrow> apply_file fc default_resolved)) of
       Inl e \<Rightarrow> Inl e
     | Inr r0 \<Rightarrow>
         (let r = \<lparr>rc_listen = override (cfg_listen cfg) (rc_listen r0),
                   rc_auth_tokens = override (cfg_auth_tokens cfg) (rc_auth_tokens r0),
                   rc_request_timeout_secs =
                     override (cfg_request_timeout_secs cfg) (rc_request_timeout_secs r0)\<rparr>
          in case validate_resolved r of Inl e \<Rightarrow> Inl e | Inr _ \<Rightarrow> Inr r))"

section \<open>Token lists\<close>

lemma normalize_token_list_eq:
  "normalize_token_list tokens =
    (if [] \<in> trim ` set tokens then Inl ''empty token is not allowed'' else Inr (trim ` set tokens))"
proof -
  have "normalize_tokens_into out tokens =
      (if [] \<in> trim ` set tokens then Inl ''empty token is not allowed'' else Inr (out \<union> trim ` set tokens))"
    for out
    by (induction tokens arbitrary: out) (auto simp: Let_def)
  then show ?thesis by (simp add: normalize_token_list_def)
qed

lemma normalize_token_list_Inr:
  "normalize_token_list tokens = Inr T \<longleftrightarrow> [] \<notin> trim ` set tokens \<and> T = trim ` set tokens"
  by (auto simp: normalize_token_list_eq)

text \<open>A trimmed string is a piece of the string: it has no character that the string lacks.\<close>

lemma set_trim: "set (trim s) \<subseteq> set s"
proof -
  obtain p where "s = p @ trim_start s" unfolding trim_start_def using strip_all_suffix by blast
  moreover obtain q where "trim_start s = trim s @ q" unfolding trim_def using trim_end_prefix by blast
  ultimately show ?thesis by (metis Un_iff set_append subsetI)
qed

text \<open>
  The tokens of \<open>--auth-token\<close>. The option is accepted iff it is blank (no tokens) or every
  comma-separated piece has a character that is not white space; the tokens are then the trimmed
  pieces, so none is empty, has a comma, or changes when trimmed.
\<close>

lemma parse_auth_tokens_iff:
  "(parse_auth_tokens raw = Inr T \<longleftrightarrow>
     (if trim raw = [] then T = {}
      else [] \<notin> trim ` set (split_char CHR '','' raw) \<and> T = trim ` set (split_char CHR '','' raw))) \<and>
   {t. \<exists>T. parse_auth_tokens raw = Inr T \<and> t \<in> T} \<subseteq> {t. t \<noteq> [] \<and> trim t = t \<and> CHR '','' \<notin> set t}"
proof
  show "parse_auth_tokens raw = Inr T \<longleftrightarrow>
     (if trim raw = [] then T = {}
      else [] \<notin> trim ` set (split_char CHR '','' raw) \<and> T = trim ` set (split_char CHR '','' raw))"
    by (auto simp: parse_auth_tokens_def normalize_token_list_Inr)
  have "CHR '','' \<notin> set (trim t)" if "t \<in> set (split_char CHR '','' raw)" for t
    using split_char_no_sep [OF that] set_trim [of t] by blast
  then show "{t. \<exists>T. parse_auth_tokens raw = Inr T \<and> t \<in> T} \<subseteq> {t. t \<noteq> [] \<and> trim t = t \<and> CHR '','' \<notin> set t}"
    by (auto simp: parse_auth_tokens_def normalize_token_list_Inr split: if_splits) (metis image_eqI)
qed

section \<open>Resolving\<close>

text \<open>The file's part: what it gives for each setting, before the command line.\<close>

definition file_part :: "'y file_lib \<Rightarrow> config \<Rightarrow> file_config \<Rightarrow> bool" where
  "file_part F cfg fc \<longleftrightarrow>
    (case cfg_file cfg of None \<Rightarrow> fc = default_file_config | Some path \<Rightarrow> load_file_config F path = Inr fc)"

lemma apply_file_default: "apply_file default_file_config default_resolved = Inr default_resolved"
  by (simp add: apply_file_def default_file_config_def default_resolved_def override_def)

lemma apply_file_Inr:
  "apply_file fc default_resolved = Inr r0 \<longleftrightarrow>
    rc_listen r0 = override (fc_listen fc) ''0.0.0.0:8080'' \<and>
    rc_request_timeout_secs r0 = override (fc_request_timeout_secs fc) 60 \<and>
    (case fc_auth_tokens fc of None \<Rightarrow> rc_auth_tokens r0 = {}
       | Some ts \<Rightarrow> [] \<notin> trim ` set ts \<and> rc_auth_tokens r0 = trim ` set ts)"
  by (cases r0) (auto simp: apply_file_def default_resolved_def Let_def override_def normalize_token_list_eq
    split: option.splits)

lemma resolve_file:
  "resolve F cfg = Inr r \<longleftrightarrow> (\<exists>fc r0. file_part F cfg fc \<and> apply_file fc default_resolved = Inr r0 \<and>
     r = \<lparr>rc_listen = override (cfg_listen cfg) (rc_listen r0),
          rc_auth_tokens = override (cfg_auth_tokens cfg) (rc_auth_tokens r0),
          rc_request_timeout_secs = override (cfg_request_timeout_secs cfg) (rc_request_timeout_secs r0)\<rparr> \<and>
     validate_resolved r = Inr ())"
  by (auto simp: resolve_def file_part_def apply_file_default Let_def split: option.splits sum.splits)

lemma validate_resolved_Inr:
  "validate_resolved r = Inr () \<longleftrightarrow>
    trim (rc_listen r) \<noteq> [] \<and> rc_request_timeout_secs r \<noteq> 0 \<and> rc_auth_tokens r \<noteq> {}"
  by (simp add: validate_resolved_def)

text \<open>
  C37: when a configuration resolves, and to what. Every setting is the command line's if given,
  else the file's, else the default; it resolves iff the file (if any) loads, its tokens are not
  blank (even when the command line overrides them), the address is not blank, the timeout is not
  zero and there is a token.
\<close>

theorem resolve_iff:
  "resolve F cfg = Inr r \<longleftrightarrow> (\<exists>fc file_tokens. file_part F cfg fc \<and>
     (case fc_auth_tokens fc of None \<Rightarrow> file_tokens = {}
        | Some ts \<Rightarrow> [] \<notin> trim ` set ts \<and> file_tokens = trim ` set ts) \<and>
     rc_listen r = override (cfg_listen cfg) (override (fc_listen fc) ''0.0.0.0:8080'') \<and>
     rc_auth_tokens r = override (cfg_auth_tokens cfg) file_tokens \<and>
     rc_request_timeout_secs r = override (cfg_request_timeout_secs cfg) (override (fc_request_timeout_secs fc) 60) \<and>
     trim (rc_listen r) \<noteq> [] \<and> rc_request_timeout_secs r \<noteq> 0 \<and> rc_auth_tokens r \<noteq> {})"
    (is "_ \<longleftrightarrow> ?R")
proof
  assume "resolve F cfg = Inr r"
  then obtain fc r0 where "file_part F cfg fc" and "apply_file fc default_resolved = Inr r0"
    "r = \<lparr>rc_listen = override (cfg_listen cfg) (rc_listen r0),
          rc_auth_tokens = override (cfg_auth_tokens cfg) (rc_auth_tokens r0),
          rc_request_timeout_secs = override (cfg_request_timeout_secs cfg) (rc_request_timeout_secs r0)\<rparr>"
    "validate_resolved r = Inr ()"
    unfolding resolve_file by blast
  then show ?R
    unfolding apply_file_Inr validate_resolved_Inr
    by (intro exI [of _ fc] exI [of _ "rc_auth_tokens r0"]) simp
next
  assume ?R
  then obtain fc ts where *: "file_part F cfg fc"
     "case fc_auth_tokens fc of None \<Rightarrow> ts = {} | Some l \<Rightarrow> [] \<notin> trim ` set l \<and> ts = trim ` set l"
     "rc_listen r = override (cfg_listen cfg) (override (fc_listen fc) ''0.0.0.0:8080'')"
     "rc_auth_tokens r = override (cfg_auth_tokens cfg) ts"
     "rc_request_timeout_secs r = override (cfg_request_timeout_secs cfg) (override (fc_request_timeout_secs fc) 60)"
     "trim (rc_listen r) \<noteq> []" "rc_request_timeout_secs r \<noteq> 0" "rc_auth_tokens r \<noteq> {}"
    by blast
  then show "resolve F cfg = Inr r"
    unfolding resolve_file apply_file_Inr validate_resolved_Inr
    by (intro exI [of _ fc] exI [of _ "\<lparr>rc_listen = override (fc_listen fc) ''0.0.0.0:8080'', rc_auth_tokens = ts,
          rc_request_timeout_secs = override (fc_request_timeout_secs fc) 60\<rparr>"])
       (cases r, simp split: option.split option.split_asm)
qed

text \<open>
  A relay never accepts a blank token. If the command line's tokens, when given, come from its
  parser, an agent registers with a relay of a resolved configuration only with one of the
  configured tokens, which is trimmed and not empty; and there is one.
\<close>

lemma resolved_tokens_safe:
  assumes "resolve F cfg = Inr r"
    and "cfg_auth_tokens cfg = None \<or> (\<exists>raw T. parse_auth_tokens raw = Inr T \<and> cfg_auth_tokens cfg = Some T)"
  shows "{t. validate_token (new_state (rc_auth_tokens r) (rc_request_timeout_secs r)) t} = rc_auth_tokens r \<and>
    rc_auth_tokens r \<noteq> {} \<and> rc_auth_tokens r \<subseteq> {t. t \<noteq> [] \<and> trim t = t}"
proof -
  from assms(1) obtain fc r0 where r: "apply_file fc default_resolved = Inr r0" "rc_auth_tokens r \<noteq> {}"
    "rc_auth_tokens r = override (cfg_auth_tokens cfg) (rc_auth_tokens r0)"
    unfolding resolve_file validate_resolved_Inr by (metis resolved_config.select_convs(2))
  have "rc_auth_tokens r0 \<subseteq> {t. t \<noteq> [] \<and> trim t = t}"
    using r(1) unfolding apply_file_Inr by (auto split: option.splits) (metis image_eqI)
  moreover have parsed: "T \<subseteq> {t. t \<noteq> [] \<and> trim t = t}" if "parse_auth_tokens raw = Inr T" for raw T
    using that by (auto simp: parse_auth_tokens_def normalize_token_list_Inr split: if_splits) (metis image_eqI)
  ultimately have "rc_auth_tokens r \<subseteq> {t. t \<noteq> [] \<and> trim t = t}"
    using assms(2) unfolding r(3) override_def by (elim disjE exE conjE) (simp_all add: parsed)
  with r(2) show ?thesis by (auto simp: validate_token_def new_state_def)
qed

definition sample_config :: config where
  "sample_config = \<lparr>cfg_file = None, cfg_listen = None, cfg_auth_tokens = Some {''tok1'', ''tok2''},
     cfg_request_timeout_secs = None\<rparr>"

lemma trim_samples:
  "trim ''0.0.0.0:8080'' = ''0.0.0.0:8080''" "trim ''tok1,tok2'' = ''tok1,tok2''"
  "trim ''tok1'' = ''tok1''" "trim ''tok2'' = ''tok2''"
  by (simp_all add: trim_graphic graphic_def)

lemma sample_resolved:
  "resolve F sample_config = Inr \<lparr>rc_listen = ''0.0.0.0:8080'', rc_auth_tokens = {''tok1'', ''tok2''},
     rc_request_timeout_secs = 60\<rparr>"
  by (simp add: resolve_def sample_config_def default_resolved_def override_def validate_resolved_def
      trim_samples)

lemma sample_tokens: "parse_auth_tokens ''tok1,tok2'' = Inr {''tok1'', ''tok2''}"
  by (auto simp: parse_auth_tokens_def normalize_token_list_eq trim_samples)

end
