(* ===== verification/Relay_Agent_Link.thy ===== *)
theory Relay_Agent_Link
  imports Relay_Tunnel Relay_Config Agent_Client
begin

text \<open>
  The two ends of the link put together: what one end sends, read by the other. The lemmas follow
  the messages of a request, a response and a WebSocket through both programs; the properties of
  the root theory rest on them.
\<close>

section \<open>Reading what the other end sent\<close>

text \<open>The messages on one agent's channel, and those the agent puts on the link.\<close>

definition agent_msgs :: "chan \<Rightarrow> 't relay_out list \<Rightarrow> 't message list" where
  "agent_msgs c out = List.map_filter
     (\<lambda>m. case m of ToAgent d msg \<Rightarrow> if d = c then Some msg else None | _ \<Rightarrow> None) out"

definition relay_msgs :: "'t agent_out list \<Rightarrow> 't message list" where
  "relay_msgs out = List.map_filter (\<lambda>m. case m of ToRelay msg \<Rightarrow> Some msg | _ \<Rightarrow> None) out"

lemma agent_msgs_simps [simp]:
  "agent_msgs c [] = []"
  "agent_msgs c (ToAgent d msg # out) = (if d = c then msg # agent_msgs c out else agent_msgs c out)"
  "agent_msgs c (xs @ ys) = agent_msgs c xs @ agent_msgs c ys"
  by (simp_all add: agent_msgs_def map_filter_simps List.map_filter_def)

lemma agent_msgs_map [simp]: "agent_msgs c (map (\<lambda>x. ToAgent c (f x)) xs) = map f xs"
  by (induction xs) simp_all

lemma relay_msgs_simps [simp]:
  "relay_msgs [] = []"
  "relay_msgs (ToRelay msg # out) = msg # relay_msgs out"
  "relay_msgs (xs @ ys) = relay_msgs xs @ relay_msgs ys"
  by (simp_all add: relay_msgs_def map_filter_simps List.map_filter_def)

lemma relay_msgs_map [simp]: "relay_msgs (map (\<lambda>x. ToRelay (f x)) xs) = map f xs"
  by (induction xs) simp_all

text \<open>An agent that reads messages one after the other, with all its channels alive.\<close>

definition agent_rounds :: "chan \<Rightarrow> 't message list \<Rightarrow> 't agent_round list" where
  "agent_rounds c ms = map (\<lambda>m. \<lparr>ar_tasks = [], ar_open = True, ar_rx = \<lambda>_. True, ar_chan = c,
     ar_read = ReadMsg m\<rparr>) ms"

lemma agent_rounds_simps [simp]:
  "agent_rounds c [] = []"
  "agent_rounds c (m # ms) = \<lparr>ar_tasks = [], ar_open = True, ar_rx = \<lambda>_. True, ar_chan = c,
     ar_read = ReadMsg m\<rparr> # agent_rounds c ms"
  "agent_rounds c (ms @ ns) = agent_rounds c ms @ agent_rounds c ns"
  by (simp_all add: agent_rounds_def)

section \<open>A request at the agent\<close>

lemma agent_loop_body:
  assumes "is_supported_protocol_version v" and "tbl_get (ag_inflight st) rid = Some bc"
  shows "agent_loop J ctx (agent_rounds c (map MBinary (request_frames rid v n bs)) @ rounds) st =
    (case agent_loop J ctx rounds st of (r, st', out) \<Rightarrow> (r, st', map (ToBody bc) bs @ out))"
  using assms
  by (induction bs arbitrary: n)
     (simp_all add: agent_read_def agent_handle_binary_def decode_encode inflight_get_def andthen_def
       split: prod.split)

lemma agent_loop_request:
  assumes "is_supported_protocol_version v"
    and "from_str J ts = Inr (HttpRequestStart rid method path headers)"
    and "from_str J te = Inr (HttpRequestEnd rid)"
  shows "agent_loop J ctx (agent_rounds bc (MText ts # map MBinary (request_frames rid v 0 bs) @ [MText te])) st =
    (Inr (), inflight_remove rid (inflight_insert rid bc st),
     SpawnProxy \<lparr>pr_id = rid, pr_method = method, pr_path_and_query = path, pr_headers = headers,
       pr_body_rx = bc\<rparr> # map (ToBody bc) bs)"
proof -
  have "tbl_get (ag_inflight (inflight_insert rid bc st)) rid = Some bc"
    by (simp add: inflight_insert_def table_simps)
  from agent_loop_body [OF assms(1) this, of J ctx bc 0 bs "agent_rounds bc [MText te]"] show ?thesis
    by (simp add: agent_read_def agent_handle_text_def assms(2,3))
qed

lemma handle_ingress_puts:
  fixes J :: "'t json"
  assumes "json_ok J" and "in_agent e = Some a" and "in_start_open e" and "in_end_open e"
    and "in_body e = map (\<lambda>b. (Chunk b, True)) bs"
  obtains ts te where
    "from_str J ts = Inr (HttpRequestStart (in_rid e) (rq_method rq)
        (extract_target_path (rq_path_and_query rq) (rq_tunnel rq) (rq_tail rq)) (flatten_headers H (rq_headers rq)))"
    "from_str J te = Inr (HttpRequestEnd (in_rid e))"
    "agent_msgs (sender a) (puts_of (fst (handle_ingress J H rq e))) = MText ts # map MBinary
       (request_frames (in_rid e) (protocol_version a) 0 (filter (\<lambda>b. b \<noteq> []) bs)) @ [MText te]"
proof (rule handle_ingress_sent [OF assms, of rq H])
  fix ts te :: 't
  let ?sent = "Put (ToAgent (sender a) (MText ts)) # Do (SAddInflight (in_rid e) (in_chan e))
    # map (\<lambda>f. Put (ToAgent (sender a) (MBinary f)))
        (request_frames (in_rid e) (protocol_version a) 0 (filter (\<lambda>b. b \<noteq> []) bs))
    @ [Put (ToAgent (sender a) (MText te))]"
  assume t: "from_str J ts = Inr (HttpRequestStart (in_rid e) (rq_method rq)
        (extract_target_path (rq_path_and_query rq) (rq_tunnel rq) (rq_tail rq)) (flatten_headers H (rq_headers rq)))"
      "from_str J te = Inr (HttpRequestEnd (in_rid e))"
    and h: "handle_ingress J H rq e = (let t2 = ?sent in case await_start (nanos (in_timeout e)) [] (in_polls e) of
            None \<Rightarrow> (t2, None)
          | Some (Failed status body) \<Rightarrow>
              (t2 @ [Do (SRemoveInflight (in_rid e))], Some (simple_response status body))
          | Some (Started status headers early) \<Rightarrow>
              (case response_stream (in_events e) of
                 (chunks, finished) \<Rightarrow>
                   (t2 @ (if finished then [Do (SRemoveInflight (in_rid e))] else []),
                    Some \<lparr>rsp_status = (if status_valid H status then status else 502),
                      rsp_headers = apply_forwarded_headers H [] headers,
                      rsp_body = early @ chunks,
                      rsp_complete = finished\<rparr>)))"
  have "puts_of (fst (handle_ingress J H rq e)) = puts_of ?sent"
    unfolding h Let_def by (simp split: option.split start_result.split prod.split)
  then show thesis by (intro that [OF t]) simp
qed

section \<open>A response at the relay\<close>

text \<open>A session that reads text and binary messages only goes on after each of them.\<close>

fun data_message :: "'t message \<Rightarrow> bool" where
  "data_message (MText _) = True"
| "data_message (MBinary _) = True"
| "data_message _ = False"

lemma read_replies_no_event [simp]: "events_to c (read_replies J rx out r) = []"
  by (auto simp: read_replies_def send_control_def split: read.split message.split sum.split control_message.split)

lemma for_each_fst_append:
  "fst (for_each f (xs @ ys) s) = fst (for_each f ys (fst (for_each f xs s)))"
  by (simp add: for_each_append act_simps)

lemma session_loop_data:
  fixes J :: "'t json"
  assumes "list_all data_message ms"
  shows "fst (session_loop J out (map (\<lambda>m. (rx, ReadMsg m)) ms) st) =
      fst (for_each (exec_op rx :: _ \<Rightarrow> 't relay_act) (concat (map (\<lambda>m. read_ops J (ReadMsg m)) ms)) st) \<and>
    events_to c (snd (session_loop J out (map (\<lambda>m. (rx, ReadMsg m)) ms) st)) =
      events_to c (snd (for_each (exec_op rx :: _ \<Rightarrow> 't relay_act) (concat (map (\<lambda>m. read_ops J (ReadMsg m)) ms)) st))"
  using assms
proof (induction ms arbitrary: st)
  case (Cons m ms)
  let ?r = "for_each (exec_op rx :: _ \<Rightarrow> 't relay_act) (read_ops J (ReadMsg m)) st"
  have "fst (session_read J rx out (ReadMsg m) st)"
    using Cons.prems by (cases m) (simp_all add: session_read_def)
  then have sr: "session_read J rx out (ReadMsg m) st =
      (True, fst ?r, snd ?r @ read_replies J rx out (ReadMsg m))"
    using session_read_ops [of J rx out "ReadMsg m" st] by (simp add: prod_eq_iff split: prod.splits)
  obtain st2 o2 where l: "session_loop J out (map (\<lambda>m. (rx, ReadMsg m)) ms) (fst ?r) = (st2, o2)" by fastforce
  from Cons.IH [of "fst ?r"] Cons.prems show ?case
    by (simp add: sr l for_each_append act_simps)
qed (simp add: skip_def)

lemmas session_loop_ops = session_loop_data [THEN conjunct1] session_loop_data [THEN conjunct2]

text \<open>What a response's operations do to a request that is registered with a live channel.\<close>

lemma notify_bodies:
  fixes rx :: "chan \<Rightarrow> bool"
  assumes "tbl_get (inflight st) rid = Some c" and "rx c"
  shows "for_each (exec_op rx) (map (SNotifyBody rid) bs) st = (st, map (\<lambda>b. ToRequest c (EvBody b)) bs)"
  using assms by (induction bs) (simp_all add: skip_def andthen_def notify_body_eq)

lemma response_events:
  fixes rx :: "chan \<Rightarrow> bool"
  assumes "tbl_get (inflight st) rid = Some c" and "rx c"
  shows "for_each (exec_op rx) (SNotifyStart rid s hs # map (SNotifyBody rid) bs @ [SNotifyEnd rid]) st =
    (remove_inflight rid st,
     ToRequest c (EvStart s hs) # map (\<lambda>b. ToRequest c (EvBody b)) bs @ [ToRequest c EvEnd])"
  using notify_bodies [of st rid c rx, OF assms, of bs, where 'a = 'a] assms
  by (simp add: andthen_def for_each_append skip_def notify_start_eq notify_end_eq)

lemma events_to_map [simp]:
  "events_to c (map (\<lambda>b. ToRequest c (f b)) bs) = map f bs"
  by (induction bs) simp_all

lemma control_data: "list_all data_message (relay_msgs (snd (agent_send_control J b m)))"
  by (auto simp: agent_send_control_def split: sum.split)

lemma response_body_data: "list_all data_message (relay_msgs (snd (stream_response_body v rid n items)))"
  by (induction v rid n items rule: stream_response_body.induct) (auto simp: Let_def split: prod.splits)

lemma proxy_one_request_data:
  "list_all data_message (relay_msgs (snd (proxy_one_request J H U mo sv ctx so eo req)))"
  unfolding proxy_one_request_def
  by (simp add: case_prod_unfold control_data response_body_data split: sum.split local_reply.split)

lemma proxy_task_data:
  "list_all data_message (relay_msgs (proxy_task J H U mo sv ctx so eo ro req))"
  by (simp add: proxy_task_def case_prod_unfold control_data proxy_one_request_data split: sum.split)

lemma concat_relay_msgs:
  "concat (map (\<lambda>m. read_ops J (ReadMsg m)) (relay_msgs out)) = relay_ops J out"
  by (induction out) (auto simp: relay_ops_def relay_msgs_def map_filter_simps split: agent_out.split)

lemma proxy_response_events:
  fixes J :: "'t json" and rx :: "chan \<Rightarrow> bool"
  assumes "json_ok J" and "is_supported_protocol_version (relay_frame_version ctx)"
    and "local_outcome H U mo sv (local_base ctx) req (Response status headers bs None)"
    and "tbl_get (inflight st) (pr_id req) = Some c" and "rx c"
  shows "fst (session_loop J out (map (\<lambda>m. (rx, ReadMsg m))
        (relay_msgs (proxy_task J H U mo sv ctx True True True req))) st) = remove_inflight (pr_id req) st"
    and "events_to c (snd (session_loop J out (map (\<lambda>m. (rx, ReadMsg m))
        (relay_msgs (proxy_task J H U mo sv ctx True True True req))) st)) =
      EvStart status (flatten_response_headers H headers) # map EvBody (filter (\<lambda>b. b \<noteq> []) bs) @ [EvEnd]"
proof -
  note ops = proxy_task_relay_ops [OF assms(1-3)]
  note run = response_events [of st "pr_id req" c rx, OF assms(4,5), of status "flatten_response_headers H headers"
      "filter (\<lambda>b. b \<noteq> []) bs", where 'a = 't]
  show "fst (session_loop J out (map (\<lambda>m. (rx, ReadMsg m))
        (relay_msgs (proxy_task J H U mo sv ctx True True True req))) st) = remove_inflight (pr_id req) st"
    unfolding session_loop_ops(1) [OF proxy_task_data] concat_relay_msgs ops using run by simp
  show "events_to c (snd (session_loop J out (map (\<lambda>m. (rx, ReadMsg m))
        (relay_msgs (proxy_task J H U mo sv ctx True True True req))) st)) =
      EvStart status (flatten_response_headers H headers) # map EvBody (filter (\<lambda>b. b \<noteq> []) bs) @ [EvEnd]"
    unfolding session_loop_ops(2) [OF proxy_task_data] concat_relay_msgs ops using run by simp
qed

section \<open>WebSocket messages across the link\<close>

lemma to_client_map [simp]: "to_client (map (\<lambda>x. TClient (f x)) xs) = map f xs"
  by (induction xs) simp_all

lemma stream_to_local_map [simp]: "stream_to_local (map (\<lambda>x. WLocal (f x)) xs) = map f xs"
  by (induction xs) simp_all

text \<open>
  The messages that are carried as they are: everything but a close, and a text that is one (a
  Rust string always is; here a string is any list of bytes).
\<close>

definition carried :: "string message \<Rightarrow> bool" where
  "carried m \<longleftrightarrow> (case m of MText t \<Rightarrow> utf8_valid (as_bytes t) | MClose _ \<Rightarrow> False | _ \<Rightarrow> True)"

lemma carried_frame:
  assumes "carried m"
  obtains op b where "frame_of m = Some (op, b)" and "local_message op b = m" and "client_message op b = m"
  using assms
  by (cases m) (auto simp: carried_def local_message_def client_message_def from_utf8_as_bytes)

lemma carried_frames:
  assumes "list_all carried ms"
  shows "\<forall>m\<in>set ms. frame_of m \<noteq> None"
    and "map (\<lambda>(op, b). local_message op b) (map (the \<circ> frame_of) ms) = ms"
    and "map (\<lambda>(op, b). client_message op b) (map (the \<circ> frame_of) ms) = ms"
  using assms by (induction ms) (auto elim: carried_frame)

subsection \<open>From the client to the local server\<close>

lemma agent_loop_ws:
  assumes "is_supported_protocol_version v" and "tbl_get (ag_ws_sessions st) sid = Some tx"
  shows "agent_loop J ctx (agent_rounds bc (map (\<lambda>f. MBinary (ws_frame v WsClientFrame sid f)) fs)) st =
    (Inr (), st, map (\<lambda>(op, b). ToSession tx (InFrame op b)) fs)"
  using assms
  by (induction fs)
     (auto simp: agent_read_def agent_handle_binary_def ws_frame_decode split: prod.splits)

lemma stream_loop_inbound:
  "stream_loop J sid v (map (\<lambda>(op, b). Inbound True (Some (InFrame op b))) fs @ evs) =
    (map (\<lambda>(op, b). WLocal (local_message op b)) fs @ fst (stream_loop J sid v evs), snd (stream_loop J sid v evs))"
  by (induction fs) (auto simp: from_inbound_def split: prod.splits)

subsection \<open>From the local server to the client\<close>

lemma from_local_frame:
  assumes "frame_of m = Some f"
  shows "from_local J ok sid v (Some (ReadMsg m)) =
    (ok, deliver ok (ToRelay (MBinary (ws_frame v WsLocalFrame sid f))))"
  using assms
  by (cases m) (auto simp: from_local_def send_ws_frame_to_relay_def ws_frame_def Let_def)

lemma stream_loop_local:
  assumes "\<forall>m\<in>set ms. frame_of m \<noteq> None"
  shows "stream_loop J sid v (map (\<lambda>m. LocalRead True (Some (ReadMsg m))) ms @ evs) =
    (map (\<lambda>m. WPut (ToRelay (MBinary (ws_frame v WsLocalFrame sid (the (frame_of m)))))) ms
       @ fst (stream_loop J sid v evs), snd (stream_loop J sid v evs))"
  using assms by (induction ms) (auto simp: from_local_frame split: prod.splits)

lemma session_loop_ws:
  fixes rx :: "chan \<Rightarrow> bool"
  assumes "is_supported_protocol_version v" and "tbl_get (ws_streams st) sid = Some h" and "rx (ws_sender h)"
  shows "session_loop J out (map (\<lambda>f. (rx, ReadMsg (MBinary (ws_frame v WsLocalFrame sid f)))) fs) st =
    (st, map (\<lambda>(op, b). ToStream (ws_sender h) (WsEvFrame op b)) fs)"
  using assms
  by (induction fs)
     (auto simp: session_read_def handle_binary_message_def ws_frame_decode notify_ws_frame_def
        split: prod.splits)

subsection \<open>Both ways, message by message\<close>

lemma client_messages_carried:
  assumes "is_supported_protocol_version v" and "list_all carried ms"
    and "tbl_get (ag_ws_sessions st) sid = Some tx"
  shows "\<exists>evs. agent_loop J ctx (agent_rounds bc (agent_msgs c (to_agent (fst
        (tunnel_loop J c sid v (map (\<lambda>m. ClientRead (\<lambda>_. True) (Some (ReadMsg m))) ms)))))) st =
      (Inr (), st, map (ToSession tx) evs) \<and>
    stream_to_local (fst (stream_loop J sid w (map (\<lambda>ev. Inbound True (Some ev)) evs))) = ms"
proof -
  let ?fs = "map (the \<circ> frame_of) ms"
  have tl: "tunnel_loop J c sid v (map (\<lambda>m. ClientRead (\<lambda>_. True) (Some (ReadMsg m))) ms) =
      (map TPut (map (\<lambda>f. ToAgent c (MBinary (ws_frame v WsClientFrame sid f))) ?fs), False)"
    using tunnel_loop_client [OF carried_frames(1) [OF assms(2)], of J c sid v "[]"] by (simp add: comp_def)
  have sent: "agent_msgs c (to_agent (fst (tunnel_loop J c sid v
      (map (\<lambda>m. ClientRead (\<lambda>_. True) (Some (ReadMsg m))) ms)))) =
      map (\<lambda>f. MBinary (ws_frame v WsClientFrame sid f)) ?fs"
    unfolding tl fst_conv tunnel_trace_puts agent_msgs_map ..
  have "stream_loop J sid w (map (\<lambda>(op, b). Inbound True (Some (InFrame op b))) ?fs) =
      (map WLocal (map (\<lambda>(op, b). local_message op b) ?fs), False)"
    using stream_loop_inbound [of J sid w ?fs "[]"] by (simp add: comp_def case_prod_unfold)
  then have "stream_to_local (fst (stream_loop J sid w (map (\<lambda>ev. Inbound True (Some ev))
      (map (\<lambda>(op, b). InFrame op b) ?fs)))) = ms"
    using carried_frames(2) [OF assms(2)] by (simp add: comp_def case_prod_unfold)
  moreover have "agent_loop J ctx (agent_rounds bc (map (\<lambda>f. MBinary (ws_frame v WsClientFrame sid f)) ?fs)) st =
      (Inr (), st, map (ToSession tx) (map (\<lambda>(op, b). InFrame op b) ?fs))"
    using agent_loop_ws [OF assms(1,3), of J ctx bc ?fs] by (simp add: comp_def case_prod_unfold)
  ultimately show ?thesis unfolding sent by blast
qed

lemma local_messages_carried:
  fixes rx :: "chan \<Rightarrow> bool"
  assumes "is_supported_protocol_version v" and "list_all carried ms"
    and "tbl_get (ws_streams st) sid = Some h" and "rx (ws_sender h)"
  shows "\<exists>evs. session_loop J out (map (\<lambda>m. (rx, ReadMsg m)) (relay_msgs (stream_to_relay (fst
        (stream_loop J sid v (map (\<lambda>m. LocalRead True (Some (ReadMsg m))) ms)))))) st =
      (st, map (ToStream (ws_sender h)) evs) \<and>
    to_client (fst (tunnel_loop J c sid w (map (\<lambda>ev. RelayRead True (Some ev)) evs))) = ms"
proof -
  let ?fs = "map (the \<circ> frame_of) ms"
  have sl: "stream_loop J sid v (map (\<lambda>m. LocalRead True (Some (ReadMsg m))) ms) =
      (map WPut (map (\<lambda>f. ToRelay (MBinary (ws_frame v WsLocalFrame sid f))) ?fs), False)"
    using stream_loop_local [OF carried_frames(1) [OF assms(2)], of J sid v "[]"] by (simp add: comp_def)
  have sent: "relay_msgs (stream_to_relay (fst (stream_loop J sid v
      (map (\<lambda>m. LocalRead True (Some (ReadMsg m))) ms)))) =
      map (\<lambda>f. MBinary (ws_frame v WsLocalFrame sid f)) ?fs"
    unfolding sl fst_conv stream_trace_puts relay_msgs_map ..
  have "tunnel_loop J c sid w (map (\<lambda>(op, b). RelayRead True (Some (WsEvFrame op b))) ?fs) =
      (map TClient (map (\<lambda>(op, b). client_message op b) ?fs), False)"
    using tunnel_loop_relay [of J c sid w ?fs "[]"] by (simp add: comp_def case_prod_unfold)
  then have "to_client (fst (tunnel_loop J c sid w (map (\<lambda>ev. RelayRead True (Some ev))
      (map (\<lambda>(op, b). WsEvFrame op b) ?fs)))) = ms"
    using carried_frames(3) [OF assms(2)] by (simp add: comp_def case_prod_unfold)
  moreover have "session_loop J out (map (\<lambda>f. (rx, ReadMsg (MBinary (ws_frame v WsLocalFrame sid f)))) ?fs) st =
      (st, map (ToStream (ws_sender h)) (map (\<lambda>(op, b). WsEvFrame op b) ?fs))"
    using session_loop_ws [where rx = rx, OF assms(1,3,4), of J out ?fs] by (simp add: comp_def case_prod_unfold)
  ultimately show ?thesis
    unfolding sent by (intro exI [of _ "map (\<lambda>(op, b). WsEvFrame op b) ?fs"]) (simp add: comp_def)
qed

end
