(* ===== verification/Relay_Program.thy ===== *)
theory Relay_Program
  imports Relay_Agent_Link
begin

text \<open>
  The relay as a program: \<open>crates/relay-server/src/main.rs\<close> (start and routes), \<open>health.rs\<close>,
  \<open>ingress.rs\<close> and the two entry points of \<open>http_ingress.rs\<close>. Binding, serving and the
  matching of paths to routes belong to the libraries and are parameters. The lemmas say who can
  ever register with a relay that has started, what a request without an agent gets, and what the
  order of channel, table and socket means for a registration.
\<close>

section \<open>Health\<close>

record health_payload =
  hp_status :: string
  hp_service :: string
  hp_version :: string

text \<open>The crate's version is the workspace's.\<close>

definition CARGO_PKG_VERSION :: string where
  "CARGO_PKG_VERSION = ''0.3.0''"

definition healthz :: health_payload where
  "healthz = \<lparr>hp_status = ''ok'', hp_service = ''relay-server'', hp_version = CARGO_PKG_VERSION\<rparr>"

definition readyz :: health_payload where
  "readyz = \<lparr>hp_status = ''ready'', hp_service = ''relay-server'', hp_version = CARGO_PKG_VERSION\<rparr>"

section \<open>Public requests\<close>

text \<open>
  A request as the server library hands it over: the uri's path and query, method and headers, and
  whether the library would accept an upgrade. The root route has no tail.
\<close>

record public_request =
  pq_path_and_query :: "string option"
  pq_method :: string
  pq_headers :: header_map
  pq_upgrade_ok :: bool

definition http_request :: "string \<Rightarrow> string \<Rightarrow> public_request \<Rightarrow> ingress_request" where
  "http_request tunnel_id tail r = \<lparr>rq_tunnel = tunnel_id, rq_tail = tail,
     rq_path_and_query = pq_path_and_query r, rq_method = pq_method r, rq_headers = pq_headers r\<rparr>"

definition http_ingress_root ::
    "'t json \<Rightarrow> http_lib \<Rightarrow> string \<Rightarrow> public_request \<Rightarrow> ingress_env \<Rightarrow> 't action list \<times> http_response option" where
  "http_ingress_root J H tunnel_id r e = handle_ingress J H (http_request tunnel_id [] r) e"

definition http_ingress_path ::
    "'t json \<Rightarrow> http_lib \<Rightarrow> string \<Rightarrow> string \<Rightarrow> public_request \<Rightarrow> ingress_env \<Rightarrow>
      't action list \<times> http_response option" where
  "http_ingress_path J H tunnel_id path r e = handle_ingress J H (http_request tunnel_id path r) e"

text \<open>
  What becomes of a request: an HTTP handler with its trace, or a tunnel with its trace, its answer
  and whether it has ended. Both handlers look the agent up in the shared state.
\<close>

datatype 't public_answer =
    HttpAnswer "'t action list" "http_response option"
  | WsAnswer "'t tunnel_action list" upgrade_result bool

definition at_state :: "app_state \<Rightarrow> string \<Rightarrow> ingress_env \<Rightarrow> ingress_env" where
  "at_state st tunnel_id e =
     e\<lparr>in_agent := get_agent st tunnel_id, in_timeout := request_timeout_secs st\<rparr>"

definition tunnel_answer :: "'t tunnel_action list \<times> upgrade_result \<times> bool \<Rightarrow> 't public_answer" where
  "tunnel_answer x = (case x of (tr, res, finished) \<Rightarrow> WsAnswer tr res finished)"

definition http_answer_of :: "'t action list \<times> http_response option \<Rightarrow> 't public_answer" where
  "http_answer_of x = (case x of (tr, res) \<Rightarrow> HttpAnswer tr res)"

definition ingress_root ::
    "'t json \<Rightarrow> http_lib \<Rightarrow> app_state \<Rightarrow> string \<Rightarrow> public_request \<Rightarrow> ingress_env \<Rightarrow> upgrade_env \<Rightarrow>
      't public_answer" where
  "ingress_root J H st tunnel_id r e u =
    (case ingress_dispatch H (pq_method r) (pq_headers r) (pq_upgrade_ok r) (pq_path_and_query r) tunnel_id [] of
       RouteWs target_path \<Rightarrow> tunnel_answer (upgrade_client_ws J H tunnel_id target_path (pq_headers r)
         (u\<lparr>ue_agent := get_agent st tunnel_id\<rparr>))
     | RouteHttp \<Rightarrow> http_answer_of (http_ingress_root J H tunnel_id r (at_state st tunnel_id e)))"

definition ingress_path ::
    "'t json \<Rightarrow> http_lib \<Rightarrow> app_state \<Rightarrow> string \<Rightarrow> string \<Rightarrow> public_request \<Rightarrow> ingress_env \<Rightarrow> upgrade_env \<Rightarrow>
      't public_answer" where
  "ingress_path J H st tunnel_id path r e u =
    (case ingress_dispatch H (pq_method r) (pq_headers r) (pq_upgrade_ok r) (pq_path_and_query r) tunnel_id path of
       RouteWs target_path \<Rightarrow> tunnel_answer (upgrade_client_ws J H tunnel_id target_path (pq_headers r)
         (u\<lparr>ue_agent := get_agent st tunnel_id\<rparr>))
     | RouteHttp \<Rightarrow> http_answer_of (http_ingress_path J H tunnel_id path r (at_state st tunnel_id e)))"

section \<open>Start\<close>

datatype endpoint = EpHealthz | EpReadyz | EpWs | EpIngressRoot | EpIngressPath
datatype method_filter = OnlyGet | AnyVerb

definition relay_routes :: "(string \<times> method_filter \<times> endpoint) list" where
  "relay_routes =
    [(''/healthz'', OnlyGet, EpHealthz), (''/readyz'', OnlyGet, EpReadyz), (''/ws'', OnlyGet, EpWs),
     (''/t/:tunnel_id'', AnyVerb, EpIngressRoot), (''/t/:tunnel_id/'', AnyVerb, EpIngressRoot),
     (''/t/:tunnel_id/*path'', AnyVerb, EpIngressPath)]"

datatype relay_error = BadConfig config_error | FailedToBind string | ServerFailed string

definition relay_start ::
    "'y file_lib \<Rightarrow> (string \<Rightarrow> string + 'l) \<Rightarrow> config \<Rightarrow> relay_error + app_state \<times> 'l" where
  "relay_start F bind cfg =
    (case resolve F cfg of
       Inl e \<Rightarrow> Inl (BadConfig e)
     | Inr config \<Rightarrow>
        (let st = new_state (rc_auth_tokens config) (rc_request_timeout_secs config)
         in case bind (rc_listen config) of
              Inl e \<Rightarrow> Inl (FailedToBind (''failed to bind '' @ rc_listen config))
            | Inr listener \<Rightarrow> Inr (st, listener)))"

text \<open>\<open>serve\<close> runs the server on the listener, the routes and the state until it fails or ends.\<close>

definition relay_main ::
    "'y file_lib \<Rightarrow> (string \<Rightarrow> string + 'l) \<Rightarrow>
      ('l \<Rightarrow> (string \<times> method_filter \<times> endpoint) list \<Rightarrow> app_state \<Rightarrow> string + unit) \<Rightarrow> config \<Rightarrow> relay_error + unit" where
  "relay_main F bind serve cfg =
    (case relay_start F bind cfg of
       Inl e \<Rightarrow> Inl e
     | Inr (st, listener) \<Rightarrow>
        (case serve listener relay_routes st of
           Inl e \<Rightarrow> Inl (ServerFailed ''relay server failed'')
         | Inr _ \<Rightarrow> Inr ()))"

section \<open>Who can register with a started relay\<close>

text \<open>No operation of the shared state changes the tokens or the timeout.\<close>

lemma exec_op_settings:
  assumes "state_ok st"
  shows "auth_tokens (fst (exec_op rx op st)) = auth_tokens st \<and>
    request_timeout_secs (fst (exec_op rx op st)) = request_timeout_secs st"
proof (cases op)
  case (SRemoveAgentIf t c)
  then show ?thesis by (simp add: remove_agent_if_eq [OF assms] split: option.split)
qed (auto simp: state_op_defs split: option.split)

interpretation settings: preserving "\<lambda>(rx, op). exec_op rx op"
    "\<lambda>st. state_ok st \<and> auth_tokens st = T \<and> request_timeout_secs st = n" for T n
  by unfold_locales (auto simp: exec_op_state_ok exec_op_settings)

lemma run_ops_settings:
  fixes steps :: "((chan \<Rightarrow> bool) \<times> state_op) list"
  assumes "state_ok st"
  shows "auth_tokens (fst ((run_ops steps :: 't relay_act) st)) = auth_tokens st"
proof -
  have "state_ok (fst ((run_ops steps :: 't relay_act) st)) \<and>
      auth_tokens (fst ((run_ops steps :: 't relay_act) st)) = auth_tokens st \<and>
      request_timeout_secs (fst ((run_ops steps :: 't relay_act) st)) = request_timeout_secs st"
    by (rule settings.run_inv) (simp add: assms)
  then show ?thesis by blast
qed

lemma new_state_ok: "state_ok (new_state T n)"
  by (rule reachable_state_ok) (rule reachable_new)

lemma relay_start_Inr:
  "relay_start F bind cfg = Inr (st, l) \<longleftrightarrow> (\<exists>r. resolve F cfg = Inr r \<and> bind (rc_listen r) = Inr l \<and>
     st = new_state (rc_auth_tokens r) (rc_request_timeout_secs r))"
  by (auto simp: relay_start_def Let_def split: sum.split)

text \<open>
  C12: only an agent with a configured token ever registers. When the relay has started (its tokens,
  if given on the command line, parsed) and any operations of its tasks have happened, an agent that
  gets registered has sent a registration with a supported version, a valid free tunnel id, and one
  of the tokens the configuration resolved to, which is not empty and has no blanks around it.
\<close>

theorem only_configured_agents_register:
  fixes J :: "'t json"
  assumes "relay_start F bind cfg = Inr (st0, l)"
    and "cfg_auth_tokens cfg = None \<or> (\<exists>raw T. parse_auth_tokens raw = Inr T \<and> cfg_auth_tokens cfg = Some T)"
    and "open_session J rx out cid first (fst ((run_ops steps :: 't relay_act) st0)) = (st', o', Some (tid, cid'))"
  shows "\<exists>r token version caps. resolve F cfg = Inr r \<and>
    read_register_message J first = Some (RegisterAgent tid token version caps) \<and>
    token \<in> rc_auth_tokens r \<and> token \<noteq> [] \<and> trim token = token \<and>
    is_valid_tunnel_id tid \<and> get_agent (fst ((run_ops steps :: 't relay_act) st0)) tid = None \<and>
    get_agent st' tid \<noteq> None"
proof -
  let ?st = "fst ((run_ops steps :: 't relay_act) st0)"
  from assms(1) obtain r where r: "resolve F cfg = Inr r"
    "st0 = new_state (rc_auth_tokens r) (rc_request_timeout_secs r)"
    unfolding relay_start_Inr by blast
  then have "state_ok st0" by (simp add: new_state_ok)
  then have "auth_tokens ?st = auth_tokens st0" by (rule run_ops_settings)
  then have "auth_tokens ?st = rc_auth_tokens r" by (simp add: r(2) new_state_def)
  moreover from assms(3) have "\<exists>o'. open_session J rx out cid first ?st = (st', o', Some (tid, cid'))" by blast
  then obtain token version caps where
    "read_register_message J first = Some (RegisterAgent tid token version caps)"
    "is_valid_tunnel_id tid" "token \<in> auth_tokens ?st" "get_agent ?st tid = None" "get_agent st' tid \<noteq> None"
    unfolding open_session_iff by (auto simp: get_agent_def table_simps)
  moreover from resolved_tokens_safe [OF r(1) assms(2)]
  have "rc_auth_tokens r \<subseteq> {t. t \<noteq> [] \<and> trim t = t}" by blast
  ultimately show ?thesis using r(1) by (intro exI conjI) auto
qed

theorem only_configured_agents_register_witness:
  "get_agent (fst (open_session plain_json (\<lambda>_. True) 50 9
     (FirstRead (ReadMsg (MText (RegisterAgent ''demo'' ''tok2'' None []))))
     (new_state {''tok1'', ''tok2''} 60))) ''demo'' \<noteq> None"
proof -
  let ?F = "undefined :: unit file_lib"
  have start: "relay_start ?F (\<lambda>_. Inr ()) sample_config = Inr (new_state {''tok1'', ''tok2''} 60, ())"
    unfolding relay_start_Inr by (simp add: sample_resolved)
  let ?first = "FirstRead (ReadMsg (MText (RegisterAgent ''demo'' ''tok2'' None [])))"
  obtain st' o' where o: "open_session plain_json (\<lambda>_. True) 50 9 ?first
      (fst ((run_ops [] :: control_message relay_act) (new_state {''tok1'', ''tok2''} 60))) = (st', o', Some (''demo'', 9))"
    by (simp add: open_session_eq read_register_message_def plain_json_def new_state_def validate_token_def
        is_supported_protocol_version_def LEGACY_PROTOCOL_VERSION_def is_valid_tunnel_id_def
        insert_agent_if_absent_def skip_def is_ascii_alphanumeric_def)
  have "cfg_auth_tokens sample_config = None \<or>
      (\<exists>raw T. parse_auth_tokens raw = Inr T \<and> cfg_auth_tokens sample_config = Some T)"
    using sample_tokens by (auto simp: sample_config_def)
  from only_configured_agents_register [OF start this o] have "get_agent st' ''demo'' \<noteq> None" by blast
  with o show ?thesis by (simp add: skip_def)
qed

section \<open>Requests without an agent\<close>

lemma candidate_get: "is_ws_upgrade_candidate H method headers \<Longrightarrow> method = ''GET''"
  by (simp add: is_ws_upgrade_candidate_def split: if_splits)

text \<open>
  A request to a tunnel without an agent is refused and leaves no trace. Both routes answer a
  502, to an upgrade as to any other request, and neither sends anything nor touches the tables.
\<close>

lemma no_agent_refused:
  assumes "get_agent st tid = None"
  shows "ingress_root J H st tid r e u =
      (if is_ws_upgrade_candidate H (pq_method r) (pq_headers r) \<and> pq_upgrade_ok r
       then WsAnswer [] (UpgradeRefused (simple_response 502 ''no connected agent for tunnel'')) True
       else HttpAnswer [] (Some (simple_response 502 ''no connected agent for tunnel''))) \<and>
    ingress_path J H st tid path r e u = ingress_root J H st tid r e u"
  by (cases "is_ws_upgrade_candidate H (pq_method r) (pq_headers r)")
     (simp_all add: ingress_root_def ingress_path_def ingress_dispatch_def Let_def candidate_get
      upgrade_client_ws_def http_ingress_root_def http_ingress_path_def handle_ingress_def at_state_def
      http_answer_of_def tunnel_answer_def assms)

lemma no_agent_refused_witness:
  "ingress_root plain_json plain_http (new_state {''tok''} 60) ''demo''
     \<lparr>pq_path_and_query = Some ''/t/demo'', pq_method = ''POST'', pq_headers = [], pq_upgrade_ok = True\<rparr>
     sample_env sample_upgrade = HttpAnswer [] (Some (simple_response 502 ''no connected agent for tunnel''))"
proof -
  have "get_agent (new_state {''tok''} 60) ''demo'' = None" by (simp add: new_state_def get_agent_def)
  from no_agent_refused [OF this, of plain_json plain_http] show ?thesis by (simp add: is_ws_upgrade_candidate_def)
qed

section \<open>The registration on the wire\<close>

text \<open>
  The first read of an agent whose socket got the given messages and was then dropped by the relay.
  The relay does not close the WebSocket, so if there is no message the agent's library gives the
  error \<open>e\<close> (\<open>Connection reset without closing handshake\<close> in \<open>docs/troubleshooting.md\<close>).
\<close>

definition agent_first :: "string \<Rightarrow> 't message list \<Rightarrow> 't first_read" where
  "agent_first e wire = (case wire of [] \<Rightarrow> FirstRead (ReadErr e) | m # _ \<Rightarrow> FirstRead (ReadMsg m))"

text \<open>
  C26: a rejected agent may not learn the reason. A session that rejects puts its acknowledgement on
  its channel and aborts the writer task at once. So even on a socket that takes every message what
  is written is either the acknowledgement or nothing, and both can happen: then the agent's error
  is the relay's reason, or only that the connection was reset.
\<close>

theorem rejection_may_be_lost:
  fixes J :: "'t json"
  assumes "json_ok J" and "rx out" and "read_register_message J first \<noteq> None"
    and "open_session J rx out cid first st = (st', o', None)"
  shows "\<exists>ta reason. o' = [ToAgent out (MText ta)] \<and>
    from_str J ta = Inr (RegisterAck False (Some reason) (Some 2) [''ws_tunnel_v1'']) \<and>
    {wire. writer_run False (handle_socket_actions J rx out cid first reads rx_end st) [] wire} = {[], [MText ta]} \<and>
    wait_register_ack J (agent_first e [MText ta]) = Inl (''register rejected: '' @ reason) \<and>
    wait_register_ack J (agent_first e []) = Inl e"
proof -
  obtain acts where acts: "registration J rx out cid first st = (acts, None)"
    and o': "snd (run_session acts st) = o'"
    using assms(4) by (auto simp: open_session_def split: prod.splits)
  obtain before ta reason where shape: "acts = before @ [SessPut (ToAgent out (MText ta)), AbortWriter]"
    and before: "before = [] \<or> (\<exists>op. before = [SessDo rx op])"
    and ta: "from_str J ta = Inr (RegisterAck False (Some reason) (Some 2) [''ws_tunnel_v1''])"
    by (rule registration_rejected [where rx = rx and out = out, OF assms(1-3) acts]) (rule that; assumption)
  have "\<exists>sent. o' = sent @ [ToAgent out (MText ta)]"
    unfolding o' [symmetric] shape run_session_append by (auto split: prod.split)
  then have "o' = [ToAgent out (MText ta)]"
    using open_session_ack [where rx = rx and out = out, OF assms] by auto
  moreover have last: "writer_run False [AbortWriter] [m] w \<longleftrightarrow> w = [] \<or> w = [m]"
    for m :: "'t message" and w
    by (auto simp: writer_run_abort intro: writer_run.intros)
  have "{wire. writer_run False (handle_socket_actions J rx out cid first reads rx_end st) [] wire} = {[], [MText ta]}"
    using before by (auto simp: handle_socket_actions_def acts shape writer_run_do writer_run_put last)
  ultimately show ?thesis using ta
    by (intro exI [of _ ta] exI [of _ reason]) (simp add: agent_first_def wait_register_ack_def)
qed

theorem rejection_may_be_lost_witness:
  "\<exists>ta. {wire. writer_run False (handle_socket_actions plain_json (\<lambda>_. True) 50 9
      (FirstRead (ReadMsg (MText (ControlPing 5)))) [] (\<lambda>_. True) sample_state) [] wire} = {[], [MText ta]}"
proof -
  let ?first = "FirstRead (ReadMsg (MText (ControlPing 5)))"
  have r: "read_register_message plain_json ?first = Some (ControlPing 5)"
    by (simp add: read_register_message_def plain_json_def)
  obtain o' where o: "open_session plain_json (\<lambda>_. True) 50 9 ?first sample_state = (sample_state, o', None)"
    by (simp add: open_session_eq r)
  have "read_register_message plain_json ?first \<noteq> None" by (simp add: r)
  from rejection_may_be_lost [where rx = "\<lambda>_. True" and e = "''reset''", OF plain_json_ok TrueI this o, of "[]" "\<lambda>_. True"]
  show ?thesis by (elim exE conjE) (rule exI)
qed

text \<open>
  C25: a request can overtake the acknowledgement. The task of a session that registers inserts the
  agent first and only then puts the acknowledgement on its channel. A request handler that looks
  the agent up in between finds it and puts its request start on the channel first; whatever the
  writer task then gets written begins with that, all of it may be, and the agent that reads it
  gives the connection up although it is registered and the acknowledgement that follows is good.
\<close>

theorem request_overtakes_ack:
  fixes J :: "'t json"
  assumes "json_ok J" and "rx out" and "in_start_open e"
    and "registration J rx out cid first st = (acts, Some (tid, cid'))"
  shows "\<exists>before ta ts rest. acts = before @ [SessPut (ToAgent out (MText ta))] \<and>
    snd (run_session before st) = [] \<and> map_option sender (get_agent (fst (run_session before st)) tid) = Some out \<and>
    fst (handle_ingress J H (http_request tid tail r) (at_state (fst (run_session before st)) tid e))
      = Put (ToAgent out (MText ts)) # rest \<and>
    (\<forall>b later wire. writer_run b (before @ SessPut (ToAgent out (MText ts)) # SessPut (ToAgent out (MText ta)) # later) [] wire
      \<longrightarrow> wire = [] \<or> hd wire = MText ts) \<and>
    (\<forall>b reads others. \<exists>wire. writer_run b (before @ SessPut (ToAgent out (MText ts)) # SessPut (ToAgent out (MText ta)) #
        loop_actions J out reads @ AbortWriter # others) [] wire \<and> take 2 wire = [MText ts, MText ta]) \<and>
    wait_register_ack J (FirstRead (ReadMsg (MText ts))) = Inl ''unexpected register ack message'' \<and>
    (\<exists>info. wait_register_ack J (FirstRead (ReadMsg (MText ta))) = Inr info)"
proof -
  obtain h ta where acts: "acts = [SessDo rx (SInsertAgent tid h), SessPut (ToAgent out (MText ta))]"
    and free: "get_agent st tid = None" and out: "sender h = out"
    and ta: "from_str J ta = Inr (RegisterAck True None (Some 2) [''ws_tunnel_v1''])"
    by (rule registration_accepted [where rx = rx and out = out, OF assms(1,2,4)]) (rule that; assumption)
  define before :: "'t session_action list" where "before = [SessDo rx (SInsertAgent tid h)]"
  have run: "snd (run_session before st) = []" "get_agent (fst (run_session before st)) tid = Some h"
    using free by (simp_all add: before_def insert_agent_if_absent_def get_agent_def table_simps)
  let ?start = "HttpRequestStart (in_rid e) (pq_method r) (extract_target_path (pq_path_and_query r) tid tail)
    (flatten_headers H (pq_headers r))"
  obtain ts where ts: "from_str J ts = Inr ?start"
    "send_control J (\<lambda>_. True) out ?start = (Inr (), [ToAgent out (MText ts)])"
    using send_control_ok [OF assms(1), of ?start "\<lambda>_. True" out] by auto
  have handler: "\<exists>rest. fst (handle_ingress J H (http_request tid tail r)
      (at_state (fst (run_session before st)) tid e)) = Put (ToAgent out (MText ts)) # rest"
    by (auto simp: handle_ingress_def Let_def at_state_def http_request_def run(2) out ts(2) assms(3)
        split: sum.split prod.split option.split start_result.split)
  have puts: "messages_put (before @ SessPut (ToAgent out (MText ts)) # SessPut (ToAgent out (MText ta)) # later)
      = MText ts # MText ta # messages_put later" for later
    by (simp add: before_def)
  have first: "\<forall>b later wire. writer_run b (before @ SessPut (ToAgent out (MText ts)) #
      SessPut (ToAgent out (MText ta)) # later) [] wire \<longrightarrow> wire = [] \<or> hd wire = MText ts"
  proof (intro allI impI)
    fix b later wire
    assume "writer_run b (before @ SessPut (ToAgent out (MText ts)) # SessPut (ToAgent out (MText ta)) # later) [] wire"
    from writer_run_prefix [OF this] show "wire = [] \<or> hd wire = MText ts" unfolding puts by (cases wire) auto
  qed
  have both: "\<forall>b reads others. \<exists>wire. writer_run b (before @ SessPut (ToAgent out (MText ts)) # SessPut (ToAgent out (MText ta)) #
      loop_actions J out reads @ AbortWriter # others) [] wire \<and> take 2 wire = [MText ts, MText ta]"
  proof (intro allI)
    fix b reads others
    show "\<exists>wire. writer_run b (before @ SessPut (ToAgent out (MText ts)) # SessPut (ToAgent out (MText ta)) #
      loop_actions J out reads @ AbortWriter # others) [] wire \<and> take 2 wire = [MText ts, MText ta]"
      using writer_run_drains [of "before @ SessPut (ToAgent out (MText ts)) # SessPut (ToAgent out (MText ta)) #
        loop_actions J out reads" b others "[]"] loop_actions_own [of J out reads]
      unfolding puts by (auto simp: before_def)
  qed
  from handler obtain rest where "fst (handle_ingress J H (http_request tid tail r)
      (at_state (fst (run_session before st)) tid e)) = Put (ToAgent out (MText ts)) # rest" ..
  moreover have "acts = before @ [SessPut (ToAgent out (MText ta))]" by (simp add: acts before_def)
  moreover have "\<exists>info. wait_register_ack J (FirstRead (ReadMsg (MText ta))) = Inr info"
    by (simp add: wait_register_ack_def ta is_supported_protocol_version_def PROTOCOL_VERSION_def)
  moreover have "wait_register_ack J (FirstRead (ReadMsg (MText ts))) = Inl ''unexpected register ack message''"
    by (simp add: wait_register_ack_def ts(1))
  ultimately show ?thesis using run out first both
    by (intro exI [of _ before] exI [of _ ta] exI [of _ ts] exI [of _ rest] conjI) (assumption | simp)+
qed

theorem request_overtakes_ack_witness:
  "\<exists>before ta. fst (registration plain_json (\<lambda>_. True) 50 9
      (FirstRead (ReadMsg (MText (RegisterAgent ''demo'' ''tok'' None [])))) (new_state {''tok''} 60))
      = before @ [SessPut (ToAgent 50 (MText ta))] \<and>
    map_option sender (get_agent (fst (run_session before (new_state {''tok''} 60))) ''demo'') = Some 50"
proof -
  let ?first = "FirstRead (ReadMsg (MText (RegisterAgent ''demo'' ''tok'' None [])))"
  obtain acts where o: "registration plain_json (\<lambda>_. True) 50 9 ?first (new_state {''tok''} 60)
      = (acts, Some (''demo'', 9))"
    by (simp add: registration_def read_register_message_def plain_json_def new_state_def validate_token_def
        is_supported_protocol_version_def LEGACY_PROTOCOL_VERSION_def is_valid_tunnel_id_def
        insert_agent_if_absent_def is_ascii_alphanumeric_def)
  have "in_start_open sample_env" by (simp add: sample_env_def)
  from request_overtakes_ack [OF plain_json_ok TrueI this o, of plain_http "[]"
      "\<lparr>pq_path_and_query = None, pq_method = ''GET'', pq_headers = [], pq_upgrade_ok = False\<rparr>"]
  show ?thesis unfolding o fst_conv by blast
qed

end
