(* ===== verification/Agent_Program.thy ===== *)
theory Agent_Program
  imports Relay_Program
begin

text \<open>
  The agent as a program: \<open>crates/agent/src/config.rs\<close>, \<open>main.rs\<close> and, of \<open>relay_client.rs\<close>,
  \<open>run\<close>, \<open>run_once\<close> with the ping task, and \<open>now_ms\<close>. Connecting, the clock, the random numbers
  and the timer of the ping task are parameters. The lemmas say what goes over the socket before and
  after the relay's acknowledgement, what one connection leaves to the next, and where the printed
  public address leads.
\<close>

section \<open>Configuration\<close>

record agent_config =
  ac_relay :: string
  ac_tunnel_id :: string
  ac_token :: string
  ac_local :: string
  ac_ping_interval_secs :: u64
  ac_max_backoff_secs :: u64

text \<open>What the command line gives: the last two options have defaults.\<close>

definition parsed_config ::
    "string \<Rightarrow> string \<Rightarrow> string \<Rightarrow> string \<Rightarrow> u64 option \<Rightarrow> u64 option \<Rightarrow> agent_config" where
  "parsed_config relay tunnel_id token local_url ping backoff =
     \<lparr>ac_relay = relay, ac_tunnel_id = tunnel_id, ac_token = token, ac_local = local_url,
      ac_ping_interval_secs = override ping 20, ac_max_backoff_secs = override backoff 30\<rparr>"

section \<open>The ping task\<close>

text \<open>The clock, in milliseconds since the epoch; \<open>None\<close> if it is before the epoch.\<close>

definition now_ms :: "nat option \<Rightarrow> u64" where
  "now_ms clock = (case clock of Some ms \<Rightarrow> of_nat ms | None \<Rightarrow> 0)"

text \<open>The ticks that happen, each with the clock and whether the relay's channel is open then.\<close>

fun ping_loop :: "'t json \<Rightarrow> (nat option \<times> bool) list \<Rightarrow> 't agent_out list" where
  "ping_loop J [] = []"
| "ping_loop J ((clock, relay_open) # ticks) =
    (case agent_send_control J relay_open (ControlPing (now_ms clock)) of
       (Inl _, s) \<Rightarrow> s
     | (Inr _, s) \<Rightarrow> s @ ping_loop J ticks)"

text \<open>\<open>interval_ok\<close> says for which periods the timer library makes a timer; else it panics (\<open>None\<close>).\<close>

definition ping_task ::
    "'t json \<Rightarrow> (u64 \<Rightarrow> bool) \<Rightarrow> u64 \<Rightarrow> (nat option \<times> bool) list \<Rightarrow> 't agent_out list option" where
  "ping_task J interval_ok ping_interval ticks =
    (if interval_ok ping_interval then Some (ping_loop J ticks) else None)"

section \<open>One connection\<close>

text \<open>
  What a connection meets: the connect, the write of the registration, the first read, the rounds of
  the loop and the ticks of the ping task.
\<close>

record 't connection_env =
  cn_connect :: "string + unit"
  cn_register :: "string + unit"
  cn_first :: "'t first_read"
  cn_rounds :: "'t agent_round list"
  cn_ticks :: "(nat option \<times> bool) list"

definition send_register ::
    "'t json \<Rightarrow> agent_config \<Rightarrow> string + unit \<Rightarrow> (string + unit) \<times> 't message list" where
  "send_register J config written =
    (case to_string J (register_message (ac_tunnel_id config) (ac_token config)) of
       Inl e \<Rightarrow> (Inl e, [])
     | Inr text \<Rightarrow> (case written of Inl e \<Rightarrow> (Inl e, []) | Inr _ \<Rightarrow> (Inr (), [MText text])))"

text \<open>
  A connection's result: what \<open>run_once\<close> returns, what it wrote to the socket itself, the public
  address it logged, the loop's part, and what the ping task put on the channel (\<open>None\<close> if it
  panicked).
\<close>

record 't once =
  on_result :: "string + unit"
  on_written :: "'t message list"
  on_public_url :: "string option"
  on_loop :: "'t connection_end option"
  on_pings :: "'t agent_out list option"

definition not_registered :: "string \<Rightarrow> 't message list \<Rightarrow> 't once" where
  "not_registered e written = \<lparr>on_result = Inl e, on_written = written, on_public_url = None,
     on_loop = None, on_pings = Some []\<rparr>"

definition run_once ::
    "'t json \<Rightarrow> 'u url_lib \<Rightarrow> (u64 \<Rightarrow> bool) \<Rightarrow> agent_config \<Rightarrow> 't connection_env \<Rightarrow> 't once" where
  "run_once J U interval_ok config c =
    (case cn_connect c of
       Inl e \<Rightarrow> not_registered e []
     | Inr _ \<Rightarrow>
        (case send_register J config (cn_register c) of
           (Inl e, written) \<Rightarrow> not_registered e written
         | (Inr _, written) \<Rightarrow>
            (case wait_register_ack J (cn_first c) of
               Inl e \<Rightarrow> not_registered e written
             | Inr ack \<Rightarrow>
                (let ctx = make_ctx (ac_local config) ack;
                     ended = run_connection J ctx (cn_rounds c)
                 in \<lparr>on_result = ce_result ended, on_written = written,
                     on_public_url = derive_public_tunnel_url U (ac_relay config) (ac_tunnel_id config),
                     on_loop = Some ended,
                     on_pings = ping_task J interval_ok (ac_ping_interval_secs config) (cn_ticks c)\<rparr>))))"

text \<open>\<open>run\<close>: one connection after the other, with the delay after each; it never returns.\<close>

fun agent_run ::
    "'t json \<Rightarrow> 'u url_lib \<Rightarrow> (u64 \<Rightarrow> bool) \<Rightarrow> agent_config \<Rightarrow> u32 \<Rightarrow> ('t connection_env \<times> nat) list \<Rightarrow>
      ('t once \<times> nat) list" where
  "agent_run J U interval_ok config attempt [] = []"
| "agent_run J U interval_ok config attempt ((c, jitter) # rest) =
    (let r = run_once J U interval_ok config c;
         attempt = next_attempt attempt (on_result r)
     in (r, backoff_with_jitter attempt (ac_max_backoff_secs config) jitter)
          # agent_run J U interval_ok config attempt rest)"

section \<open>What goes over the socket\<close>

text \<open>
  A connection with its tasks. \<open>al_at\<close> is where \<open>run_once\<close> is, in the order of its statements;
  \<open>al_queue\<close> the channel of the writer task, which does not exist before it is made; \<open>al_writer\<close> and
  \<open>al_ping\<close> whether these tasks run, \<open>al_tasks\<close> whether a task for a request or a WebSocket has been
  spawned, which has a sender of the channel too; \<open>al_first\<close> what the first read was and \<open>al_wire\<close>
  what has been written to the socket.
\<close>

datatype agent_at =
    AtConnect
  | AtRegister
  | AtAwaitAck
  | AtSpawnWriter register_ack_info
  | AtSpawnPing register_ack_info
  | AtLoop runtime_ctx agent_state
  | AtReturned "string + unit"

record 't agent_link =
  al_at :: agent_at
  al_first :: "'t first_read option"
  al_queue :: "'t message list option"
  al_writer :: bool
  al_ping :: bool
  al_tasks :: bool
  al_wire :: "'t message list"

definition new_link :: "'t agent_link" where
  "new_link = \<lparr>al_at = AtConnect, al_first = None, al_queue = None, al_writer = False, al_ping = False,
     al_tasks = False, al_wire = []\<rparr>"

definition enqueue :: "'t message list \<Rightarrow> 't agent_link \<Rightarrow> 't agent_link" where
  "enqueue ms s = s\<lparr>al_queue := map_option (\<lambda>q. q @ ms) (al_queue s)\<rparr>"

definition spawns :: "'t agent_out list \<Rightarrow> bool" where
  "spawns out = list_ex (\<lambda>m. case m of SpawnProxy _ \<Rightarrow> True | SpawnWs _ \<Rightarrow> True | _ \<Rightarrow> False) out"

text \<open>
  The steps: those of \<open>run_once\<close> itself, one per statement and one per round of the loop, and, at any
  time, those of the tasks that have been spawned. What the loop puts on the channel goes through if
  the writer task, which has the receiver, runs. An error of a read leaves the function at once; the
  other ends of the loop abort both tasks.
\<close>

inductive link_step :: "'t json \<Rightarrow> (u64 \<Rightarrow> bool) \<Rightarrow> agent_config \<Rightarrow> 't agent_link \<Rightarrow> 't agent_link \<Rightarrow> bool"
  for J :: "'t json" and interval_ok config where
  connects: "al_at s = AtConnect \<Longrightarrow> link_step J interval_ok config s (s\<lparr>al_at := AtRegister\<rparr>)"
| connect_fails: "al_at s = AtConnect \<Longrightarrow> link_step J interval_ok config s (s\<lparr>al_at := AtReturned (Inl e)\<rparr>)"
| registers: "al_at s = AtRegister \<Longrightarrow> send_register J config written = (res, sent) \<Longrightarrow>
    link_step J interval_ok config s (s\<lparr>al_wire := al_wire s @ sent,
      al_at := (case res of Inl e \<Rightarrow> AtReturned (Inl e) | Inr _ \<Rightarrow> AtAwaitAck)\<rparr>)"
| reads_ack: "al_at s = AtAwaitAck \<Longrightarrow>
    link_step J interval_ok config s (s\<lparr>al_first := Some first,
      al_at := (case wait_register_ack J first of Inl e \<Rightarrow> AtReturned (Inl e) | Inr ack \<Rightarrow> AtSpawnWriter ack)\<rparr>)"
| spawns_writer: "al_at s = AtSpawnWriter ack \<Longrightarrow>
    link_step J interval_ok config s (s\<lparr>al_queue := Some [], al_writer := True, al_at := AtSpawnPing ack\<rparr>)"
| spawns_ping: "al_at s = AtSpawnPing ack \<Longrightarrow>
    link_step J interval_ok config s (s\<lparr>al_ping := interval_ok (ac_ping_interval_secs config),
      al_at := AtLoop (make_ctx (ac_local config) ack) \<lparr>ag_inflight = [], ag_ws_sessions = []\<rparr>\<rparr>)"
| loop_reads: "al_at s = AtLoop ctx st \<Longrightarrow>
    agent_read J (al_writer s) rx ctx c r (fold exec_session_op ops st) = (Inr True, st', out) \<Longrightarrow>
    link_step J interval_ok config s (enqueue (relay_msgs out) s\<lparr>al_tasks := al_tasks s \<or> spawns out, al_at := AtLoop ctx st'\<rparr>)"
| loop_fails: "al_at s = AtLoop ctx st \<Longrightarrow>
    agent_read J (al_writer s) rx ctx c r (fold exec_session_op ops st) = (Inl e, st', out) \<Longrightarrow>
    link_step J interval_ok config s (s\<lparr>al_at := AtReturned (Inl e)\<rparr>)"
| loop_leaves: "al_at s = AtLoop ctx st \<Longrightarrow>
    agent_read J (al_writer s) rx ctx c r (fold exec_session_op ops st) = (Inr False, st', out) \<Longrightarrow>
    link_step J interval_ok config s (s\<lparr>al_writer := False, al_ping := False, al_at := AtReturned (Inr ())\<rparr>)"
| loop_ends: "al_at s = AtLoop ctx st \<Longrightarrow>
    link_step J interval_ok config s (s\<lparr>al_writer := False, al_ping := False, al_at := AtReturned (Inr ())\<rparr>)"
| writer_writes: "al_writer s \<Longrightarrow> al_queue s = Some (m # q) \<Longrightarrow>
    link_step J interval_ok config s (s\<lparr>al_queue := Some q, al_wire := al_wire s @ [m]\<rparr>)"
| writer_fails: "al_writer s \<Longrightarrow> al_queue s = Some (m # q) \<Longrightarrow>
    link_step J interval_ok config s (s\<lparr>al_queue := Some q, al_writer := False\<rparr>)"
| ping_ticks: "al_ping s \<Longrightarrow> agent_send_control J (al_writer s) (ControlPing (now_ms clock)) = (res, sent) \<Longrightarrow>
    link_step J interval_ok config s (enqueue (relay_msgs sent) s\<lparr>al_ping := (case res of Inl _ \<Rightarrow> False | Inr _ \<Rightarrow> True)\<rparr>)"
| task_sends: "al_tasks s \<Longrightarrow> al_writer s \<Longrightarrow> link_step J interval_ok config s (enqueue [m] s)"

abbreviation agent_link_reachable :: "'t json \<Rightarrow> (u64 \<Rightarrow> bool) \<Rightarrow> agent_config \<Rightarrow> 't agent_link \<Rightarrow> bool" where
  "agent_link_reachable J interval_ok config s \<equiv> (link_step J interval_ok config)\<^sup>*\<^sup>* new_link s"

text \<open>The relay has accepted the registration: the first read was a positive acknowledgement.\<close>

definition accepted_by :: "'t json \<Rightarrow> 't agent_link \<Rightarrow> bool" where
  "accepted_by J s \<longleftrightarrow> (\<exists>first ack. al_first s = Some first \<and> wait_register_ack J first = Inr ack)"

definition link_ok :: "'t json \<Rightarrow> agent_config \<Rightarrow> 't agent_link \<Rightarrow> bool" where
  "link_ok J config s \<longleftrightarrow>
    (\<exists>text. to_string J (register_message (ac_tunnel_id config) (ac_token config)) = Inr text \<and>
      (case al_at s of
         AtConnect \<Rightarrow> al_wire s = [] \<and> \<not> accepted_by J s
       | AtRegister \<Rightarrow> al_wire s = [] \<and> \<not> accepted_by J s
       | AtAwaitAck \<Rightarrow> al_wire s = [MText text] \<and> \<not> accepted_by J s
       | AtReturned _ \<Rightarrow> True
       | _ \<Rightarrow> accepted_by J s) \<and>
      (if accepted_by J s then \<exists>rest. al_wire s = MText text # rest
       else al_wire s \<in> {[], [MText text]} \<and> al_queue s = None \<and> \<not> al_writer s \<and> \<not> al_ping s \<and> \<not> al_tasks s))"

lemma accepted_by_simps [simp]:
  "accepted_by J (s\<lparr>al_at := a\<rparr>) = accepted_by J s" "accepted_by J (s\<lparr>al_queue := q\<rparr>) = accepted_by J s"
  "accepted_by J (s\<lparr>al_writer := w\<rparr>) = accepted_by J s" "accepted_by J (s\<lparr>al_ping := p\<rparr>) = accepted_by J s"
  "accepted_by J (s\<lparr>al_tasks := b\<rparr>) = accepted_by J s" "accepted_by J (s\<lparr>al_wire := ms\<rparr>) = accepted_by J s"
  "accepted_by J (s\<lparr>al_first := Some first\<rparr>) = (\<exists>ack. wait_register_ack J first = Inr ack)"
  by (simp_all add: accepted_by_def)

lemma link_ok_step: "link_step J interval_ok config s s' \<Longrightarrow> link_ok J config s \<Longrightarrow> link_ok J config s'"
  by (induction rule: link_step.induct)
     (auto simp: link_ok_def enqueue_def send_register_def split: sum.splits if_splits agent_at.splits)

lemma link_ok_reachable:
  assumes "json_ok J" and "agent_link_reachable J interval_ok config s"
  shows "link_ok J config s"
  using assms(2)
proof (induction rule: rtranclp_induct)
  case base
  from assms(1) obtain t where "to_string J (register_message (ac_tunnel_id config) (ac_token config)) = Inr t"
    unfolding json_ok_def by blast
  then show ?case by (simp add: link_ok_def new_link_def accepted_by_def)
qed (rule link_ok_step)

lemma agent_run_nth:
  "i < length cs \<Longrightarrow> \<exists>a. agent_run J U ok config a0 cs ! i =
    (run_once J U ok config (fst (cs ! i)),
     backoff_with_jitter (next_attempt a (on_result (run_once J U ok config (fst (cs ! i)))))
       (ac_max_backoff_secs config) (snd (cs ! i)))"
proof (induction J U ok config a0 cs arbitrary: i rule: agent_run.induct)
  case (2 J U ok config a c j rest)
  then show ?case by (cases i) (auto simp: Let_def)
qed simp

text \<open>
  What \<open>run_once\<close> does for what a connection meets is a run of these steps: it returns its result, with
  its messages written and queued, and leaves the writer task running exactly if it did not abort it.
\<close>

lemma agent_read_last:
  "agent_read J b rx ctx c r st = (Inl e, st', out) \<Longrightarrow> out = []"
  "agent_read J b rx ctx c r st = (Inr False, st', out) \<Longrightarrow> out = []"
  by (auto simp: agent_read_def split: read.splits message.splits)

lemma loop_steps:
  assumes "al_at s = AtLoop ctx st" and "al_writer s" and "al_queue s = Some q" and "list_all ar_open rounds"
    and "agent_loop J ctx rounds st = (res, st', out)"
  shows "\<exists>s'. (link_step J ok config)\<^sup>*\<^sup>* s s' \<and> al_at s' = AtReturned res \<and> al_wire s' = al_wire s \<and>
    al_queue s' = Some (q @ relay_msgs out) \<and> al_writer s' = (\<exists>e. res = Inl e)"
  using assms
proof (induction rounds arbitrary: s st q out)
  case Nil
  have "link_step J ok config s (s\<lparr>al_writer := False, al_ping := False, al_at := AtReturned (Inr ())\<rparr>)"
    by (rule loop_ends) (rule Nil)
  then have "(link_step J ok config)\<^sup>*\<^sup>* s (s\<lparr>al_writer := False, al_ping := False, al_at := AtReturned (Inr ())\<rparr>)" by blast
  then show ?case by (intro exI [of _ "s\<lparr>al_writer := False, al_ping := False, al_at := AtReturned (Inr ())\<rparr>"]) (use Nil in \<open>auto simp: relay_msgs_def map_filter_simps\<close>)
next
  case (Cons r rs)
  let ?read = "agent_read J (al_writer s) (ar_rx r) ctx (ar_chan r) (ar_read r) (fold exec_session_op (ar_tasks r) st)"
  from Cons.prems have wr: "ar_open r = al_writer s" by simp
  obtain go st1 o1 where read: "?read = (go, st1, o1)" by (metis prod_cases3)
  consider (fails) e where "go = Inl e" | (leaves) "go = Inr False" | (goes_on) "go = Inr True"
    by (cases go) auto
  then show ?case
  proof cases
    case fails
    have ending: "res = Inl e" "out = o1" using Cons.prems(5) by (simp_all add: wr read fails)
    have "link_step J ok config s (s\<lparr>al_at := AtReturned (Inl e)\<rparr>)"
      by (rule loop_fails [OF Cons.prems(1) read [unfolded fails]])
    then have "(link_step J ok config)\<^sup>*\<^sup>* s (s\<lparr>al_at := AtReturned (Inl e)\<rparr>)" by blast
    then show ?thesis
      by (intro exI [of _ "s\<lparr>al_at := AtReturned (Inl e)\<rparr>"]) (use Cons.prems(2,3) agent_read_last(1) [OF read [unfolded fails]] ending in
        \<open>auto simp: relay_msgs_def map_filter_simps\<close>)
  next
    case leaves
    have ending: "res = Inr ()" "out = o1" using Cons.prems(5) by (simp_all add: wr read leaves)
    have "link_step J ok config s (s\<lparr>al_writer := False, al_ping := False, al_at := AtReturned (Inr ())\<rparr>)"
      by (rule loop_leaves [OF Cons.prems(1) read [unfolded leaves]])
    then have "(link_step J ok config)\<^sup>*\<^sup>* s (s\<lparr>al_writer := False, al_ping := False, al_at := AtReturned (Inr ())\<rparr>)" by blast
    then show ?thesis
      by (intro exI [of _ "s\<lparr>al_writer := False, al_ping := False, al_at := AtReturned (Inr ())\<rparr>"]) (use Cons.prems(3) agent_read_last(2) [OF read [unfolded leaves]] ending in
        \<open>auto simp: relay_msgs_def map_filter_simps\<close>)
  next
    case goes_on
    let ?s = "enqueue (relay_msgs o1) s\<lparr>al_tasks := al_tasks s \<or> spawns o1, al_at := AtLoop ctx st1\<rparr>"
    have step: "link_step J ok config s ?s" by (rule loop_reads [OF Cons.prems(1) read [unfolded goes_on]])
    obtain out2 where loop: "agent_loop J ctx rs st1 = (res, st', out2)" "out = o1 @ out2"
      using Cons.prems(5) by (auto simp: wr read goes_on split: prod.splits)
    have "\<exists>s'. (link_step J ok config)\<^sup>*\<^sup>* ?s s' \<and> al_at s' = AtReturned res \<and> al_wire s' = al_wire ?s \<and>
        al_queue s' = Some ((q @ relay_msgs o1) @ relay_msgs out2) \<and> al_writer s' = (\<exists>e. res = Inl e)"
      by (rule Cons.IH [OF _ _ _ _ loop(1)]) (use Cons.prems in \<open>simp_all add: enqueue_def\<close>)
    with step loop(2) show ?thesis by (auto simp: enqueue_def intro: converse_rtranclp_into_rtranclp)
  qed
qed

lemma run_once_reached:
  assumes "list_all ar_open (cn_rounds c)"
  shows "\<exists>s. agent_link_reachable J ok config s \<and> al_at s = AtReturned (on_result (run_once J U ok config c)) \<and>
    al_wire s = on_written (run_once J U ok config c) \<and>
    al_queue s = map_option (\<lambda>ended. relay_msgs (ce_out ended)) (on_loop (run_once J U ok config c)) \<and>
    al_writer s = (\<exists>ended. on_loop (run_once J U ok config c) = Some ended \<and> \<not> ce_aborted ended)"
proof (cases "cn_connect c")
  case (Inl e)
  have "link_step J ok config new_link (new_link\<lparr>al_at := AtReturned (Inl e)\<rparr>)"
    by (rule connect_fails) (simp add: new_link_def)
  then have "agent_link_reachable J ok config (new_link\<lparr>al_at := AtReturned (Inl e)\<rparr>)" by blast
  then show ?thesis
    by (intro exI [of _ "new_link\<lparr>al_at := AtReturned (Inl e)\<rparr>"]) (simp add: run_once_def Inl not_registered_def new_link_def)
next
  case Inr
  obtain reg sent where send: "send_register J config (cn_register c) = (reg, sent)" by fastforce
  define s1 and s2 where "s1 = new_link\<lparr>al_at := AtRegister\<rparr>" and "s2 = s1\<lparr>al_wire := al_wire s1 @ sent,
      al_at := (case reg of Inl e \<Rightarrow> AtReturned (Inl e) | Inr _ \<Rightarrow> AtAwaitAck)\<rparr>"
  have "link_step J ok config new_link s1" unfolding s1_def by (rule connects) (simp add: new_link_def)
  moreover have "link_step J ok config s1 s2" unfolding s2_def by (rule registers [OF _ send]) (simp add: s1_def)
  ultimately have reach2: "agent_link_reachable J ok config s2" by (meson rtranclp.simps)
  show ?thesis
  proof (cases reg)
    case Inl
    with reach2 Inr send show ?thesis
      by (intro exI [of _ s2]) (simp add: run_once_def not_registered_def s1_def s2_def new_link_def)
  next
    case (Inr u)
    define s3 where "s3 = s2\<lparr>al_first := Some (cn_first c), al_at :=
      (case wait_register_ack J (cn_first c) of Inl e \<Rightarrow> AtReturned (Inl e) | Inr ack \<Rightarrow> AtSpawnWriter ack)\<rparr>"
    have "link_step J ok config s2 s3" unfolding s3_def by (rule reads_ack) (simp add: s2_def Inr)
    with reach2 have reach3: "agent_link_reachable J ok config s3" by simp
    show ?thesis
    proof (cases "wait_register_ack J (cn_first c)")
      case (Inl e)
      with reach3 Inr \<open>cn_connect c = Inr _\<close> send show ?thesis
        by (intro exI [of _ s3]) (simp add: run_once_def not_registered_def s1_def s2_def s3_def new_link_def)
    next
      case ack: (Inr ack)
      define s4 where "s4 = s3\<lparr>al_queue := Some [], al_writer := True, al_at := AtSpawnPing ack\<rparr>"
      define s5 where "s5 = s4\<lparr>al_ping := ok (ac_ping_interval_secs config),
        al_at := AtLoop (make_ctx (ac_local config) ack) \<lparr>ag_inflight = [], ag_ws_sessions = []\<rparr>\<rparr>"
      have "link_step J ok config s3 s4" unfolding s4_def by (rule spawns_writer) (simp add: s3_def ack)
      moreover have "link_step J ok config s4 s5" unfolding s5_def by (rule spawns_ping) (simp add: s4_def)
      ultimately have reach5: "agent_link_reachable J ok config s5" using reach3 by (meson rtranclp.simps)
      obtain res st' out where loop: "agent_loop J (make_ctx (ac_local config) ack) (cn_rounds c)
          \<lparr>ag_inflight = [], ag_ws_sessions = []\<rparr> = (res, st', out)" by (metis prod_cases3)
      have "\<exists>s'. (link_step J ok config)\<^sup>*\<^sup>* s5 s' \<and> al_at s' = AtReturned res \<and> al_wire s' = al_wire s5 \<and>
          al_queue s' = Some ([] @ relay_msgs out) \<and> al_writer s' = (\<exists>e. res = Inl e)"
        by (rule loop_steps [OF _ _ _ assms loop]) (simp_all add: s5_def s4_def)
      then obtain s' where "(link_step J ok config)\<^sup>*\<^sup>* s5 s'" and s': "al_at s' = AtReturned res"
        "al_wire s' = al_wire s5" "al_queue s' = Some (relay_msgs out)" "al_writer s' = (\<exists>e. res = Inl e)" by auto
      with reach5 have "agent_link_reachable J ok config s'" by (meson rtranclp_trans)
      with s' Inr \<open>cn_connect c = Inr _\<close> send ack loop show ?thesis
        by (intro exI [of _ s']) (auto simp: run_once_def run_connection_def s1_def s2_def s3_def s4_def s5_def
          new_link_def split: sum.splits)
    qed
  qed
qed

text \<open>
  C13: an agent says nothing but its registration until the relay has accepted it. At every moment
  of a connection, whatever its tasks have done, the first message on the socket, if any, is the one
  the relay reads as this agent's registration; that anything follows it, or that a channel, a writer
  task, a ping task or a task for a request exists, means that the first read was a positive
  acknowledgement.
\<close>

theorem silent_before_ack:
  fixes J :: "'t json"
  assumes "json_ok J" and "agent_link_reachable J interval_ok config s"
  shows "(al_wire s = [] \<or> (\<exists>t rest. al_wire s = MText t # rest \<and>
      read_register_message J (FirstRead (ReadMsg (MText t)))
        = Some (RegisterAgent (ac_tunnel_id config) (ac_token config) (Some 2) [''ws_tunnel_v1'']))) \<and>
    (length (al_wire s) > 1 \<or> al_queue s \<noteq> None \<or> al_writer s \<or> al_ping s \<or> al_tasks s \<longrightarrow>
      (\<exists>first ack. al_first s = Some first \<and> wait_register_ack J first = Inr ack))"
proof -
  obtain t where t: "to_string J (register_message (ac_tunnel_id config) (ac_token config)) = Inr t"
    and read: "from_str J t = Inr (register_message (ac_tunnel_id config) (ac_token config))"
    using assms(1) unfolding json_ok_def by blast
  have "read_register_message J (FirstRead (ReadMsg (MText t)))
      = Some (RegisterAgent (ac_tunnel_id config) (ac_token config) (Some 2) [''ws_tunnel_v1''])"
    by (simp add: read_register_message_def read register_message_def PROTOCOL_VERSION_def CAP_WS_TUNNEL_V1_def)
  moreover from link_ok_reachable [OF assms] have "if accepted_by J s then \<exists>rest. al_wire s = MText t # rest
      else al_wire s \<in> {[], [MText t]} \<and> al_queue s = None \<and> \<not> al_writer s \<and> \<not> al_ping s \<and> \<not> al_tasks s"
    by (auto simp: link_ok_def t)
  ultimately show ?thesis by (auto simp: accepted_by_def split: if_splits)
qed

text \<open>
  C38: the agent's reconnect delays are bounded. With a jitter below 500 ms each delay of the
  reconnect loop lies between one second and the least of 64 s and the configured maximum (but at
  least one second), plus the jitter; a maximum of 0 counts as one second. The counter saturates, so
  this holds however long the relay is unreachable, and after a connection that ended in order the
  delay is below 1.5 s.
\<close>

theorem agent_delays_bounded:
  assumes "i < length cs" and "snd (cs ! i) < 500" and "agent_run J U ok config a0 cs ! i = (r, delay)"
  shows "1000 \<le> delay \<and> delay < 1000 * max 1 (min 64 (unat (ac_max_backoff_secs config))) + 500 \<and>
    (on_result r = Inr () \<longrightarrow> delay < 1500)"
proof -
  obtain a where "r = run_once J U ok config (fst (cs ! i))" "delay =
      backoff_with_jitter (next_attempt a (on_result r)) (ac_max_backoff_secs config) (snd (cs ! i))"
    using agent_run_nth [OF assms(1), of J U ok config a0] assms(3) by auto
  with reconnect_delays_bounded [OF assms(2)] show ?thesis by (auto simp: next_attempt_def)
qed

definition sample_agent_config :: agent_config where
  "sample_agent_config = parsed_config ''ws://relay/ws'' ''demo'' ''tok'' ''http://localhost:3000'' None None"

definition refused :: "control_message connection_env" where
  "refused = \<lparr>cn_connect = Inl ''refused'', cn_register = Inr (), cn_first = FirstEnd, cn_rounds = [], cn_ticks = []\<rparr>"

definition accepted :: "control_message connection_env" where
  "accepted = \<lparr>cn_connect = Inr (), cn_register = Inr (),
     cn_first = FirstRead (ReadMsg (MText (RegisterAck True None (Some 2) [''ws_tunnel_v1'']))),
     cn_rounds = [], cn_ticks = [(Some 7, True)]\<rparr>"

text \<open>A connection that is accepted and whose first ping is on the socket.\<close>

definition sample_register :: "control_message message" where
  "sample_register = MText (register_message ''demo'' ''tok'')"

definition sample_link :: "control_message agent_link" where
  "sample_link = \<lparr>al_at = AtLoop (make_ctx ''http://localhost:3000'' \<lparr>relay_protocol_version = 2, relay_caps = [''ws_tunnel_v1'']\<rparr>)
       \<lparr>ag_inflight = [], ag_ws_sessions = []\<rparr>,
     al_first = Some (cn_first accepted), al_queue = Some [], al_writer = True, al_ping = True, al_tasks = False,
     al_wire = [sample_register, MText (ControlPing 7)]\<rparr>"

lemma sample_link_reachable: "agent_link_reachable plain_json (\<lambda>_. True) sample_agent_config sample_link"
proof -
  let ?step = "link_step plain_json (\<lambda>_. True) sample_agent_config"
  let ?ack = "\<lparr>relay_protocol_version = 2, relay_caps = [''ws_tunnel_v1'']\<rparr>"
  define s1 where "s1 = (new_link :: control_message agent_link)\<lparr>al_at := AtRegister\<rparr>"
  define s2 where "s2 = s1\<lparr>al_wire := [sample_register], al_at := AtAwaitAck\<rparr>"
  define s3 where "s3 = s2\<lparr>al_first := Some (cn_first accepted), al_at := AtSpawnWriter ?ack\<rparr>"
  define s4 where "s4 = s3\<lparr>al_queue := Some [], al_writer := True, al_at := AtSpawnPing ?ack\<rparr>"
  define s5 where "s5 = s4\<lparr>al_ping := True, al_at := AtLoop (make_ctx ''http://localhost:3000'' ?ack)
    \<lparr>ag_inflight = [], ag_ws_sessions = []\<rparr>\<rparr>"
  define s6 where "s6 = s5\<lparr>al_queue := Some [MText (ControlPing 7)]\<rparr>"
  note defs = s1_def s2_def s3_def s4_def s5_def s6_def new_link_def
  have ack: "wait_register_ack plain_json (cn_first accepted) = Inr ?ack"
    by (simp add: accepted_def wait_register_ack_def plain_json_def is_supported_protocol_version_def PROTOCOL_VERSION_def)
  have reg: "send_register plain_json sample_agent_config (Inr ()) = (Inr (), [sample_register])"
    by (simp add: send_register_def plain_json_def sample_agent_config_def parsed_config_def sample_register_def)
  have ping: "agent_send_control plain_json True (ControlPing (now_ms (Some 7))) = (Inr (), [ToRelay (MText (ControlPing 7))])"
    by (simp add: agent_send_control_def plain_json_def now_ms_def)
  have "?step new_link s1" unfolding s1_def by (rule connects) (simp add: new_link_def)
  moreover have "?step s1 s2" using registers [OF _ reg, of s1 "\<lambda>_. True"] by (simp add: defs)
  moreover have "?step s2 s3" using reads_ack [of s2 plain_json "\<lambda>_. True" sample_agent_config "cn_first accepted"]
    by (simp add: defs ack)
  moreover have "?step s3 s4" unfolding s4_def by (rule spawns_writer) (simp add: s3_def)
  moreover have "?step s4 s5" using spawns_ping [of s4 ?ack plain_json "\<lambda>_. True" sample_agent_config]
    by (simp add: s5_def s4_def sample_agent_config_def parsed_config_def)
  moreover have "?step s5 s6" using ping_ticks [of s5 plain_json "Some 7" "Inr ()" _ "\<lambda>_. True" sample_agent_config] ping
    by (simp add: defs enqueue_def)
  moreover have "?step s6 sample_link"
    using writer_writes [of s6 "MText (ControlPing 7)" "[]" plain_json "\<lambda>_. True" sample_agent_config]
    by (simp add: defs sample_link_def)
  ultimately show ?thesis by (meson converse_rtranclp_into_rtranclp rtranclp.rtrancl_refl)
qed

theorem silent_before_ack_witness:
  "length (al_wire sample_link) > 1 \<and> (\<exists>ack. wait_register_ack plain_json (cn_first accepted) = Inr ack)"
proof -
  have "length (al_wire sample_link) > 1" and "al_first sample_link = Some (cn_first accepted)"
    by (simp_all add: sample_link_def)
  with silent_before_ack [OF plain_json_ok sample_link_reachable] show ?thesis by auto
qed

theorem agent_delays_bounded_witness:
  "snd (agent_run plain_json plain_url (\<lambda>_. True) sample_agent_config (- 1) [(refused, 499)] ! 0) < 30500"
proof -
  obtain r d where run: "agent_run plain_json plain_url (\<lambda>_. True) sample_agent_config (- 1) [(refused, 499)] ! 0 = (r, d)"
    by fastforce
  from agent_delays_bounded [OF _ _ run] show ?thesis
    unfolding run by (simp add: sample_agent_config_def parsed_config_def override_def)
qed

section \<open>Keep-alive\<close>

lemma ping_loop_messages:
  assumes "json_ok J" and "m \<in> set (ping_loop J ticks)"
  shows "\<exists>t clock. (clock, True) \<in> set ticks \<and> m = ToRelay (MText t) \<and> from_str J t = Inr (ControlPing (now_ms clock))"
  using assms(2)
proof (induction ticks)
  case (Cons tick ticks)
  obtain clock relay_open where tick: "tick = (clock, relay_open)" by fastforce
  obtain t where t: "to_string J (ControlPing (now_ms clock)) = Inr t" "from_str J t = Inr (ControlPing (now_ms clock))"
    using assms(1) unfolding json_ok_def by blast
  show ?case
  proof (cases "relay_open \<and> m = ToRelay (MText t)")
    case True
    with t tick show ?thesis by auto
  next
    case False
    with Cons.prems have "m \<in> set (ping_loop J ticks)"
      by (auto simp: tick agent_send_control_def t(1) split: if_splits)
    with Cons.IH show ?thesis by auto
  qed
qed simp

text \<open>
  The keep-alive is answered and changes nothing. Every message of the ping task is, at the
  relay, a ping with the time of its tick, which the session answers with one pong of the same time
  and no change of the shared state; the agent reads that pong and goes on with its tables unchanged
  and nothing sent.
\<close>

lemma keep_alive:
  fixes J :: "'t json"
  assumes "json_ok J" and "ToRelay m \<in> set (ping_loop J ticks)" and "rx out"
  shows "\<exists>clock t'. (clock, True) \<in> set ticks \<and> from_str J t' = Inr (ControlPong (now_ms clock)) \<and>
    session_read J rx out (ReadMsg m) st = (True, st, [ToAgent out (MText t')]) \<and>
    agent_read J relay_open rx' ctx c (ReadMsg (MText t')) ag = (Inr True, ag, [])"
proof -
  obtain t clock where t: "(clock, True) \<in> set ticks" "m = MText t" "from_str J t = Inr (ControlPing (now_ms clock))"
    using ping_loop_messages [OF assms(1,2)] by auto
  obtain t' where t': "from_str J t' = Inr (ControlPong (now_ms clock))"
    "send_control J rx out (ControlPong (now_ms clock)) = (Inr (), [ToAgent out (MText t')])"
    using send_control_ok [OF assms(1), of "ControlPong (now_ms clock)" rx out] assms(3) by auto
  have "session_read J rx out (ReadMsg m) st = (True, st, [ToAgent out (MText t')])"
    by (simp add: session_read_def handle_text_message_def t(2,3) t'(2))
  moreover have "agent_read J relay_open rx' ctx c (ReadMsg (MText t')) ag = (Inr True, ag, [])"
    by (simp add: agent_read_def agent_handle_text_def t'(1))
  ultimately show ?thesis using t(1) t'(1) by blast
qed

lemma keep_alive_witness:
  "\<exists>t'. session_read plain_json (\<lambda>_. True) 50 (ReadMsg (MText (ControlPing 7))) sample_state
     = (True, sample_state, [ToAgent 50 (MText t')])"
proof -
  have "ToRelay (MText (ControlPing 7)) \<in> set (ping_loop plain_json [(Some 7, True)])"
    by (simp add: agent_send_control_def plain_json_def now_ms_def)
  from keep_alive [OF plain_json_ok this TrueI] show ?thesis by blast
qed

text \<open>
  An interval of zero is accepted on the command line, but the timer library refuses it: the ping
  task panics as soon as the agent is registered.
\<close>

lemma zero_ping_interval_panics:
  assumes "\<not> interval_ok 0" and "on_loop (run_once J U interval_ok
    (parsed_config relay tunnel_id token local_url (Some 0) backoff) c) \<noteq> None"
  shows "on_pings (run_once J U interval_ok (parsed_config relay tunnel_id token local_url (Some 0) backoff) c) = None"
  using assms
  by (auto simp: run_once_def not_registered_def Let_def ping_task_def parsed_config_def override_def
      split: sum.splits prod.splits)

section \<open>The public address\<close>

text \<open>
  What is relied on of the URL library: a change of scheme keeps the path, a path of characters that
  need no escape is set as it is, and clearing query and fragment keeps the path.
\<close>

definition plain_path :: "string \<Rightarrow> bool" where
  "plain_path p \<longleftrightarrow> starts_with p ''/'' \<and>
     list_all (\<lambda>c. is_ascii_alphanumeric c \<or> c = CHR ''-'' \<or> c = CHR ''_'' \<or> c = CHR ''/'') p"

definition url_ok :: "'u url_lib \<Rightarrow> bool" where
  "url_ok U \<longleftrightarrow>
    (\<forall>sc u u'. url_set_scheme U sc u = Some u' \<longrightarrow> url_path U u' = url_path U u) \<and>
    (\<forall>p u. plain_path p \<longrightarrow> url_path U (url_set_path U p u) = p) \<and>
    (\<forall>u. url_path U (url_clear_query U u) = url_path U u) \<and>
    (\<forall>u. url_path U (url_clear_fragment U u) = url_path U u)"

text \<open>
  The address the agent prints leads to its local server's root. For a relay at
  \<open>ws://host/ws\<close> (with or without a final slash) and a tunnel id the relay accepts, the printed URL has the path
  \<open>/t/<tunnel id>/\<close>, and a request for that path is forwarded with the target \<open>/\<close>.
\<close>

lemma public_url_reaches_root:
  assumes "url_ok U" and "url_parse U relay = Inr u" and "url_path U u \<in> {''/ws'', ''/ws/''}"
    and "url_scheme U u \<in> {''ws'', ''wss'', ''http'', ''https''}"
    and "\<forall>sc\<in>{''http'', ''https''}. url_set_scheme U sc u \<noteq> None" and "is_valid_tunnel_id tid"
  shows "\<exists>public. derive_public_tunnel_url U relay tid = Some (url_to_string U public) \<and>
    url_path U public = ''/t/'' @ tid @ ''/'' \<and>
    extract_target_path (Some (url_path U public)) tid tail = ''/''"
proof -
  define sc where "sc = (if url_scheme U u \<in> {''ws'', ''http''} then ''http'' else ''https'')"
  have "sc \<in> {''http'', ''https''}" by (simp add: sc_def)
  then obtain u' where u': "url_set_scheme U sc u = Some u'" using assms(5) by blast
  let ?path = "''/t/'' @ tid @ ''/''"
  let ?public = "url_clear_fragment U (url_clear_query U (url_set_path U ?path u'))"
  have "list_all (\<lambda>c. is_ascii_alphanumeric c \<or> c = CHR ''-'' \<or> c = CHR ''_'') tid"
    using assms(6) by (simp add: is_valid_tunnel_id_def split: if_splits)
  then have "list_all (\<lambda>c. is_ascii_alphanumeric c \<or> c = CHR ''-'' \<or> c = CHR ''_'' \<or> c = CHR ''/'') tid"
    by (rule list.pred_mono_strong) auto
  then have "plain_path ?path" by (simp add: plain_path_def starts_with_def is_ascii_alphanumeric_def)
  then have path: "url_path U ?public = ?path" using assms(1) by (simp add: url_ok_def)
  have "url_path U u' = url_path U u" using assms(1) u' by (simp add: url_ok_def)
  then have "trim_end_char CHR ''/'' (url_path U u') = ''/ws''"
    using assms(3) by (auto simp: trim_end_char_def)
  then have base: "(case strip_suffix ''/ws'' (trim_end_char CHR ''/'' (url_path U u')) of Some b \<Rightarrow> b | None \<Rightarrow> []) = []"
    by (simp add: strip_suffix_def)
  have "derive_public_tunnel_url U relay tid = Some (url_to_string U ?public)"
    using assms(2,4) u' by (auto simp: derive_public_tunnel_url_def Let_def base sc_def)
  with path extract_prefixed [of tid "''/''" tail] show ?thesis by auto
qed

text \<open>An instance: a URL is its scheme and its path.\<close>

definition pair_url :: "(string \<times> string) url_lib" where
  "pair_url = \<lparr>url_parse = (\<lambda>s. Inr (takeWhile (\<lambda>c. c \<noteq> CHR '':'') s, ''/ws'')), url_join = (\<lambda>u r. Inr u),
     url_scheme = fst, url_set_scheme = (\<lambda>s u. Some (s, snd u)), url_path = snd,
     url_set_path = (\<lambda>p u. (fst u, p)), url_clear_query = (\<lambda>u. u), url_clear_fragment = (\<lambda>u. u),
     url_to_string = (\<lambda>u. fst u @ ''://relay'' @ snd u)\<rparr>"

lemma public_url_reaches_root_witness:
  "derive_public_tunnel_url pair_url ''wss://relay/ws'' ''demo'' = Some ''https://relay/t/demo/'' \<and>
   (\<exists>public. Some (url_to_string pair_url public) = Some ''https://relay/t/demo/'' \<and>
     extract_target_path (Some (url_path pair_url public)) ''demo'' [] = ''/'')"
proof -
  have "url_ok pair_url" by (auto simp: url_ok_def pair_url_def)
  moreover have "url_parse pair_url ''wss://relay/ws'' = Inr (''wss'', ''/ws'')" by (simp add: pair_url_def)
  moreover have "url_path pair_url (''wss'', ''/ws'') \<in> {''/ws'', ''/ws/''}" by (simp add: pair_url_def)
  moreover have "url_scheme pair_url (''wss'', ''/ws'') \<in> {''ws'', ''wss'', ''http'', ''https''}"
    by (simp add: pair_url_def)
  moreover have "\<forall>sc\<in>{''http'', ''https''}. url_set_scheme pair_url sc (''wss'', ''/ws'') \<noteq> None"
    by (simp add: pair_url_def)
  moreover have "is_valid_tunnel_id ''demo''" by (simp add: is_valid_tunnel_id_def is_ascii_alphanumeric_def)
  ultimately have "\<exists>public. derive_public_tunnel_url pair_url ''wss://relay/ws'' ''demo'' = Some (url_to_string pair_url public) \<and>
      url_path pair_url public = ''/t/'' @ ''demo'' @ ''/'' \<and>
      extract_target_path (Some (url_path pair_url public)) ''demo'' [] = ''/''"
    by (rule public_url_reaches_root)
  then obtain public where "derive_public_tunnel_url pair_url ''wss://relay/ws'' ''demo'' = Some (url_to_string pair_url public)"
      "extract_target_path (Some (url_path pair_url public)) ''demo'' [] = ''/''"
    by blast
  moreover have "derive_public_tunnel_url pair_url ''wss://relay/ws'' ''demo'' = Some ''https://relay/t/demo/''"
    by (simp add: derive_public_tunnel_url_def pair_url_def trim_end_char_def strip_suffix_def)
  ultimately show ?thesis by (intro conjI exI [of _ public]) simp_all
qed

end
