(* ===== verification/Tunely_Cli.thy ===== *)
theory Tunely_Cli
  imports Tunely_Prelude
begin

text \<open>
  The \<open>tunely\<close> launcher, \<open>crates/tunely/src/main.rs\<close>: the arguments it passes on, the programs it
  tries, its exit code and its help. An \<open>OsString\<close> is its bytes, \<open>to_str\<close> its UTF-8 reading. The file
  system, the environment and starting a process are parameters.
\<close>

type_synonym os_string = bytes

datatype target = Relay | Agent

definition bin_name :: "bool \<Rightarrow> target \<Rightarrow> string" where
  "bin_name windows t =
    (if windows then (case t of Relay \<Rightarrow> ''relay-server.exe'' | Agent \<Rightarrow> ''agent.exe'')
     else (case t of Relay \<Rightarrow> ''relay-server'' | Agent \<Rightarrow> ''agent''))"

section \<open>Arguments\<close>

definition DEFAULT_RELAY_CONFIG :: string where
  "DEFAULT_RELAY_CONFIG = ''/etc/tunely/relay.yaml''"

definition has_config_arg :: "os_string list \<Rightarrow> bool" where
  "has_config_arg args = list_ex (\<lambda>arg.
     case from_utf8 arg of None \<Rightarrow> False
     | Some s \<Rightarrow> s = ''--config'' \<or> starts_with s ''--config='') args"

definition ensure_default_relay_config_for_path ::
    "(os_string \<Rightarrow> bool) \<Rightarrow> os_string list \<Rightarrow> os_string \<Rightarrow> os_string list" where
  "ensure_default_relay_config_for_path exists args config_path =
    (if has_config_arg args \<or> \<not> exists config_path then args
     else as_bytes ''--config'' # config_path # args)"

definition ensure_default_relay_config :: "(os_string \<Rightarrow> bool) \<Rightarrow> os_string list \<Rightarrow> os_string list" where
  "ensure_default_relay_config exists args =
     ensure_default_relay_config_for_path exists args (as_bytes DEFAULT_RELAY_CONFIG)"

section \<open>Candidates\<close>

text \<open>\<open>Path::join\<close> with a relative name, on a system whose separator is a slash.\<close>

definition path_join :: "os_string \<Rightarrow> string \<Rightarrow> os_string" where
  "path_join dir name =
    (if dir = [] \<or> last dir = 47 then dir @ as_bytes name else dir @ [47] @ as_bytes name)"

text \<open>
  The environment: the directory of the running program (an error, no parent, or a path), the
  directories of \<open>PATH\<close> if it is set, and which paths are files.
\<close>

record cli_env =
  exe_dir :: "string + os_string option"
  path_dirs :: "os_string list option"
  is_file :: "os_string \<Rightarrow> bool"

definition candidate_commands :: "cli_env \<Rightarrow> target \<Rightarrow> string + os_string list" where
  "candidate_commands env t =
    (case exe_dir env of
       Inl e \<Rightarrow> Inl ''failed to resolve current executable path''
     | Inr dir \<Rightarrow> Inr (
        (case dir of Some d \<Rightarrow> [path_join d (bin_name False t)] | None \<Rightarrow> [])
        @ [path_join (as_bytes ''/opt/tunely'') (bin_name False t)]
        @ [as_bytes (bin_name False t)]))"

fun find_in_dirs :: "(os_string \<Rightarrow> bool) \<Rightarrow> os_string list \<Rightarrow> string \<Rightarrow> os_string option" where
  "find_in_dirs isf [] name = None"
| "find_in_dirs isf (dir # dirs) name =
    (let full = path_join dir name in if isf full then Some full else find_in_dirs isf dirs name)"

definition find_in_path :: "cli_env \<Rightarrow> string \<Rightarrow> os_string option" where
  "find_in_path env name =
    (case path_dirs env of None \<Rightarrow> None | Some dirs \<Rightarrow> find_in_dirs (is_file env) dirs name)"

definition detect_installed_path :: "cli_env \<Rightarrow> target \<Rightarrow> os_string option" where
  "detect_installed_path env t =
    (let beside = (case exe_dir env of
             Inr (Some d) \<Rightarrow> (let p = path_join d (bin_name False t) in if is_file env p then Some p else None)
           | _ \<Rightarrow> None)
     in case beside of
          Some p \<Rightarrow> Some p
        | None \<Rightarrow>
           (let opt_path = path_join (as_bytes ''/opt/tunely'') (bin_name False t)
            in if is_file env opt_path then Some opt_path else find_in_path env (bin_name False t)))"

definition install_state_label :: "cli_env \<Rightarrow> target \<Rightarrow> string" where
  "install_state_label env t = (if detect_installed_path env t \<noteq> None then ''installed'' else ''not installed'')"

section \<open>Running a program\<close>

text \<open>
  \<open>spawn_and_wait\<close>: the exit status (its code, if the process was not killed by a signal), or an
  error with whether one of its causes is \<open>NotFound\<close>.
\<close>

datatype spawn_result = Exited "int option" | SpawnErr bool string

definition status_to_code :: "int option \<Rightarrow> int" where
  "status_to_code code = (case code of Some c \<Rightarrow> c | None \<Rightarrow> 1)"

fun run_candidates ::
    "(os_string \<Rightarrow> os_string list \<Rightarrow> spawn_result) \<Rightarrow> os_string list \<Rightarrow> string option \<Rightarrow> os_string list \<Rightarrow>
      (string + int) + string option" where
  "run_candidates spawn args last_not_found [] = Inr last_not_found"
| "run_candidates spawn args last_not_found (candidate # rest) =
    (case spawn candidate args of
       Exited status \<Rightarrow> Inl (Inr (status_to_code status))
     | SpawnErr not_found err \<Rightarrow>
         if not_found then run_candidates spawn args (Some err) rest else Inl (Inl err))"

definition run_target ::
    "cli_env \<Rightarrow> (os_string \<Rightarrow> os_string list \<Rightarrow> spawn_result) \<Rightarrow> target \<Rightarrow> os_string list \<Rightarrow> string + int" where
  "run_target env spawn t args =
    (case candidate_commands env t of
       Inl e \<Rightarrow> Inl e
     | Inr cands \<Rightarrow>
        (case run_candidates spawn args None cands of
           Inl r \<Rightarrow> r
         | Inr (Some err) \<Rightarrow>
             Inl (''failed to find executable '' @ [CHR 0x27] @ bin_name False t @ [CHR 0x27] @
               '' (check installation/PATH)'')
         | Inr None \<Rightarrow> Inl (''no candidate executable for '' @ bin_name False t)))"

section \<open>The program\<close>

text \<open>
  The subcommands and \<open>main\<close>: a program that was run gives its exit code, the help is printed, and an
  error is returned from \<open>main\<close>. Parsing the command line is the library's; no subcommand is \<open>None\<close>.
\<close>

datatype command = CmdRelay "os_string list" | CmdAgent "os_string list" | CmdHelp

datatype cli_outcome = ExitCode int | Printed "string list" | CliError string

definition print_main_help :: "cli_env \<Rightarrow> string list" where
  "print_main_help env =
    [''Tunely unified CLI'', [], ''Usage: tunely [COMMAND]'', [], ''Commands:'',
     ''  relay  Run relay-server ('' @ install_state_label env Relay @ '')'',
     ''  agent  Run agent ('' @ install_state_label env Agent @ '')'',
     ''  help   Print this message or the help of the given subcommand(s)'', [],
     ''Options:'', ''  -h, --help     Print help'', ''  -V, --version  Print version'']"

definition exit_with :: "string + int \<Rightarrow> cli_outcome" where
  "exit_with r = (case r of Inr code \<Rightarrow> ExitCode code | Inl e \<Rightarrow> CliError e)"

definition cli_main ::
    "cli_env \<Rightarrow> (os_string \<Rightarrow> bool) \<Rightarrow> (os_string \<Rightarrow> os_string list \<Rightarrow> spawn_result) \<Rightarrow> command option \<Rightarrow> cli_outcome" where
  "cli_main env exists spawn command =
    (case command of
       Some (CmdRelay args) \<Rightarrow> exit_with (run_target env spawn Relay (ensure_default_relay_config exists args))
     | Some (CmdAgent args) \<Rightarrow> exit_with (run_target env spawn Agent args)
     | Some CmdHelp \<Rightarrow> Printed (print_main_help env)
     | None \<Rightarrow> Printed (print_main_help env))"

section \<open>What is run\<close>

text \<open>The relay's default configuration file is added at most once, and never beside another.\<close>

lemma has_config_arg_added: "has_config_arg (as_bytes ''--config'' # args)"
proof -
  have "from_utf8 (as_bytes ''--config'') = Some ''--config''"
    by (simp only: from_utf8_as_bytes) (simp add: as_bytes_def)
  then show ?thesis by (simp add: has_config_arg_def)
qed

lemma ensure_default_relay_config_idem:
  "ensure_default_relay_config exists (ensure_default_relay_config exists args) = ensure_default_relay_config exists args"
  by (simp add: ensure_default_relay_config_def ensure_default_relay_config_for_path_def has_config_arg_added)

definition runs :: "(os_string \<Rightarrow> os_string list \<Rightarrow> spawn_result) \<Rightarrow> os_string list \<Rightarrow> os_string \<Rightarrow> bool" where
  "runs spawn args c = (case spawn c args of Exited _ \<Rightarrow> True | SpawnErr not_found _ \<Rightarrow> \<not> not_found)"

lemma run_candidates_find:
  "run_candidates spawn args err0 cands =
    (case find (runs spawn args) cands of
       Some c \<Rightarrow> Inl (case spawn c args of Exited st \<Rightarrow> Inr (status_to_code st) | SpawnErr _ e \<Rightarrow> Inl e)
     | None \<Rightarrow> Inr (if cands = [] then err0
         else case spawn (last cands) args of SpawnErr _ e \<Rightarrow> Some e | _ \<Rightarrow> None))"
proof (induction spawn args err0 cands rule: run_candidates.induct)
  case (2 spawn args err0 c rest)
  then show ?case
    by (cases "spawn c args") (auto simp: runs_def find_None_iff split: spawn_result.split option.split)
qed simp

text \<open>
  C40: which program the launcher runs. The programs beside the launcher, in \<open>/opt/tunely\<close> and on
  the search path are tried in this order, and the first that is found decides: its exit code is the
  launcher's (1 if a signal ended it), and an error other than \<open>not found\<close> is reported at once,
  without trying the rest. Only if none is found is the launcher's answer that it is not installed.
\<close>

theorem launcher_runs_first_found:
  "run_target (env\<lparr>exe_dir := Inr (Some d)\<rparr>) spawn t args =
    (case find (runs spawn args)
        [path_join d (bin_name False t), path_join (as_bytes ''/opt/tunely'') (bin_name False t),
         as_bytes (bin_name False t)] of
       Some c \<Rightarrow> (case spawn c args of Exited st \<Rightarrow> Inr (case st of Some x \<Rightarrow> x | None \<Rightarrow> 1) | SpawnErr _ e \<Rightarrow> Inl e)
     | None \<Rightarrow> Inl (''failed to find executable '' @ [CHR 0x27] @ bin_name False t @ [CHR 0x27] @
                      '' (check installation/PATH)''))"
proof -
  let ?cs = "[path_join d (bin_name False t), path_join (as_bytes ''/opt/tunely'') (bin_name False t),
      as_bytes (bin_name False t)]"
  have cs: "candidate_commands (env\<lparr>exe_dir := Inr (Some d)\<rparr>) t = Inr ?cs"
    by (simp add: candidate_commands_def)
  show ?thesis
  proof (cases "find (runs spawn args) ?cs")
    case None
    then have "\<not> runs spawn args (last ?cs)" unfolding find_None_iff by auto
    then have "\<exists>b e. spawn (last ?cs) args = SpawnErr b e"
      by (auto simp: runs_def split: spawn_result.splits)
    then show ?thesis
      unfolding run_target_def cs sum.case run_candidates_find None by auto
  next
    case (Some c)
    show ?thesis
      unfolding run_target_def cs sum.case run_candidates_find Some
      by (simp add: status_to_code_def split: spawn_result.split)
  qed
qed

section \<open>What the help says\<close>

text \<open>
  How starting a process finds a program: a name with a slash is the file of that path, any other is
  looked for in the directories of the search path.
\<close>

definition spawns_files :: "cli_env \<Rightarrow> target \<Rightarrow> (os_string \<Rightarrow> os_string list \<Rightarrow> spawn_result) \<Rightarrow> os_string list \<Rightarrow> bool" where
  "spawns_files env t spawn args \<longleftrightarrow>
    (\<forall>p. 47 \<in> set p \<longrightarrow> runs spawn args p = is_file env p) \<and>
    runs spawn args (as_bytes (bin_name False t)) = (find_in_path env (bin_name False t) \<noteq> None)"

lemma path_join_slash: "d \<noteq> [] \<Longrightarrow> 47 \<in> set (path_join d name)"
  by (auto simp: path_join_def) (metis last_in_set)

lemma opt_join_slash: "47 \<in> set (path_join (as_bytes ''/opt/tunely'') name)"
  by (rule path_join_slash) (simp add: as_bytes_def)

text \<open>
  The help tells what running would do. If starting a process finds files the way the system does,
  the help calls a program installed if and only if one of the launcher's candidates for it can be
  started, whether it lies beside the launcher, in \<open>/opt/tunely\<close> or on the search path.
\<close>

lemma help_label_agrees:
  assumes "exe_dir env = Inr dir" and "dir \<noteq> Some []" and "spawns_files env t spawn args"
    and "candidate_commands env t = Inr cands"
  shows "install_state_label env t = (if list_ex (runs spawn args) cands then ''installed'' else ''not installed'')"
proof -
  have "list_ex (runs spawn args) cands \<longleftrightarrow> detect_installed_path env t \<noteq> None"
  proof (cases dir)
    case None
    with assms opt_join_slash [of "bin_name False t"] show ?thesis
      by (auto simp: candidate_commands_def detect_installed_path_def spawns_files_def Let_def)
  next
    case (Some d)
    with assms(2) have "47 \<in> set (path_join d (bin_name False t))" by (intro path_join_slash) simp
    with Some assms opt_join_slash [of "bin_name False t"] show ?thesis
      by (auto simp: candidate_commands_def detect_installed_path_def spawns_files_def Let_def)
  qed
  then show ?thesis by (simp add: install_state_label_def)
qed

definition sample_cli :: cli_env where
  "sample_cli = \<lparr>exe_dir = Inr (Some (as_bytes ''/usr/bin'')), path_dirs = None,
     is_file = (\<lambda>p. p = as_bytes ''/opt/tunely/agent'')\<rparr>"

lemma help_label_agrees_witness:
  "install_state_label sample_cli Agent = ''installed''"
proof -
  let ?spawn = "\<lambda>p args. if p = as_bytes ''/opt/tunely/agent'' then Exited (Some 0) else SpawnErr True ''not found''"
  have "spawns_files sample_cli Agent ?spawn []"
    by (simp add: spawns_files_def runs_def sample_cli_def find_in_path_def bin_name_def as_bytes_def)
  moreover have "exe_dir sample_cli = Inr (Some (as_bytes ''/usr/bin''))" "Some (as_bytes ''/usr/bin'') \<noteq> Some []"
    by (simp_all add: sample_cli_def as_bytes_def)
  moreover have "candidate_commands sample_cli Agent = Inr [path_join (as_bytes ''/usr/bin'') ''agent'',
      path_join (as_bytes ''/opt/tunely'') ''agent'', as_bytes ''agent'']"
    by (simp add: candidate_commands_def sample_cli_def bin_name_def)
  ultimately have "install_state_label sample_cli Agent = (if list_ex (runs ?spawn []) [path_join (as_bytes ''/usr/bin'') ''agent'',
      path_join (as_bytes ''/opt/tunely'') ''agent'', as_bytes ''agent''] then ''installed'' else ''not installed'')"
    by (intro help_label_agrees)
  then show ?thesis by (simp add: runs_def path_join_def as_bytes_def)
qed

end
