(* ===== verification/Echo_Example.thy ===== *)
theory Echo_Example
  imports Relay_Agent_Link
begin

text \<open>
  The demonstration programs: \<open>examples/echo-server/src/main.rs\<close>, a local server for an agent, and
  \<open>examples/test-client/src/main.rs\<close>, which checks a tunnel to it from outside. The JSON text of
  an answer, the HTTP client and the WebSocket client are parameters. The lemmas show what the echo
  server returns and what the client's verdict means.
\<close>

section \<open>Library functions of the programs\<close>

text \<open>
  \<open>String::from_utf8_lossy\<close>: the first character of a byte string is valid with its length, or has a
  longest invalid prefix, which becomes one replacement character. The lead byte gives the bounds of
  the second byte and the length.
\<close>

definition utf8_lead :: "u8 \<Rightarrow> (u8 \<times> u8 \<times> nat) option" where
  "utf8_lead a =
    (if 0xC2 \<le> a \<and> a \<le> 0xDF then Some (0x80, 0xBF, 2)
     else if a = 0xE0 then Some (0xA0, 0xBF, 3)
     else if a = 0xED then Some (0x80, 0x9F, 3)
     else if 0xE1 \<le> a \<and> a \<le> 0xEF then Some (0x80, 0xBF, 3)
     else if a = 0xF0 then Some (0x90, 0xBF, 4)
     else if 0xF1 \<le> a \<and> a \<le> 0xF3 then Some (0x80, 0xBF, 4)
     else if a = 0xF4 then Some (0x80, 0x8F, 4)
     else None)"

fun utf8_tails :: "nat \<Rightarrow> bytes \<Rightarrow> bool \<times> nat" where
  "utf8_tails 0 bs = (True, 0)"
| "utf8_tails (Suc n) [] = (False, 0)"
| "utf8_tails (Suc n) (b # bs) =
    (if utf8_tail b then (case utf8_tails n bs of (ok, k) \<Rightarrow> (ok, Suc k)) else (False, 0))"

definition utf8_first :: "u8 \<Rightarrow> bytes \<Rightarrow> bool \<times> nat" where
  "utf8_first a bs =
    (if a \<le> 0x7F then (True, 1)
     else case utf8_lead a of
       None \<Rightarrow> (False, 1)
     | Some (lo, hi, n) \<Rightarrow>
        (case bs of
           [] \<Rightarrow> (False, 1)
         | b # cs \<Rightarrow>
             if lo \<le> b \<and> b \<le> hi then (case utf8_tails (n - 2) cs of (ok, k) \<Rightarrow> (ok, k + 2)) else (False, 1)))"

definition REPLACEMENT :: string where
  "REPLACEMENT = map char_of [0xEF, 0xBF, 0xBD :: nat]"

function utf8_lossy :: "bytes \<Rightarrow> string" where
  "utf8_lossy [] = []"
| "utf8_lossy (a # bs) =
    (case utf8_first a bs of
       (ok, n) \<Rightarrow> (if ok then of_bytes (take n (a # bs)) else REPLACEMENT) @ utf8_lossy (drop (n - 1) bs))"
  by pat_completeness auto
termination by (relation "measure length") (auto simp: le_imp_less_Suc)

fun contains :: "string \<Rightarrow> string \<Rightarrow> bool" where
  "contains [] p \<longleftrightarrow> p = []"
| "contains (c # cs) p \<longleftrightarrow> starts_with (c # cs) p \<or> contains cs p"

lemma contains_iff: "contains s p \<longleftrightarrow> (\<exists>u v. s = u @ p @ v)"
proof (induction s p rule: contains.induct)
  case (2 c cs p)
  then show ?case
    by (auto simp: starts_with_iff Cons_eq_append_conv)
qed auto

lemma contains_trans: "contains s t \<Longrightarrow> contains t p \<Longrightarrow> contains s p"
  unfolding contains_iff by (metis append.assoc)

lemma utf8_tails_ok: "utf8_tails n bs = (True, k) \<Longrightarrow> k = n"
  by (induction n bs arbitrary: k rule: utf8_tails.induct) (auto split: if_splits prod.splits)

lemma utf8_tails_two:
  "utf8_tails 2 (c # d # es) = (if utf8_tail c then if utf8_tail d then (True, 2) else (False, 1) else (False, 0))"
  by (simp add: numeral_2_eq_2)

lemma utf8_first_valid:
  assumes "utf8_valid (a # bs)"
  shows "\<exists>n. utf8_first a bs = (True, Suc n) \<and> utf8_valid (drop n bs)"
proof (cases "a \<le> 0x7F")
  case True
  with assms show ?thesis by (intro exI [of _ 0]) (simp add: utf8_first_def)
next
  case False
  with assms obtain b cs where b: "bs = b # cs" by (cases bs) simp_all
  show ?thesis
  proof (cases "0xC2 \<le> a \<and> a \<le> 0xDF")
    case True
    with False assms b show ?thesis
      by (intro exI [of _ 1]) (simp add: utf8_first_def utf8_lead_def utf8_tail_def)
  next
    case two: False
    with False assms b obtain c ds where c: "cs = c # ds" by (cases cs) (simp_all split: if_splits)
    show ?thesis
    proof (cases "a = 0xE0 \<or> a = 0xED \<or> 0xE1 \<le> a \<and> a \<le> 0xEF")
      case True
      then consider "a = 0xE0" | "a = 0xED" | "0xE1 \<le> a \<and> a \<le> 0xEF" "a \<noteq> 0xE0" "a \<noteq> 0xED" by blast
      then show ?thesis
      proof cases
      qed (use False two assms in
          \<open>intro exI [of _ 2], simp add: b c utf8_first_def utf8_lead_def utf8_tail_def\<close>)+
    next
      case three: False
      with False two assms b c obtain d es where d: "ds = d # es" by (cases ds) (simp_all split: if_splits)
      from three have neq: "\<not> a = 0xE0" "\<not> a = 0xED" "\<not> (0xE1 \<le> a \<and> a \<le> 0xEF)" by blast+
      have lead: "utf8_lead a = (if a = 0xF0 then Some (0x90, 0xBF, 4)
          else if 0xF1 \<le> a \<and> a \<le> 0xF3 then Some (0x80, 0xBF, 4)
          else if a = 0xF4 then Some (0x80, 0x8F, 4) else None)"
        unfolding utf8_lead_def by (simp only: two neq if_False)
      have "if a = 0xF0 then 0x90 \<le> b \<and> b \<le> 0xBF \<and> utf8_tail c \<and> utf8_tail d \<and> utf8_valid es
          else if 0xF1 \<le> a \<and> a \<le> 0xF3 then utf8_tail b \<and> utf8_tail c \<and> utf8_tail d \<and> utf8_valid es
          else if a = 0xF4 then 0x80 \<le> b \<and> b \<le> 0x8F \<and> utf8_tail c \<and> utf8_tail d \<and> utf8_valid es
          else False"
        using assms unfolding b c d utf8_valid.simps(2) list.case by (simp only: False two neq if_False)
      with False show ?thesis unfolding utf8_tail_def [of b]
        by (intro exI [of _ 3])
           (simp add: b c d utf8_first_def lead utf8_tails_two split: if_splits)
    qed
  qed
qed

text \<open>A text is read back as it is.\<close>

lemma utf8_lossy_valid: "utf8_valid bs \<Longrightarrow> utf8_lossy bs = of_bytes bs"
proof (induction bs rule: utf8_lossy.induct)
  case (2 a bs)
  from utf8_first_valid [OF 2(2)] obtain n where n: "utf8_first a bs = (True, Suc n)" "utf8_valid (drop n bs)"
    by blast
  with 2(1) have "utf8_lossy (drop n bs) = of_bytes (drop n bs)" by simp
  with n show ?case by (simp add: of_bytes_def flip: map_append)
qed (simp add: of_bytes_def)

section \<open>The echo server\<close>

text \<open>The JSON values the server builds; an object keeps its distinct keys.\<close>

datatype json_value = JStr string | JNum nat | JObj "(string, json_value) table"

definition hello :: string where
  "hello = ''hello from echo-server'' @ [CHR 0x0A]"

definition echo_method :: "string \<Rightarrow> json_value" where
  "echo_method method = JObj [(''method'', JStr method)]"

definition show_headers :: "http_lib \<Rightarrow> string \<Rightarrow> header_map \<Rightarrow> json_value" where
  "show_headers H method headers =
    (let m = fold (\<lambda>(name, value) m.
       tbl_insert name (JStr (case value_to_str H value of Some v \<Rightarrow> v | None \<Rightarrow> ''?'')) m) headers []
     in JObj [(''method'', JStr method), (''headers'', JObj m)])"

definition echo_body :: "string \<Rightarrow> bytes \<Rightarrow> json_value" where
  "echo_body method body =
    (let body_str = utf8_lossy body
     in JObj [(''method'', JStr method), (''body'', JStr body_str), (''length'', JNum (length body))])"

text \<open>The route table: for \<open>get\<close> routes the server library answers other methods itself.\<close>

datatype echo_route = RHello | REcho | RHeaders | RBody | RWs
datatype route_method = GetOnly | AnyMethod

definition echo_routes :: "(string \<times> route_method \<times> echo_route) list" where
  "echo_routes =
    [(''/'', GetOnly, RHello), (''/echo'', AnyMethod, REcho), (''/headers'', AnyMethod, RHeaders),
     (''/body'', AnyMethod, RBody), (''/ws'', GetOnly, RWs)]"

text \<open>What a route's handler answers, as text; the WebSocket route is upgraded instead.\<close>

definition echo_answer ::
    "http_lib \<Rightarrow> (json_value \<Rightarrow> string) \<Rightarrow> echo_route \<Rightarrow> string \<Rightarrow> header_map \<Rightarrow> bytes \<Rightarrow> string option" where
  "echo_answer H text r method headers body =
    (case r of
       RHello \<Rightarrow> Some hello
     | REcho \<Rightarrow> Some (text (echo_method method))
     | RHeaders \<Rightarrow> Some (text (show_headers H method headers))
     | RBody \<Rightarrow> Some (text (echo_body method body))
     | RWs \<Rightarrow> None)"

text \<open>
  The WebSocket loop: each read comes with whether an answer to it can still be sent. The result is
  what is sent, and whether the loop has ended; with no reads left it is still waiting.
\<close>

definition echo_reply :: "string message \<Rightarrow> string message option" where
  "echo_reply msg =
    (case msg of
       MText text \<Rightarrow> Some (MText (''echo: '' @ text))
     | MBinary bs \<Rightarrow> Some (MBinary bs)
     | MPing bs \<Rightarrow> Some (MPong bs)
     | _ \<Rightarrow> None)"

fun handle_ws :: "(string read option \<times> bool) list \<Rightarrow> string message list \<times> bool" where
  "handle_ws [] = ([], False)"
| "handle_ws ((r, send_ok) # rest) =
    (case r of
       None \<Rightarrow> ([], True)
     | Some (ReadErr e) \<Rightarrow> ([], True)
     | Some ReadRawFrame \<Rightarrow> handle_ws rest
     | Some (ReadMsg (MClose _)) \<Rightarrow> ([], True)
     | Some (ReadMsg msg) \<Rightarrow>
         (case echo_reply msg of
            None \<Rightarrow> handle_ws rest
          | Some reply \<Rightarrow>
              if send_ok then (case handle_ws rest of (out, e) \<Rightarrow> (reply # out, e)) else ([], True)))"

definition echo_listen_addr :: "string list \<Rightarrow> string" where
  "echo_listen_addr args =
    (let port = (case args of _ # p # _ \<Rightarrow> p | _ \<Rightarrow> ''3000'') in ''0.0.0.0:'' @ port)"

lemma handle_ws_echoes:
  assumes "\<forall>m\<in>set ms. \<forall>c. m \<noteq> MClose c"
  shows "handle_ws (map (\<lambda>m. (Some (ReadMsg m), True)) ms @ rest) =
    (List.map_filter echo_reply ms @ fst (handle_ws rest), snd (handle_ws rest))"
  using assms
  by (induction ms) (auto simp: map_filter_simps echo_reply_def split: message.splits prod.splits)

lemma utf8_valid_ascii: "list_all (\<lambda>b. b \<le> 0x7F) as \<Longrightarrow> utf8_valid (as @ bs) = utf8_valid bs"
  by (induction as) auto

lemma echo_carried:
  assumes "list_all carried ms"
  shows "list_all carried (List.map_filter echo_reply ms)"
proof -
  have "carried r" if "carried m" and "echo_reply m = Some r" for m r
  proof (cases m)
    case (MText t)
    have "as_bytes (''echo: '' @ t) = as_bytes ''echo: '' @ as_bytes t" by (simp add: as_bytes_def)
    moreover have "list_all (\<lambda>b. b \<le> 0x7F) (as_bytes ''echo: '')" by (simp add: as_bytes_def)
    ultimately have "utf8_valid (as_bytes (''echo: '' @ t)) = utf8_valid (as_bytes t)"
      by (simp only: utf8_valid_ascii)
    with that MText show ?thesis by (auto simp: echo_reply_def carried_def)
  qed (use that in \<open>auto simp: echo_reply_def carried_def\<close>)
  with assms show ?thesis by (induction ms) (auto simp: map_filter_simps split: option.split)
qed

section \<open>The test client\<close>

text \<open>The counters, and the lines printed so far.\<close>

record test_result =
  passed :: u32
  total :: u32
  printed :: "string list"

definition new_result :: test_result where
  "new_result = \<lparr>passed = 0, total = 0, printed = []\<rparr>"

definition pad :: "nat \<Rightarrow> string \<Rightarrow> string" where
  "pad n s = s @ replicate (n - length s) CHR '' ''"

definition pass_test :: "string \<Rightarrow> string \<Rightarrow> test_result \<Rightarrow> test_result" where
  "pass_test label detail r = r\<lparr>total := total r + 1, passed := passed r + 1,
     printed := printed r @ [''[PASS] '' @ pad 30 label @ '' '' @ detail]\<rparr>"

definition fail_test :: "string \<Rightarrow> string \<Rightarrow> test_result \<Rightarrow> test_result" where
  "fail_test label detail r = r\<lparr>total := total r + 1,
     printed := printed r @ [''[FAIL] '' @ pad 30 label @ '' '' @ detail]\<rparr>"

text \<open>
  The HTTP client: a request, and what sending it gives, an error or a status and a text (absent if
  reading the body fails). \<open>S\<close> is the display form of a status.
\<close>

record test_request =
  tq_method :: string
  tq_url :: string
  tq_headers :: header_list
  tq_body :: "string option"

datatype http_answer = SendErr string | Answer u16 "string option"

definition is_success :: "u16 \<Rightarrow> bool" where
  "is_success status \<longleftrightarrow> 200 \<le> status \<and> status < 300"

definition default_text :: "string option \<Rightarrow> string" where
  "default_text t = (case t of Some s \<Rightarrow> s | None \<Rightarrow> [])"

definition test_method ::
    "(u16 \<Rightarrow> string) \<Rightarrow> (test_request \<Rightarrow> http_answer) \<Rightarrow> string \<Rightarrow> string \<Rightarrow> string \<Rightarrow> test_result \<Rightarrow> test_result" where
  "test_method S send base method path r =
    (let label = method @ '' '' @ path; url = base @ path
     in case send \<lparr>tq_method = method, tq_url = url, tq_headers = [], tq_body = None\<rparr> of
          SendErr e \<Rightarrow> fail_test label (''-> '' @ e) r
        | Answer status body \<Rightarrow>
            if method = ''HEAD'' then
              (if is_success status then pass_test label (''-> '' @ S status) r
               else fail_test label (''-> '' @ S status) r)
            else
              (let text = default_text body; detail = ''-> '' @ S status @ '' | '' @ trim text
               in if is_success status then pass_test label detail r else fail_test label detail r))"

definition test_payload :: string where
  "test_payload = ''hello tunely body''"

definition show_bool :: "bool \<Rightarrow> string" where
  "show_bool b = (if b then ''true'' else ''false'')"

definition test_body ::
    "(u16 \<Rightarrow> string) \<Rightarrow> (test_request \<Rightarrow> http_answer) \<Rightarrow> string \<Rightarrow> string \<Rightarrow> test_result \<Rightarrow> test_result" where
  "test_body S send base method r =
    (let label = method @ '' /body (with body)''; url = base @ ''/body''
     in case send \<lparr>tq_method = method, tq_url = url, tq_headers = [], tq_body = Some test_payload\<rparr> of
          SendErr e \<Rightarrow> fail_test label (''-> '' @ e) r
        | Answer status body \<Rightarrow>
            (let text = default_text body; body_echoed = contains text test_payload
             in if is_success status \<and> body_echoed
                then pass_test label (''-> '' @ S status @ '' | body echoed'') r
                else fail_test label (''-> '' @ S status @ '' | body_echoed='' @ show_bool body_echoed
                       @ '' | '' @ trim text) r))"

definition test_headers ::
    "(u16 \<Rightarrow> string) \<Rightarrow> (test_request \<Rightarrow> http_answer) \<Rightarrow> string \<Rightarrow> test_result \<Rightarrow> test_result" where
  "test_headers S send base r =
    (let label = ''GET /headers (x-test)''; url = base @ ''/headers''
     in case send \<lparr>tq_method = ''GET'', tq_url = url, tq_headers = [(''x-test'', ''tunely'')], tq_body = None\<rparr> of
          SendErr e \<Rightarrow> fail_test label (''-> '' @ e) r
        | Answer status body \<Rightarrow>
            (let text = default_text body; has_header = contains text ''x-test''
             in if is_success status \<and> has_header
                then pass_test label (''-> '' @ S status @ '' | x-test forwarded'') r
                else fail_test label (''-> '' @ S status @ '' | x-test forwarded: '' @ show_bool has_header) r))"

definition method_tests :: "(string \<times> string) list" where
  "method_tests =
    [(''GET'', ''/''), (''GET'', ''/echo''), (''POST'', ''/echo''), (''PUT'', ''/echo''), (''PATCH'', ''/echo''),
     (''DELETE'', ''/echo''), (''OPTIONS'', ''/echo''), (''HEAD'', ''/echo'')]"

definition test_http ::
    "(u16 \<Rightarrow> string) \<Rightarrow> (test_request \<Rightarrow> http_answer) \<Rightarrow> string \<Rightarrow> test_result \<Rightarrow> test_result" where
  "test_http S send base r =
    test_headers S send base
      (fold (test_body S send base) [''POST'', ''PUT'', ''PATCH'']
        (fold (\<lambda>(method, path). test_method S send base method path) method_tests r))"

definition http_to_ws :: "string \<Rightarrow> string" where
  "http_to_ws url =
    (case strip_prefix ''https://'' url of
       Some rest \<Rightarrow> ''wss://'' @ rest
     | None \<Rightarrow> (case strip_prefix ''http://'' url of Some rest \<Rightarrow> ''ws://'' @ rest | None \<Rightarrow> url))"

text \<open>
  The WebSocket client: the connection (from its URL), whether each send succeeds, and the reads
  after the first two. A send that fails there is a panic. \<open>into_text\<close> and \<open>debug\<close> are the client
  library's reading of a message as text and its debug form.
\<close>

record ws_probe =
  wp_connect :: "string \<Rightarrow> string + unit"
  wp_text_sent :: bool
  wp_text_reply :: "string read option"
  wp_binary_sent :: bool
  wp_binary_reply :: "string read option"
  wp_close_sent :: bool

definition test_ws_text :: "(string message \<Rightarrow> string option) \<Rightarrow> string read option \<Rightarrow> test_result \<Rightarrow> test_result" where
  "test_ws_text into_text reply r =
    (case reply of
       Some (ReadMsg msg) \<Rightarrow>
         (let text = default_text (into_text msg)
          in if contains text ''hello tunely'' then pass_test ''WS text echo'' (''-> '' @ text) r
             else fail_test ''WS text echo'' (''-> unexpected: '' @ text) r)
     | _ \<Rightarrow> fail_test ''WS text echo'' ''-> no response'' r)"

definition test_data :: bytes where
  "test_data = [0xDE, 0xAD, 0xBE, 0xEF]"

definition test_ws_binary :: "(string message \<Rightarrow> string) \<Rightarrow> string read option \<Rightarrow> test_result \<Rightarrow> test_result" where
  "test_ws_binary debug reply r =
    (case reply of
       Some (ReadMsg msg) \<Rightarrow>
         (case msg of
            MBinary bs \<Rightarrow>
              if bs = test_data
              then pass_test ''WS binary echo'' (''-> '' @ show_nat (length bs) @ '' bytes'') r
              else fail_test ''WS binary echo'' ''-> data mismatch'' r
          | other \<Rightarrow> fail_test ''WS binary echo'' (''-> unexpected: '' @ debug other) r)
     | _ \<Rightarrow> fail_test ''WS binary echo'' ''-> no response'' r)"

definition test_ws ::
    "(string message \<Rightarrow> string option) \<Rightarrow> (string message \<Rightarrow> string) \<Rightarrow> ws_probe \<Rightarrow> string \<Rightarrow> test_result \<Rightarrow>
      test_result option" where
  "test_ws into_text debug w base r =
    (let ws_url = http_to_ws base @ ''/ws''
     in case wp_connect w ws_url of
          Inl e \<Rightarrow> Some (fail_test ''WS connect'' (''-> '' @ e) r)
        | Inr _ \<Rightarrow>
            (let r1 = pass_test ''WS connect'' (''-> '' @ ws_url) r
             in if \<not> wp_text_sent w then None
                else let r2 = test_ws_text into_text (wp_text_reply w) r1
                     in if \<not> wp_binary_sent w then None
                        else let r3 = test_ws_binary debug (wp_binary_reply w) r2
                             in Some (if wp_close_sent w then pass_test ''WS close'' ''-> sent'' r3
                                      else fail_test ''WS close'' ''-> send failed'' r3)))"

text \<open>\<open>main\<close>: the exit code, \<open>None\<close> for a panic.\<close>

definition test_target :: "string list \<Rightarrow> string" where
  "test_target args = (case args of _ # b # _ \<Rightarrow> b | _ \<Rightarrow> ''http://127.0.0.1:8080/t/demo'')"

definition test_main ::
    "(u16 \<Rightarrow> string) \<Rightarrow> (test_request \<Rightarrow> http_answer) \<Rightarrow> (string message \<Rightarrow> string option) \<Rightarrow>
      (string message \<Rightarrow> string) \<Rightarrow> ws_probe \<Rightarrow> string list \<Rightarrow> (int \<times> test_result) option" where
  "test_main S send into_text debug w args =
    (let base = test_target args
     in case test_ws into_text debug w base (test_http S send base new_result) of
          None \<Rightarrow> None
        | Some r \<Rightarrow> Some (if passed r = total r then 0 else 1, r))"

section \<open>The client's verdict\<close>

definition passing :: "string \<Rightarrow> bool" where
  "passing line \<longleftrightarrow> starts_with line ''[PASS]''"

definition counted :: "nat \<Rightarrow> test_result \<Rightarrow> bool" where
  "counted n r \<longleftrightarrow> total r = word_of_nat (length (printed r)) \<and>
     passed r = word_of_nat (length (filter passing (printed r))) \<and> length (printed r) \<le> n"

lemma passing_simps [simp]:
  "passing (''[PASS] '' @ s)" "\<not> passing (''[FAIL] '' @ s)"
  by (simp_all add: passing_def starts_with_def)

lemma counted_pass: "counted n r \<Longrightarrow> counted (Suc n) (pass_test l d r)"
  using passing_simps(1) [of "pad 30 l @ '' '' @ d"] by (simp add: counted_def pass_test_def)

lemma counted_fail: "counted n r \<Longrightarrow> counted (Suc n) (fail_test l d r)"
  using passing_simps(2) [of "pad 30 l @ '' '' @ d"] by (simp add: counted_def fail_test_def)

lemma counted_tests:
  assumes "counted n r"
  shows "counted (Suc n) (test_method S send base m p r)" and "counted (Suc n) (test_body S send base m r)"
    and "counted (Suc n) (test_headers S send base r)" and "counted (Suc n) (test_ws_text T reply r)"
    and "counted (Suc n) (test_ws_binary D reply r)"
  using assms
  by (auto simp: test_method_def test_body_def test_headers_def test_ws_text_def test_ws_binary_def Let_def
      intro!: counted_pass counted_fail split: http_answer.split option.split read.split message.split)

lemma counted_fold:
  assumes "\<And>n x r. counted n r \<Longrightarrow> counted (Suc n) (f x r)" and "counted n r"
  shows "counted (n + length xs) (fold f xs r)"
  using assms(2)
proof (induction xs arbitrary: n r)
  case (Cons x xs)
  from Cons.IH [OF assms(1) [OF Cons.prems]] show ?case by simp
qed simp

lemma counted_http:
  assumes "counted n r"
  shows "counted (n + 12) (test_http S send base r)"
proof -
  have "counted (n + length method_tests) (fold (\<lambda>(method, path). test_method S send base method path) method_tests r)"
    by (rule counted_fold [OF _ assms]) (auto intro: counted_tests(1))
  then have "counted (n + length method_tests + length [''POST'', ''PUT'', ''PATCH''])
      (fold (test_body S send base) [''POST'', ''PUT'', ''PATCH'']
        (fold (\<lambda>(method, path). test_method S send base method path) method_tests r))"
    by (rule counted_fold [rotated]) (rule counted_tests(2))
  then have "counted (Suc (n + length method_tests + length [''POST'', ''PUT'', ''PATCH''])) (test_http S send base r)"
    unfolding test_http_def by (rule counted_tests(3))
  then show ?thesis by (simp add: method_tests_def eval_nat_numeral)
qed

lemma counted_ws:
  assumes "counted n r" and "test_ws T D w base r = Some r'"
  shows "counted (n + 4) r'"
proof (cases "wp_connect w (http_to_ws base @ ''/ws'')")
  case (Inl e)
  with assms have "counted (Suc n) r'" by (auto simp: test_ws_def Let_def intro!: counted_fail)
  then show ?thesis by (simp add: counted_def)
next
  case (Inr u)
  let ?r3 = "test_ws_binary D (wp_binary_reply w) (test_ws_text T (wp_text_reply w)
      (pass_test ''WS connect'' (''-> '' @ http_to_ws base @ ''/ws'') r))"
  have "counted (Suc (Suc (Suc n))) ?r3" by (intro counted_tests counted_pass assms(1))
  then have "counted (Suc (Suc (Suc (Suc n)))) r'"
    using assms(2) Inr by (auto simp: test_ws_def Let_def intro!: counted_fail counted_pass split: if_splits)
  then show ?thesis by (simp add: eval_nat_numeral)
qed

text \<open>
  The test client's exit code is its verdict. A run that does not panic prints one line per test,
  at most sixteen, counts exactly these, and exits with 0 if and only if every line is a pass.
\<close>

lemma test_client_verdict:
  assumes "test_main S send into_text debug w args = Some (code, r)"
  shows "(code = 0 \<longleftrightarrow> list_all passing (printed r)) \<and> code \<in> {0, 1} \<and>
    unat (total r) = length (printed r) \<and> length (printed r) \<le> 16"
proof -
  let ?base = "test_target args"
  from assms have ws: "test_ws into_text debug w ?base (test_http S send ?base new_result) = Some r"
    and code: "code = (if passed r = total r then 0 else 1)"
    by (auto simp: test_main_def Let_def split: option.splits)
  have "counted 0 new_result" by (simp add: counted_def new_result_def)
  from counted_ws [OF counted_http [OF this] ws] have c: "counted 16 r" by simp
  let ?p = "length (filter passing (printed r))" and ?n = "length (printed r)"
  have le: "?p \<le> ?n" and n: "?n \<le> 16" using c by (simp_all add: counted_def)
  then have "?p < 2 ^ 32" and "?n < 2 ^ 32" by (simp_all add: order_le_less_trans [OF le])
  then have small: "unat (word_of_nat ?n :: u32) = ?n" "unat (word_of_nat ?p :: u32) = ?p"
    by (simp_all add: unat_of_nat)
  have "passed r = total r \<longleftrightarrow> ?p = ?n"
    using c small unfolding counted_def by (metis)
  also have "\<dots> \<longleftrightarrow> list_all passing (printed r)"
    by (metis Ball_set filter_True length_filter_less order_less_irrefl)
  finally show ?thesis using code c n small by (auto simp: counted_def)
qed

lemma test_client_verdict_witness:
  "\<exists>code r. test_main (\<lambda>_. []) (\<lambda>_. SendErr ''refused'') (\<lambda>_. None) (\<lambda>_. []) \<lparr>wp_connect = \<lambda>_. Inl ''refused'',
     wp_text_sent = True, wp_text_reply = None, wp_binary_sent = True, wp_binary_reply = None, wp_close_sent = True\<rparr> [] =
     Some (code, r) \<and> (code = 0 \<longleftrightarrow> list_all passing (printed r)) \<and> length (printed r) \<le> 16"
proof -
  let ?w = "\<lparr>wp_connect = \<lambda>_. Inl ''refused'', wp_text_sent = True, wp_text_reply = None,
    wp_binary_sent = True, wp_binary_reply = None, wp_close_sent = True\<rparr>"
  obtain code r where "test_main (\<lambda>_. []) (\<lambda>_. SendErr ''refused'') (\<lambda>_. None) (\<lambda>_. []) ?w [] = Some (code, r)"
    by (simp add: test_main_def test_ws_def Let_def)
  from this test_client_verdict [OF this] show ?thesis by blast
qed

section \<open>The test client, the tunnel and the echo server\<close>

lemma ws_echo:
  fixes rx :: "chan \<Rightarrow> bool"
  assumes "is_supported_protocol_version v" and "is_supported_protocol_version w" and "list_all carried ms"
    and "tbl_get (ag_ws_sessions ast) sid = Some tx"
    and "tbl_get (ws_streams st) sid = Some h" and "rx (ws_sender h)"
  shows "\<exists>evs replies revs.
    agent_loop J ctx (agent_rounds bc (agent_msgs c (to_agent (fst
        (tunnel_loop J c sid v (map (\<lambda>m. ClientRead (\<lambda>_. True) (Some (ReadMsg m))) ms)))))) ast =
      (Inr (), ast, map (ToSession tx) evs) \<and>
    handle_ws (map (\<lambda>m. (Some (ReadMsg m), True))
        (stream_to_local (fst (stream_loop J sid w (map (\<lambda>ev. Inbound True (Some ev)) evs))))) = (replies, False) \<and>
    session_loop J out (map (\<lambda>m. (rx, ReadMsg m)) (relay_msgs (stream_to_relay (fst
        (stream_loop J sid w (map (\<lambda>m. LocalRead True (Some (ReadMsg m))) replies)))))) st =
      (st, map (ToStream (ws_sender h)) revs) \<and>
    to_client (fst (tunnel_loop J c sid v (map (\<lambda>ev. RelayRead True (Some ev)) revs))) =
      List.map_filter echo_reply ms"
proof -
  obtain evs where up: "agent_loop J ctx (agent_rounds bc (agent_msgs c (to_agent (fst
        (tunnel_loop J c sid v (map (\<lambda>m. ClientRead (\<lambda>_. True) (Some (ReadMsg m))) ms)))))) ast =
      (Inr (), ast, map (ToSession tx) evs)"
    and local: "stream_to_local (fst (stream_loop J sid w (map (\<lambda>ev. Inbound True (Some ev)) evs))) = ms"
    using client_messages_carried [OF assms(1,3,4)] by blast
  have "\<forall>m\<in>set ms. \<forall>cl. m \<noteq> MClose cl"
    using assms(3) by (auto simp: list_all_iff carried_def split: message.splits)
  from handle_ws_echoes [OF this, of "[]"]
  have echo: "handle_ws (map (\<lambda>m. (Some (ReadMsg m), True)) ms) = (List.map_filter echo_reply ms, False)" by simp
  from local_messages_carried [where rx = rx, OF assms(2) echo_carried [OF assms(3)] assms(5,6)]
  show ?thesis using up echo unfolding local [symmetric] by blast
qed

text \<open>
  C15: an echo comes back through the whole tunnel. Any messages the public client sends (no close),
  copied by the relay, read by the agent, copied to the echo server, answered by its loop, and copied
  back the same way, give the client exactly the echo server's replies, in order: each text with its
  prefix, each binary as it was, each ping as a pong.
\<close>

theorem echo_through_tunnel:
  fixes rx :: "chan \<Rightarrow> bool"
  assumes "is_supported_protocol_version v" and "is_supported_protocol_version w" and "list_all carried ms"
    and "tbl_get (ag_ws_sessions ast) sid = Some tx"
    and "tbl_get (ws_streams st) sid = Some h" and "rx (ws_sender h)"
  shows "\<exists>evs replies revs.
    agent_loop J ctx (agent_rounds bc (agent_msgs c (to_agent (fst
        (tunnel_loop J c sid v (map (\<lambda>m. ClientRead (\<lambda>_. True) (Some (ReadMsg m))) ms)))))) ast =
      (Inr (), ast, map (ToSession tx) evs) \<and>
    handle_ws (map (\<lambda>m. (Some (ReadMsg m), True))
        (stream_to_local (fst (stream_loop J sid w (map (\<lambda>ev. Inbound True (Some ev)) evs))))) = (replies, False) \<and>
    session_loop J out (map (\<lambda>m. (rx, ReadMsg m)) (relay_msgs (stream_to_relay (fst
        (stream_loop J sid w (map (\<lambda>m. LocalRead True (Some (ReadMsg m))) replies)))))) st =
      (st, map (ToStream (ws_sender h)) revs) \<and>
    to_client (fst (tunnel_loop J c sid v (map (\<lambda>ev. RelayRead True (Some ev)) revs))) =
      List.map_filter echo_reply ms"
  by (rule ws_echo [where rx = rx, OF assms])

definition test_messages :: "string message list" where
  "test_messages = [MText ''hello tunely'', MBinary test_data]"

lemma test_messages_carried: "list_all carried test_messages"
  by (simp add: test_messages_def carried_def as_bytes_def)

lemma test_messages_echo:
  "List.map_filter echo_reply test_messages = [MText ''echo: hello tunely'', MBinary test_data]"
  by (simp add: test_messages_def echo_reply_def map_filter_simps)

theorem echo_through_tunnel_witness:
  "\<exists>revs. to_client (fst (tunnel_loop plain_json 10 300 1 (map (\<lambda>ev. RelayRead True (Some ev)) revs))) =
      [MText ''echo: hello tunely'', MBinary test_data]"
proof -
  have a: "tbl_get (ag_ws_sessions \<lparr>ag_inflight = [], ag_ws_sessions = [(300, 70)]\<rparr>) 300 = Some 70"
    and h: "tbl_get (ws_streams sample_state) 300 = Some \<lparr>ws_tunnel_id = ''demo'', ws_sender = 40\<rparr>"
    by (simp_all add: sample_state_def tbl_get_def)
  show ?thesis
    using echo_through_tunnel [where rx = "\<lambda>_. True", OF sample_supported sample_supported test_messages_carried a h TrueI,
        of plain_json sample_ctx 5 10] unfolding test_messages_echo by blast
qed

lemma pass_test_counts [simp]:
  "passed (pass_test l d r) = passed r + 1" "total (pass_test l d r) = total r + 1"
  by (simp_all add: pass_test_def)

lemma echo_text_contains: "contains (''echo: '' @ t) t"
  unfolding contains_iff by (intro exI [of _ "''echo: ''"] exI [of _ "[]"]) simp

text \<open>
  The WebSocket tests pass through the tunnel. When the test client's text and binary message go
  through an open stream to the echo server, and it reads as its replies what comes back, all four
  of its WebSocket tests pass.
\<close>

lemma ws_tests_pass:
  fixes rx :: "chan \<Rightarrow> bool"
  assumes "is_supported_protocol_version v" and "is_supported_protocol_version w"
    and "tbl_get (ag_ws_sessions ast) sid = Some tx"
    and "tbl_get (ws_streams st) sid = Some h" and "rx (ws_sender h)"
    and "\<And>t. into_text (MText t) = Some t"
  shows "\<exists>evs replies revs echoed r'.
    agent_loop J ctx (agent_rounds bc (agent_msgs c (to_agent (fst
        (tunnel_loop J c sid v (map (\<lambda>m. ClientRead (\<lambda>_. True) (Some (ReadMsg m))) test_messages)))))) ast =
      (Inr (), ast, map (ToSession tx) evs) \<and>
    handle_ws (map (\<lambda>m. (Some (ReadMsg m), True))
        (stream_to_local (fst (stream_loop J sid w (map (\<lambda>ev. Inbound True (Some ev)) evs))))) = (replies, False) \<and>
    session_loop J out (map (\<lambda>m. (rx, ReadMsg m)) (relay_msgs (stream_to_relay (fst
        (stream_loop J sid w (map (\<lambda>m. LocalRead True (Some (ReadMsg m))) replies)))))) st =
      (st, map (ToStream (ws_sender h)) revs) \<and>
    to_client (fst (tunnel_loop J c sid v (map (\<lambda>ev. RelayRead True (Some ev)) revs))) = echoed \<and>
    test_ws into_text debug \<lparr>wp_connect = \<lambda>_. Inr (), wp_text_sent = True, wp_text_reply = Some (ReadMsg (echoed ! 0)),
      wp_binary_sent = True, wp_binary_reply = Some (ReadMsg (echoed ! 1)), wp_close_sent = True\<rparr> base r = Some r' \<and>
    passed r' = passed r + 4 \<and> total r' = total r + 4"
proof -
  let ?replies = "[MText ''echo: hello tunely'', MBinary test_data]"
  have "contains ''echo: hello tunely'' ''hello tunely''"
    using echo_text_contains [of "''hello tunely''"] by simp
  then have "\<exists>r'. test_ws into_text debug \<lparr>wp_connect = \<lambda>_. Inr (), wp_text_sent = True,
      wp_text_reply = Some (ReadMsg (?replies ! 0)), wp_binary_sent = True,
      wp_binary_reply = Some (ReadMsg (?replies ! 1)), wp_close_sent = True\<rparr> base r = Some r' \<and>
    passed r' = passed r + 4 \<and> total r' = total r + 4"
    by (simp add: test_ws_def test_ws_text_def test_ws_binary_def default_text_def assms(6) Let_def)
  with ws_echo [where rx = rx, OF assms(1,2) test_messages_carried assms(3-5), of J ctx bc c out]
  show ?thesis unfolding test_messages_echo by (elim exE conjE) (intro exI conjI, assumption+)
qed

lemma ws_tests_pass_witness:
  "\<exists>echoed r'. test_ws (\<lambda>m. case m of MText t \<Rightarrow> Some t | _ \<Rightarrow> None) (\<lambda>_. [])
     \<lparr>wp_connect = \<lambda>_. Inr (), wp_text_sent = True, wp_text_reply = Some (ReadMsg (echoed ! 0)),
      wp_binary_sent = True, wp_binary_reply = Some (ReadMsg (echoed ! 1)), wp_close_sent = True\<rparr>
     ''http://127.0.0.1:8080/t/demo'' new_result = Some r' \<and> passed r' = 4 \<and> total r' = 4"
proof -
  have a: "tbl_get (ag_ws_sessions \<lparr>ag_inflight = [], ag_ws_sessions = [(300, 70)]\<rparr>) 300 = Some 70"
    and h: "tbl_get (ws_streams sample_state) 300 = Some \<lparr>ws_tunnel_id = ''demo'', ws_sender = 40\<rparr>"
    by (simp_all add: sample_state_def tbl_get_def)
  have t: "(case MText t of MText t \<Rightarrow> Some t | _ \<Rightarrow> None) = Some t" for t :: string by simp
  have "passed new_result = 0" "total new_result = 0" by (simp_all add: new_result_def)
  with ws_tests_pass [where rx = "\<lambda>_. True", OF sample_supported sample_supported a h TrueI t,
        of plain_json sample_ctx 5 10 10 "\<lambda>_. []" "''http://127.0.0.1:8080/t/demo''" new_result]
  show ?thesis by (elim exE conjE) (intro exI conjI, assumption, simp_all)
qed

text \<open>
  The law of JSON texts the client's checks rely on: the text of a string of plain characters (no
  quote, backslash, control or non-ASCII character, which a text may escape) contains it, and the
  text of an object contains those of its members and its plain keys.
\<close>

definition plain_text :: "string \<Rightarrow> bool" where
  "plain_text s \<longleftrightarrow> list_all (\<lambda>c. (graphic c \<or> c = CHR '' '') \<and> c \<noteq> CHR 0x22 \<and> c \<noteq> CHR 0x5C) s"

definition json_text_ok :: "(json_value \<Rightarrow> string) \<Rightarrow> bool" where
  "json_text_ok text \<longleftrightarrow> (\<forall>s. plain_text s \<longrightarrow> contains (text (JStr s)) s) \<and>
    (\<forall>kvs k v. (k, v) \<in> set kvs \<longrightarrow> contains (text (JObj kvs)) (text v) \<and>
       (plain_text k \<longrightarrow> contains (text (JObj kvs)) k))"

text \<open>An instance: the JSON text without escapes.\<close>

fun plain_print :: "json_value \<Rightarrow> string" where
  "plain_print (JStr s) = [CHR 0x22] @ s @ [CHR 0x22]"
| "plain_print (JNum n) = show_nat n"
| "plain_print (JObj kvs) =
     ''{'' @ concat (map (\<lambda>(k, v). [CHR 0x22] @ k @ [CHR 0x22] @ '':'' @ plain_print v @ '','') kvs) @ ''}''"

lemma contains_mid: "contains (u @ p @ v) p"
  by (auto simp: contains_iff)

lemma contains_concat: "x \<in> set xs \<Longrightarrow> contains (concat (map f xs)) (f x)"
  by (auto simp: contains_iff in_set_conv_decomp) blast

lemma plain_print_ok: "json_text_ok plain_print"
proof -
  have member: "contains ([CHR 0x22] @ k @ [CHR 0x22] @ '':'' @ plain_print v @ '','') (plain_print v)" for k v
    using contains_mid [of "[CHR 0x22] @ k @ [CHR 0x22] @ '':''" "plain_print v" "'',''"]
    by (simp only: append_assoc)
  have obj: "contains (plain_print (JObj kvs)) ([CHR 0x22] @ k @ [CHR 0x22] @ '':'' @ plain_print v @ '','')"
    if "(k, v) \<in> set kvs" for k v kvs
    using contains_concat [OF that, of "\<lambda>(k, v). [CHR 0x22] @ k @ [CHR 0x22] @ '':'' @ plain_print v @ '',''"]
    by (simp only: plain_print.simps split) (rule contains_trans [OF contains_mid])
  show ?thesis unfolding json_text_ok_def
  proof (intro conjI allI impI)
    show "contains (plain_print (JStr s)) s" for s
      unfolding plain_print.simps(1) by (rule contains_mid)
  next
    fix kvs k v assume kv: "(k :: string, v :: json_value) \<in> set kvs"
    show "contains (plain_print (JObj kvs)) (plain_print v)"
      by (rule contains_trans [OF obj [OF kv] member])
    show "contains (plain_print (JObj kvs)) k"
      by (rule contains_trans [OF obj [OF kv] contains_mid])
  qed
qed

lemma fold_headers_get:
  "tbl_get (fold (\<lambda>(name, value) m. tbl_insert name (f value) m) hs m) n =
    (case map_of (rev hs) n of Some v \<Rightarrow> Some (f v) | None \<Rightarrow> tbl_get m n)"
proof (induction hs arbitrary: m)
  case (Cons x hs)
  obtain a b where "x = (a, b)" by fastforce
  with Cons show ?case by (simp add: table_simps map_add_def split: option.split)
qed simp

lemma show_headers_name:
  assumes "(n, b) \<in> set hs" and "plain_text n" and "json_text_ok text"
  shows "contains (text (show_headers H m hs)) n"
proof -
  let ?m = "fold (\<lambda>(name, value) m. tbl_insert name (JStr (case value_to_str H value of Some v \<Rightarrow> v | None \<Rightarrow> ''?'')) m) hs []"
  have "map_of (rev hs) n \<noteq> None" using assms(1) by (auto simp: map_of_eq_None_iff intro: rev_image_eqI)
  then obtain v where "tbl_get ?m n = Some v"
    using fold_headers_get [of "\<lambda>v. JStr (case value_to_str H v of Some v \<Rightarrow> v | None \<Rightarrow> ''?'')" hs "[]" n] by fastforce
  then have "(n, v) \<in> set ?m" by (simp add: tbl_get_def map_of_SomeD)
  with assms(2,3) have "contains (text (JObj ?m)) n" unfolding json_text_ok_def by blast
  moreover have "(''headers'', JObj ?m) \<in> set [(''method'', JStr m), (''headers'', JObj ?m)]" by simp
  then have "contains (text (show_headers H m hs)) (text (JObj ?m))"
    using assms(3) unfolding json_text_ok_def show_headers_def Let_def by blast
  ultimately show ?thesis by (rule_tac contains_trans)
qed

text \<open>
  The HTTP tests with content pass. A request header \<open>x-test\<close> of the public client, through the
  relay's and the agent's filters, is in the text of \<open>/headers\<close>, so the client's header test passes
  on a success; and a body equal to the payload is in the text of \<open>/body\<close>, so its body test does.
\<close>

lemma content_tests_pass:
  assumes "headers_ok H hs" and "(''x-test'', b) \<in> set hs" and "value_to_str H b \<noteq> None"
    and "json_text_ok text" and "is_success status"
    and "\<And>q. send q = Answer status (if tq_url q = base @ ''/headers''
           then echo_answer H text RHeaders ''GET'' (apply_forward_headers H [] (flatten_headers H hs)) []
           else echo_answer H text RBody verb [] (as_bytes test_payload))"
  shows "test_headers S send base r =
      pass_test ''GET /headers (x-test)'' (''-> '' @ S status @ '' | x-test forwarded'') r \<and>
    test_body S send base verb r =
      pass_test (verb @ '' /body (with body)'') (''-> '' @ S status @ '' | body echoed'') r"
proof -
  have "(''x-test'', b) \<in> set (apply_forward_headers H [] (flatten_headers H hs))"
    unfolding relay_agent_headers [OF assms(1)] using assms(2,3)
    by (simp add: is_hop_header_def hop_headers_def to_ascii_lowercase_def ascii_lower_def eq_ignore_ascii_case_def)
  from show_headers_name [OF this _ assms(4)]
  have hdr: "contains (text (show_headers H ''GET'' (apply_forward_headers H [] (flatten_headers H hs)))) ''x-test''"
    by (simp add: plain_text_def graphic_def)
  have plain: "plain_text test_payload" by (simp add: plain_text_def test_payload_def graphic_def)
  have "utf8_lossy (as_bytes test_payload) = test_payload"
    by (subst utf8_lossy_valid) (simp_all add: test_payload_def, simp_all add: as_bytes_def)
  then have "(''body'', JStr test_payload) \<in> set [(''method'', JStr verb), (''body'', JStr (utf8_lossy (as_bytes test_payload))),
      (''length'', JNum (length (as_bytes test_payload)))]" by simp
  then have "contains (text (echo_body verb (as_bytes test_payload))) (text (JStr test_payload))"
    using assms(4) unfolding json_text_ok_def echo_body_def Let_def by blast
  moreover have "contains (text (JStr test_payload)) test_payload"
    using assms(4) plain unfolding json_text_ok_def by blast
  ultimately have body: "contains (text (echo_body verb (as_bytes test_payload))) test_payload"
    by (rule contains_trans)
  show ?thesis
    using hdr body assms(5)
    by (simp add: test_headers_def test_body_def assms(6) echo_answer_def default_text_def Let_def)
qed

lemma content_tests_pass_witness:
  "\<exists>send d. test_body (\<lambda>_. []) send ''http://h/t/demo'' ''POST'' new_result =
     pass_test ''POST /body (with body)'' d new_result"
proof -
  let ?hs = "[(''x-test'', as_bytes ''tunely'')]"
  have h: "headers_ok plain_http ?hs" "(''x-test'', as_bytes ''tunely'') \<in> set ?hs"
    "value_to_str plain_http (as_bytes ''tunely'') \<noteq> None"
    by (simp_all add: headers_ok_def plain_http_def)
  have s: "is_success 200" by (simp add: is_success_def)
  from content_tests_pass [where base = "''http://h/t/demo''" and verb = "''POST''", OF h plain_print_ok s refl]
  show ?thesis by fastforce
qed

text \<open>Where the test client looks for the WebSocket: the same address with the scheme of WebSockets.\<close>

lemma http_to_ws_cases:
  "http_to_ws (''https://'' @ rest) = ''wss://'' @ rest" "http_to_ws (''http://'' @ rest) = ''ws://'' @ rest"
proof -
  show "http_to_ws (''https://'' @ rest) = ''wss://'' @ rest"
    unfolding http_to_ws_def strip_prefix_append by simp
  have "strip_prefix ''https://'' (''http://'' @ rest) = None" by simp
  then show "http_to_ws (''http://'' @ rest) = ''ws://'' @ rest"
    unfolding http_to_ws_def strip_prefix_append by simp
qed

end
