(* ===== verification/Source_Tests.thy ===== *)
theory Source_Tests
  imports Agent_Program Tunely_Cli Echo_Example
begin

text \<open>
  The unit tests of the repository, each as the conjunction of its assertions over the model's
  functions. They hold, so the model agrees with the code where its authors checked the code. What a
  test draws at random is an argument here. Not repeated are the four tests whose result is computed
  by the URL library.
\<close>

section \<open>Protocol\<close>

definition detects_hop_headers_case_insensitively :: bool where
  "detects_hop_headers_case_insensitively \<longleftrightarrow>
     is_hop_header ''Connection'' \<and> is_hop_header ''upgrade'' \<and> \<not> is_hop_header ''content-type''"

definition chunk_round_trip :: "uuid \<Rightarrow> bool" where
  "chunk_round_trip rid \<longleftrightarrow>
    (let header = \<lparr>kind = ResponseBody, request_id = rid, seq = 42, fin = True\<rparr>;
         payload = as_bytes ''hello'';
         encoded = encode_chunk_frame header payload
     in case decode_chunk_header encoded of
          Inl e \<Rightarrow> False
        | Inr (decoded_header, decoded_payload) \<Rightarrow>
            kind decoded_header = ResponseBody \<and> request_id decoded_header = rid \<and>
            seq decoded_header = 42 \<and> fin decoded_header \<and> decoded_payload = payload)"

definition rejects_short_frame :: bool where
  "rejects_short_frame \<longleftrightarrow>
    (case decode_chunk_header [1, 2, 3] of Inl e \<Rightarrow> e = FrameTooShort | Inr _ \<Rightarrow> False)"

definition ws_payload_round_trip :: bool where
  "ws_payload_round_trip \<longleftrightarrow>
    (case decode_ws_payload (encode_ws_payload OpBinary (as_bytes ''abc'')) of
       Inl e \<Rightarrow> False
     | Inr (op, payload) \<Rightarrow> op = OpBinary \<and> payload = as_bytes ''abc'')"

section \<open>Relay\<close>

definition healthz_returns_ok_payload :: bool where
  "healthz_returns_ok_payload \<longleftrightarrow>
     hp_status healthz = ''ok'' \<and> hp_service healthz = ''relay-server'' \<and> hp_version healthz \<noteq> []"

definition readyz_returns_ready_payload :: bool where
  "readyz_returns_ready_payload \<longleftrightarrow>
     hp_status readyz = ''ready'' \<and> hp_service readyz = ''relay-server'' \<and> hp_version readyz \<noteq> []"

definition tunnel_id_validation :: bool where
  "tunnel_id_validation \<longleftrightarrow>
     is_valid_tunnel_id ''demo'' \<and> is_valid_tunnel_id ''demo_1'' \<and> is_valid_tunnel_id ''A-1'' \<and>
     \<not> is_valid_tunnel_id '''' \<and> \<not> is_valid_tunnel_id ''bad/path'' \<and> \<not> is_valid_tunnel_id ''bad space''"

definition ws_upgrade_candidate_true_for_valid_headers :: "http_lib \<Rightarrow> bool" where
  "ws_upgrade_candidate_true_for_valid_headers H \<longleftrightarrow>
    (let headers = hm_insert ''connection'' (as_bytes ''keep-alive, Upgrade'') [];
         headers = hm_insert ''upgrade'' (as_bytes ''websocket'') headers;
         headers = hm_insert ''sec-websocket-key'' (as_bytes ''x'') headers;
         headers = hm_insert ''sec-websocket-version'' (as_bytes ''13'') headers
     in is_ws_upgrade_candidate H ''GET'' headers)"

definition ws_upgrade_candidate_false_for_normal_get :: "http_lib \<Rightarrow> bool" where
  "ws_upgrade_candidate_false_for_normal_get H \<longleftrightarrow> \<not> is_ws_upgrade_candidate H ''GET'' []"

definition parse_ok :: bool where
  "parse_ok \<longleftrightarrow>
    (case parse_auth_tokens ''tok1,tok2'' of
       Inl e \<Rightarrow> False | Inr tokens \<Rightarrow> ''tok1'' \<in> tokens \<and> ''tok2'' \<in> tokens)"

definition parse_empty :: bool where
  "parse_empty \<longleftrightarrow> (case parse_auth_tokens '''' of Inl e \<Rightarrow> False | Inr tokens \<Rightarrow> tokens = {})"

definition rejects_empty_item :: bool where
  "rejects_empty_item \<longleftrightarrow>
    (case parse_auth_tokens ''tok1,'' of Inl err \<Rightarrow> contains err ''empty token'' | Inr _ \<Rightarrow> False)"

definition resolve_with_cli_only :: "'y file_lib \<Rightarrow> bool" where
  "resolve_with_cli_only F \<longleftrightarrow>
    (let tokens = {''tok''};
         cfg = \<lparr>cfg_file = None, cfg_listen = Some ''127.0.0.1:8080'', cfg_auth_tokens = Some tokens,
                cfg_request_timeout_secs = Some 30\<rparr>
     in case resolve F cfg of
          Inl e \<Rightarrow> False
        | Inr resolved \<Rightarrow> rc_listen resolved = ''127.0.0.1:8080'' \<and>
            rc_request_timeout_secs resolved = 30 \<and> rc_auth_tokens resolved = tokens)"

text \<open>The text of an error, where it is one of the messages of the configuration itself.\<close>

fun error_contains :: "config_error \<Rightarrow> string \<Rightarrow> bool" where
  "error_contains (ConfigMsg m) s = contains m s"
| "error_contains _ s = False"

definition validate_requires_tokens :: bool where
  "validate_requires_tokens \<longleftrightarrow>
    (let cfg = \<lparr>rc_listen = ''0.0.0.0:8080'', rc_auth_tokens = {}, rc_request_timeout_secs = 60\<rparr>
     in case validate_resolved cfg of Inl err \<Rightarrow> error_contains err ''auth_tokens'' | Inr _ \<Rightarrow> False)"

text \<open>The test writes the empty file before it resolves.\<close>

definition empty_file_config_is_valid_input_but_needs_override :: "'y file_lib \<Rightarrow> string \<Rightarrow> bool" where
  "empty_file_config_is_valid_input_but_needs_override F path \<longleftrightarrow>
    (let F = F\<lparr>read_file := (read_file F)(path := Inr '''')\<rparr>;
         cfg = \<lparr>cfg_file = Some path, cfg_listen = None, cfg_auth_tokens = None,
                cfg_request_timeout_secs = None\<rparr>
     in case resolve F cfg of Inl err \<Rightarrow> error_contains err ''auth_tokens'' | Inr _ \<Rightarrow> False)"

definition path_from_tunnel_route :: bool where
  "path_from_tunnel_route \<longleftrightarrow>
     extract_target_path (Some ''/t/demo/api/v1?x=1'') ''demo'' ''api/v1'' = ''/api/v1?x=1''"

definition path_root :: bool where
  "path_root \<longleftrightarrow> extract_target_path (Some ''/t/demo'') ''demo'' '''' = ''/''"

section \<open>Agent and launcher\<close>

definition backoff_is_bounded :: "nat \<Rightarrow> bool" where
  "backoff_is_bounded jitter_ms \<longleftrightarrow> backoff_with_jitter 99 30 jitter_ms div 1000 \<le> 30"

definition detect_config_arg :: bool where
  "detect_config_arg \<longleftrightarrow>
     has_config_arg [as_bytes ''--config'', as_bytes ''x.yaml''] \<and>
     has_config_arg [as_bytes ''--config=/tmp/x.yaml''] \<and>
     \<not> has_config_arg [as_bytes ''--listen'', as_bytes ''0.0.0.0:8080'']"

text \<open>The test writes the file, so it exists.\<close>

definition inject_default_config_for_relay :: "(os_string \<Rightarrow> bool) \<Rightarrow> os_string \<Rightarrow> bool" where
  "inject_default_config_for_relay exists path \<longleftrightarrow>
    (let out = ensure_default_relay_config_for_path (exists(path := True))
                 [as_bytes ''--listen'', as_bytes ''0.0.0.0:8080''] path
     in out ! 0 = as_bytes ''--config'' \<and> out ! 1 = path)"

definition do_not_inject_if_config_present :: "(os_string \<Rightarrow> bool) \<Rightarrow> bool" where
  "do_not_inject_if_config_present exists \<longleftrightarrow>
    (let out = ensure_default_relay_config_for_path exists [as_bytes ''--config'', as_bytes ''/tmp/r.yaml'']
                 (as_bytes ''/tmp/does-not-matter.yaml'')
     in out ! 0 = as_bytes ''--config'' \<and> out ! 1 = as_bytes ''/tmp/r.yaml'' \<and> length out = 2)"

section \<open>They hold\<close>

lemma protocol_tests: "detects_hop_headers_case_insensitively \<and> chunk_round_trip rid \<and> rejects_short_frame \<and> ws_payload_round_trip"
proof (intro conjI)
  show "detects_hop_headers_case_insensitively"
    unfolding detects_hop_headers_case_insensitively_def by code_simp
  show "chunk_round_trip rid"
    by (simp add: chunk_round_trip_def encode_chunk_frame_def decode_encode Let_def is_supported_protocol_version_def)
  show "rejects_short_frame"
    by (simp add: rejects_short_frame_def decode_chunk_header_def HEADER_LEN_def)
  show "ws_payload_round_trip" by (simp add: ws_payload_round_trip_def)
qed

lemma config_tests:
  "parse_ok \<and> parse_empty \<and> rejects_empty_item \<and> resolve_with_cli_only F \<and> validate_requires_tokens \<and>
   empty_file_config_is_valid_input_but_needs_override F path"
proof (intro conjI)
  show "parse_ok" by (simp add: parse_ok_def sample_tokens)
  have empty: "trim [] = []" by code_simp
  show "parse_empty" by (simp add: parse_empty_def parse_auth_tokens_def empty)
  have "trim ''tok1,'' = ''tok1,''" by (simp add: trim_graphic graphic_def)
  moreover have "contains ''empty token is not allowed'' ''empty token''" by code_simp
  ultimately show "rejects_empty_item"
    by (simp add: rejects_empty_item_def parse_auth_tokens_def normalize_token_list_eq empty trim_samples del: contains.simps)
  have "trim ''127.0.0.1:8080'' = ''127.0.0.1:8080''" by (simp add: trim_graphic graphic_def)
  then show "resolve_with_cli_only F"
    by (simp add: resolve_with_cli_only_def resolve_def default_resolved_def override_def validate_resolved_def)
  have msg: "contains ''auth_tokens must not be empty (set in config file or --auth-token)'' ''auth_tokens''"
    by code_simp
  then show "validate_requires_tokens"
    by (simp add: validate_requires_tokens_def validate_resolved_def trim_samples del: contains.simps)
  have defaults: "apply_file default_file_config default_resolved = Inr default_resolved" by (rule apply_file_default)
  have "rc_listen default_resolved = ''0.0.0.0:8080''" "rc_request_timeout_secs default_resolved = 60"
    "rc_auth_tokens default_resolved = {}"
    by (simp_all add: default_resolved_def)
  with msg show "empty_file_config_is_valid_input_but_needs_override F path"
    by (simp add: empty_file_config_is_valid_input_but_needs_override_def Let_def resolve_def load_file_config_def empty
        defaults override_def validate_resolved_def trim_samples del: contains.simps)
qed

lemma relay_tests:
  "healthz_returns_ok_payload \<and> readyz_returns_ready_payload \<and> tunnel_id_validation \<and>
   path_from_tunnel_route \<and> path_root \<and> ws_upgrade_candidate_false_for_normal_get H"
proof (intro conjI)
  show "healthz_returns_ok_payload"
    by (simp add: healthz_returns_ok_payload_def healthz_def CARGO_PKG_VERSION_def)
  show "readyz_returns_ready_payload"
    by (simp add: readyz_returns_ready_payload_def readyz_def CARGO_PKG_VERSION_def)
  show "tunnel_id_validation" by code_simp
  show "path_from_tunnel_route" by code_simp
  show "path_root" by code_simp
  show "ws_upgrade_candidate_false_for_normal_get H"
    by (simp add: ws_upgrade_candidate_false_for_normal_get_def is_ws_upgrade_candidate_def has_csv_token_def hm_get_def)
qed

definition reads_ascii :: "http_lib \<Rightarrow> bool" where
  "reads_ascii H \<longleftrightarrow> (\<forall>s. list_all (\<lambda>c. 32 \<le> (of_char c :: nat) \<and> (of_char c :: nat) < 127) s \<longrightarrow>
     value_to_str H (as_bytes s) = Some s)"

lemma upgrade_test:
  assumes "reads_ascii H"
  shows "ws_upgrade_candidate_true_for_valid_headers H"
proof -
  let ?hs = "hm_insert ''sec-websocket-version'' (as_bytes ''13'') (hm_insert ''sec-websocket-key'' (as_bytes ''x'')
    (hm_insert ''upgrade'' (as_bytes ''websocket'') (hm_insert ''connection'' (as_bytes ''keep-alive, Upgrade'') [])))"
  have str: "value_to_str H (as_bytes ''keep-alive, Upgrade'') = Some ''keep-alive, Upgrade''"
    "value_to_str H (as_bytes ''websocket'') = Some ''websocket''" "value_to_str H (as_bytes ''13'') = Some ''13''"
    by (intro assms [unfolded reads_ascii_def, rule_format]; simp)+
  have get: "hm_get ?hs ''connection'' = Some (as_bytes ''keep-alive, Upgrade'')"
    "hm_get ?hs ''upgrade'' = Some (as_bytes ''websocket'')" "hm_get ?hs ''sec-websocket-key'' = Some (as_bytes ''x'')"
    "hm_get ?hs ''sec-websocket-version'' = Some (as_bytes ''13'')"
    by (simp_all add: hm_get_def hm_insert_def)
  have split: "split_char CHR '','' ''keep-alive, Upgrade'' = [''keep-alive'', '' Upgrade'']"
    "split_char CHR '','' ''13'' = [''13'']"
    by simp_all
  have trimmed: "trim '' Upgrade'' = ''Upgrade''" "trim ''13'' = ''13''"
    by (simp_all add: trim_space_graphic trim_graphic graphic_def)
  have "eq_ignore_ascii_case ''Upgrade'' ''upgrade''" by code_simp
  then have csv: "list_ex (\<lambda>token. eq_ignore_ascii_case (trim token) ''upgrade'') (split_char CHR '','' ''keep-alive, Upgrade'')"
    "list_ex (\<lambda>token. eq_ignore_ascii_case (trim token) ''13'') (split_char CHR '','' ''13'')"
    unfolding split by (simp_all add: trimmed)
  have "has_csv_token H ?hs ''connection'' ''upgrade''"
    unfolding has_csv_token_def get str Option.bind.simps option.case by (rule csv)
  moreover have "has_csv_token H ?hs ''sec-websocket-version'' ''13''"
    unfolding has_csv_token_def get str Option.bind.simps option.case by (rule csv)
  moreover have "header_eq H ?hs ''upgrade'' ''websocket''"
    unfolding header_eq_def get str Option.bind.simps option.case by (rule eq_ignore_ascii_case_refl)
  ultimately show ?thesis
    unfolding ws_upgrade_candidate_true_for_valid_headers_def is_ws_upgrade_candidate_def Let_def get by simp
qed

lemma program_tests:
  assumes "jitter < 500"
  shows "backoff_is_bounded jitter \<and> detect_config_arg \<and> inject_default_config_for_relay exists p \<and>
    do_not_inject_if_config_present exists"
proof (intro conjI)
  show "backoff_is_bounded jitter"
    using assms unfolding backoff_is_bounded_def backoff_bounds [symmetric] by (simp add: min_def)
  show "detect_config_arg" by code_simp
  have present: "has_config_arg [as_bytes ''--config'', as_bytes ''/tmp/r.yaml'']"
    and absent: "\<not> has_config_arg [as_bytes ''--listen'', as_bytes ''0.0.0.0:8080'']" by code_simp+
  from absent show "inject_default_config_for_relay exists p"
    by (simp add: inject_default_config_for_relay_def ensure_default_relay_config_for_path_def)
  from present show "do_not_inject_if_config_present exists"
    by (simp add: do_not_inject_if_config_present_def ensure_default_relay_config_for_path_def)
qed

text \<open>
  The repository's own tests hold of the model: all its unit tests but the four about URLs, for
  every random id and every jitter below 500 ms, every file system and every path, and for a header
  library that reads a value of printable ASCII characters as its text.
\<close>

lemma repository_tests_hold:
  assumes "jitter < 500"
    and "reads_ascii H"
  shows "detects_hop_headers_case_insensitively \<and> chunk_round_trip rid \<and> rejects_short_frame \<and> ws_payload_round_trip \<and>
    healthz_returns_ok_payload \<and> readyz_returns_ready_payload \<and> tunnel_id_validation \<and>
    ws_upgrade_candidate_true_for_valid_headers H \<and> ws_upgrade_candidate_false_for_normal_get H \<and>
    parse_ok \<and> parse_empty \<and> rejects_empty_item \<and> resolve_with_cli_only F \<and> validate_requires_tokens \<and>
    empty_file_config_is_valid_input_but_needs_override F path \<and> path_from_tunnel_route \<and> path_root \<and>
    backoff_is_bounded jitter \<and> detect_config_arg \<and> inject_default_config_for_relay exists p \<and>
    do_not_inject_if_config_present exists"
  using protocol_tests config_tests relay_tests upgrade_test [OF assms(2)] program_tests [OF assms(1)] by blast

lemma repository_tests_hold_witness:
  "chunk_round_trip 7 \<and> ws_upgrade_candidate_true_for_valid_headers plain_http \<and> backoff_is_bounded 499"
proof -
  have "(499 :: nat) < 500" by simp
  moreover have "reads_ascii plain_http" by (simp add: reads_ascii_def plain_http_def)
  ultimately show ?thesis using repository_tests_hold [of 499 plain_http 7] by blast
qed

end
