(* ===== verification/Spec2Isabelle.thy ===== *)
theory Spec2Isabelle
  imports Relay_System_Fair Relay_System_Order Agent_Upload Source_Tests
begin

text \<open>
  Tunely: a server on a machine without a public address is reached through a relay that has one.

  The program. Four crates under \<open>src/crates\<close> and two examples under \<open>src/examples\<close>.
  A public client talks HTTP or WebSocket to \<open>relay-server\<close>, which finds the agent registered
  under the tunnel id of the path, sends it the request over one WebSocket per agent and waits for
  its answer; \<open>agent\<close> keeps that WebSocket, makes each request at the local server and sends
  back what it gets. Both ends share \<open>protocol\<close>: control messages as JSON text and chunks of
  bodies and WebSocket messages as binary frames. \<open>tunely\<close> starts the two programs. Within the
  relay the tasks of the public clients and of the agents share one \<open>AppState\<close>: an agent's session
  turns each message into an operation on it, which sends an event into the channel on which the
  waiting request or WebSocket reads. Within the agent one loop reads the relay's WebSocket; it owns
  the table of request bodies and shares the table of WebSocket sessions with the tasks it spawns.

  Theories and code, in the order of their imports.

  \<open>Tunely_Prelude\<close>: machine types; the parts of Rust's standard library the sources call
  (\<open>trim\<close>, \<open>split\<close>, ASCII case, big-endian bytes, UTF-8 validity, decimal numbers); tables with
  distinct keys for \<open>HashMap\<close>; operations as functions from a state to a state and the messages
  sent (\<open>andthen\<close>, \<open>for_each\<close>); and the four interfaces as locales:
  \<open>keyed_table\<close> (get, insert, remove), \<open>preserving\<close> (operations that keep an invariant),
  \<open>owned_entry\<close> (an entry only its owner adds, so that a trace that removes it leaves it absent under
  any interleaving) and \<open>codec\<close> (decode after encode). Each is interpreted on the model where the
  operations are defined.

  \<open>Protocol_Frame\<close>, \<open>Protocol_Message\<close>: \<open>protocol/src/{lib,frame,message,http}.rs\<close> and
  \<open>relay-server/src/ws_wire.rs\<close>. Frames are encoded and decoded byte by byte, with both errors.

  \<open>Relay_State\<close>: \<open>relay-server/src/state.rs\<close>. The record \<open>app_state\<close> has the fields of
  \<open>AppState\<close>; one definition per method, each an atomic step that gives the messages it sends; the
  receivers that are still there are an argument. \<open>state_op\<close> and \<open>exec_op\<close> make the methods data, so
  that sequences of them stand for what interleaved tasks do. A specification on maps is refined by
  every operation.

  \<open>Relay_Session\<close>: \<open>relay-server/src/ws_session.rs\<close>, the relay's end of an agent's connection.
  \<open>Relay_Http\<close>: \<open>http_ingress.rs\<close>, \<open>ingress.rs\<close>, a public request as the trace of
  what its handler does for what it meets (the record \<open>ingress_env\<close>: body items, polls with their
  time, events). \<open>Relay_Tunnel\<close>: \<open>ws_tunnel.rs\<close>, a public WebSocket in the same style.
  \<open>Relay_Config\<close>: \<open>config.rs\<close>. \<open>Relay_Program\<close>: \<open>main.rs\<close>, \<open>health.rs\<close>, the routes,
  the public entry points, and the writer task with its abort.

  \<open>Relay_System\<close>, \<open>Relay_System_Table\<close>, \<open>Relay_System_Order\<close>, \<open>Relay_System_Fair\<close>: the handlers
  of \<open>Relay_Http\<close> split at every \<open>await\<close> and run concurrently with the agents' sessions, the
  clients and the clock as one step relation over bounded channels; then its invariant and what
  follows from it; the order of what passes through its channels; and infinite fair runs.

  \<open>Agent_Proxy\<close>: \<open>agent/src/local_proxy.rs\<close>, \<open>inflight.rs\<close>. \<open>Agent_Client\<close>:
  \<open>relay_client.rs\<close>, the registration, the two message handlers, the read loop, the request task,
  the WebSocket task and the delay. \<open>Agent_Upload\<close>: the same loop with its bounded body channels
  as a step relation. \<open>Agent_Program\<close>: \<open>agent/src/config.rs\<close>, the ping task, a connection, the
  reconnect loop. \<open>Tunely_Cli\<close>: \<open>tunely/src/main.rs\<close>. \<open>Echo_Example\<close>: the two examples.
  \<open>Source_Tests\<close>: the repository's unit tests over the model. \<open>Relay_Agent_Link\<close>: what one end
  sends, read by the other; this theory: the properties that span both programs.

  What is shown. End to end: a request and its body reach the local server, a response and its body
  reach the client, WebSocket messages and closes pass in both directions, the handshake leaves both
  ends agreed, the echo server's replies come back. The relay's state: refinement of a specification,
  one terminal event per channel and as the last, the clean-up of an agent. Entries are freed on
  every exit under any interleaving, for requests, tunnels, sessions and agents. The concurrent
  relay: its states are well formed, its handlers do what the handler function says, a response is
  what was sent for it in order, none reads a closed channel, none is kept waiting by the relay
  itself; and three ways in which one is kept waiting by others. Registration and configuration: who
  is registered, which configurations resolve. The agent: each request is answered once, bodies
  arrive in order, delays are bounded.
  Frames: round trip, and which are accepted. The remaining properties state weak points of the code
  as it is: blocking by one slow party, truncation that looks like an end, lost acknowledgements and
  early frames, URLs that leave the local base.

  Representation. UUIDs are 128-bit words, sequence numbers and attempts \<open>u32\<close>, milliseconds and
  seconds \<open>u64\<close>, so their arithmetic wraps or saturates where the code's does; the sequence number
  of a body wraps after \<open>2 ^ 32\<close> chunks, which no reader looks at. Byte strings are lists of 8-bit
  words. A channel is a number; new channels are given to the operation that makes them. Errors are
  the left of a sum. Time is in nanoseconds of the monotonic clock.

  Bounds and fuel. Loops over what the outside sends are recursions over the list of what arrives,
  whose end is the end of what is observed, not of the loop: a result says whether the loop has
  ended. \<open>trim\<close> over UTF-8 bytes takes the length of the string as fuel, and every step removes a
  byte. The channels of responses and of request bodies have the code's capacity of 128; the
  control and WebSocket channels are unbounded in the code too. Everything else is structural
  recursion or has its measure. Waiting forever is possible in the step relations only.

  Parameters, with what is asked of them where they occur. \<open>json\<close>: \<open>serde_json\<close> (what is
  serialised parses back). \<open>http_lib\<close>: header names and values, and valid statuses. \<open>url_lib\<close>: the
  \<open>url\<close> crate. \<open>file_lib\<close>: reading and YAML of the configuration file. The answers of the local
  server, connecting, clocks, random numbers, the file system, starting processes and the results of
  command-line parsing are arguments. Every property with such a hypothesis has a witness on a
  concrete instance (\<open>plain_json\<close>, \<open>plain_http\<close>, \<open>plain_url\<close>).

  Not modelled. Logging, except where a log line shows a result of the program. The text of the
  command-line parser's own messages, TLS, sockets and the routing of axum: library code the sources
  configure. Four unit tests of the agent whose expected value the URL library computes. The Windows
  path separator of the launcher, and how it tells which error of the operating system means that a
  program is missing. In \<open>Relay_System\<close> the operations of WebSockets and registrations are
  arbitrary atomic steps beside the requests, and in \<open>Agent_Upload\<close> so are the session tasks; the
  channels of WebSockets are unbounded, so no task waits for room in them. The installation scripts,
  documents and CI.
\<close>

section \<open>Registration seen from both ends\<close>

text \<open>
  C11: the two ends agree on whether the agent is registered, when the first message the agent reads
  is the relay's answer to its own registration. The relay answers with one message. An agent that
  reads it goes on exactly if the relay entered it in its table, and then both speak version 2 and the
  agent knows that WebSockets are supported; otherwise the relay's state is as before, its answer
  carries the first reason that applies, in the order of the checks, and the agent's error is that
  reason.
\<close>

theorem handshake_agrees:
  fixes J :: "'t json"
  assumes "json_ok J" and "to_string J (register_message tid token) = Inr t" and "rx out"
    and "open_session J rx out cid (FirstRead (ReadMsg (MText t))) st = (st', out_msgs, r)"
  shows "\<exists>ta. agent_msgs out out_msgs = [MText ta] \<and>
    (if is_valid_tunnel_id tid \<and> validate_token st token \<and> get_agent st tid = None
     then r = Some (tid, cid) \<and>
       from_str J ta = Inr (RegisterAck True None (Some 2) relay_capabilities) \<and>
       (\<exists>info. wait_register_ack J (FirstRead (ReadMsg (MText ta))) = Inr info \<and>
         relay_protocol_version info = 2 \<and> relay_supports_ws (make_ctx base info)) \<and>
       map_option protocol_version (get_agent st' tid) = Some 2 \<and>
       map_option capabilities (get_agent st' tid) = Some {CAP_WS_TUNNEL_V1} \<and>
       map_option sender (get_agent st' tid) = Some out
     else r = None \<and> st' = st \<and>
       (\<exists>reason. reason = (if \<not> is_valid_tunnel_id tid then ''invalid tunnel_id format''
            else if \<not> validate_token st token then ''invalid token'' else ''tunnel_id already in use'') \<and>
          from_str J ta = Inr (RegisterAck False (Some reason) (Some 2) relay_capabilities) \<and>
          wait_register_ack J (FirstRead (ReadMsg (MText ta))) = Inl (''register rejected: '' @ reason)))"
proof -
  have msg: "read_register_message J (FirstRead (ReadMsg (MText t))) = Some (register_message tid token)"
    using assms(1,2) by (auto simp: json_ok_def read_register_message_def dest: spec [of _ "register_message tid token"])
  have ack: "\<exists>ta. agent_msgs out (snd (send_control J rx out (register_ack ok reason))) = [MText ta] \<and>
      from_str J ta = Inr (RegisterAck ok reason (Some 2) relay_capabilities) \<and>
      wait_register_ack J (FirstRead (ReadMsg (MText ta))) =
        (if ok then Inr \<lparr>relay_protocol_version = 2, relay_caps = relay_capabilities\<rparr>
         else Inl (''register rejected: '' @ (case reason of Some s \<Rightarrow> s | None \<Rightarrow> ''unknown'')))" for ok reason
    using send_control_ok [OF assms(1), of "register_ack ok reason" rx out] assms(3)
    by (auto simp: wait_register_ack_def register_ack_def is_supported_protocol_version_def PROTOCOL_VERSION_def)
  have ctx: "relay_supports_ws (make_ctx base \<lparr>relay_protocol_version = 2, relay_caps = relay_capabilities\<rparr>)"
    by (simp add: make_ctx_def relay_capabilities_def)
  have sup: "is_supported_protocol_version PROTOCOL_VERSION" by (simp add: is_supported_protocol_version_def)
  let ?ok = "is_valid_tunnel_id tid \<and> validate_token st token \<and> get_agent st tid = None"
  show ?thesis
  proof (cases ?ok)
    case True
    then have "out_msgs = snd (send_control J rx out (register_ack True None))" "r = Some (tid, cid)"
      "st' = st\<lparr>agents := tbl_insert tid \<lparr>connection_id = cid, sender = out,
         capabilities = {CAP_WS_TUNNEL_V1}, protocol_version = PROTOCOL_VERSION\<rparr> (agents st)\<rparr>"
      using assms(4)
      by (auto simp: open_session_eq msg register_message_def sup Let_def insert_agent_if_absent_def get_agent_def)
    with True ack [of True None] ctx show ?thesis
      by (auto simp: get_agent_def table_simps PROTOCOL_VERSION_def)
  next
    case False
    let ?reason = "if \<not> is_valid_tunnel_id tid then ''invalid tunnel_id format''
      else if \<not> validate_token st token then ''invalid token'' else ''tunnel_id already in use''"
    have "r = None \<and> st' = st \<and> out_msgs = snd (send_control J rx out (register_ack False (Some ?reason)))"
      using False assms(4)
      by (auto simp: open_session_eq msg register_message_def sup Let_def insert_agent_if_absent_def get_agent_def
          split: if_splits)
    with ack [of False "Some ?reason"] False show ?thesis by (simp only: if_False option.case) blast
  qed
qed

section \<open>A request and its response, end to end\<close>

text \<open>
  C2: the request that reaches the local server's task is the client's. When nothing fails on the
  way, the agent that reads what the relay's handler sent spawns one task for the request, with the
  client's method, the target path and the passing headers, gives it the client's body chunk by
  chunk without the empty ones, so byte for byte, and then closes its body: its table is as if the
  request had been entered and removed.
\<close>

theorem request_end_to_end:
  fixes J :: "'t json"
  assumes "json_ok J" and "in_agent e = Some a" and "in_start_open e" and "in_end_open e"
    and "in_body e = map (\<lambda>b. (Chunk b, True)) bs" and "is_supported_protocol_version (protocol_version a)"
  shows "\<exists>chunks. agent_loop J ctx
        (agent_rounds bc (agent_msgs (sender a) (puts_of (fst (handle_ingress J H rq e))))) st =
      (Inr (), inflight_remove (in_rid e) (inflight_insert (in_rid e) bc st),
       SpawnProxy \<lparr>pr_id = in_rid e, pr_method = rq_method rq,
         pr_path_and_query = extract_target_path (rq_path_and_query rq) (rq_tunnel rq) (rq_tail rq),
         pr_headers = flatten_headers H (rq_headers rq), pr_body_rx = bc\<rparr> # map (ToBody bc) chunks) \<and>
    [] \<notin> set chunks \<and> concat chunks = concat bs"
proof (rule handle_ingress_puts [OF assms(1-5), of rq H])
  fix ts te :: 't
  assume "from_str J ts = Inr (HttpRequestStart (in_rid e) (rq_method rq)
        (extract_target_path (rq_path_and_query rq) (rq_tunnel rq) (rq_tail rq)) (flatten_headers H (rq_headers rq)))"
    and "from_str J te = Inr (HttpRequestEnd (in_rid e))"
    and "agent_msgs (sender a) (puts_of (fst (handle_ingress J H rq e))) = MText ts # map MBinary
       (request_frames (in_rid e) (protocol_version a) 0 (filter (\<lambda>b. b \<noteq> []) bs)) @ [MText te]"
  moreover have "concat (filter (\<lambda>b. b \<noteq> []) bs) = concat bs" by (induction bs) auto
  ultimately show ?thesis
    by (intro exI [of _ "filter (\<lambda>b. b \<noteq> []) bs"])
       (simp only: agent_loop_request [OF assms(6)], simp)
qed

theorem request_end_to_end_witness:
  "\<exists>chunks st' p. agent_loop plain_json sample_ctx
      (agent_rounds 5 (agent_msgs 10 (puts_of (fst (handle_ingress plain_json plain_http sample_request sample_env)))))
      \<lparr>ag_inflight = [], ag_ws_sessions = []\<rparr> = (Inr (), st', SpawnProxy p # map (ToBody 5) chunks) \<and>
    concat chunks = [1, 2, 3]"
proof -
  have env: "in_agent sample_env = Some sample_agent" "in_start_open sample_env" "in_end_open sample_env"
    "in_body sample_env = map (\<lambda>b. (Chunk b, True)) [[1], [2, 3]]"
    "is_supported_protocol_version (protocol_version sample_agent)"
    by (simp_all add: sample_env_def sample_agent_def)
  have s: "sender sample_agent = 10" by (simp add: sample_agent_def)
  from request_end_to_end [OF plain_json_ok env] show ?thesis unfolding s by fastforce
qed

text \<open>
  C1: the response that reaches the client is the local server's. When the local server's response
  is complete and nothing else touches the request, the relay that reads what the agent's task sent
  gives the handler events with which, read before the deadline, the client gets the local
  server's status, its headers less the hop-by-hop ones and the ones that are not text, and its
  body byte for byte; and the request has left the relay's table.
\<close>

theorem response_end_to_end:
  fixes J :: "'t json" and rx :: "chan \<Rightarrow> bool"
  assumes "json_ok J" and "is_supported_protocol_version (relay_frame_version ctx)"
    and "local_outcome H U method_of serve (local_base ctx) req (Response status headers bs None)"
    and "headers_ok H headers" and "status_valid H status"
    and "tbl_get (inflight st) (pr_id req) = Some c" and "rx c"
    and "session_loop J out (map (\<lambda>m. (rx, ReadMsg m))
      (relay_msgs (proxy_task J H U method_of serve ctx True True True req))) st = (st', sent)"
    and "in_agent e = Some a" and "in_start_open e" and "in_end_open e"
    and "in_body e = map (\<lambda>b. (Chunk b, True)) rbs" and "t < nanos (in_timeout e)"
    and "in_polls e = [(t, Some (Some (hd (events_to c sent))))]"
    and "in_events e = map Some (tl (events_to c sent))"
  shows "\<exists>chunks. snd (handle_ingress J H rq e) =
      Some \<lparr>rsp_status = status,
        rsp_headers = filter (\<lambda>(n, b). to_ascii_lowercase n \<notin> set hop_headers \<and> value_to_str H b \<noteq> None) headers,
        rsp_body = chunks, rsp_complete = True\<rparr> \<and>
    concat chunks = concat bs \<and> tbl_get (inflight st') (pr_id req) = None"
proof -
  note ev = proxy_response_events [where rx = rx and c = c, OF assms(1-3,6,7), of out, unfolded assms(8) fst_conv snd_conv]
  let ?chunks = "filter (\<lambda>b. b \<noteq> []) bs"
  have hs: "apply_forwarded_headers H [] (flatten_response_headers H headers) =
      filter (\<lambda>(n, b). to_ascii_lowercase n \<notin> set hop_headers \<and> value_to_str H b \<noteq> None) headers"
    by (rule response_headers_pass [OF assms(4)])
  have "response_stream (in_events e) = (?chunks, True)"
    unfolding assms(15) ev(2) list.sel response_stream_events by simp
  moreover have "await_start (nanos (in_timeout e)) [] (in_polls e) =
      Some (Started status (flatten_response_headers H headers) [])"
    using assms(13) by (simp add: assms(14) ev(2) await_start.simps)
  ultimately have "snd (handle_ingress J H rq e) =
      Some \<lparr>rsp_status = status,
        rsp_headers = filter (\<lambda>(n, b). to_ascii_lowercase n \<notin> set hop_headers \<and> value_to_str H b \<noteq> None) headers,
        rsp_body = ?chunks, rsp_complete = True\<rparr>"
    by (rule_tac handle_ingress_sent [OF assms(1,9-12), of rq H]) (simp add: Let_def hs assms(5))
  moreover have "concat ?chunks = concat bs" by (induction bs) auto
  moreover have "tbl_get (inflight st') (pr_id req) = None" using ev(1) by (simp add: infl.get_del)
  ultimately show ?thesis by blast
qed

theorem response_end_to_end_witness:
  "\<exists>sent rsp. snd (session_loop plain_json 10 (map (\<lambda>m. (\<lambda>_. True, ReadMsg m))
        (relay_msgs (proxy_task plain_json plain_http plain_url Inr sample_serve sample_ctx True True True
          sample_proxy_request))) sample_state) = sent \<and>
    snd (handle_ingress plain_json plain_http sample_request
      (sample_env\<lparr>in_polls := [(5, Some (Some (hd (events_to 20 sent))))],
                  in_events := map Some (tl (events_to 20 sent))\<rparr>)) = Some rsp \<and>
    rsp_status rsp = 201 \<and> rsp_headers rsp = [(''etag'', as_bytes ''x'')] \<and> concat (rsp_body rsp) = [1, 2, 3]"
proof -
  obtain st' sent where s: "session_loop plain_json 10 (map (\<lambda>m. (\<lambda>_. True, ReadMsg m))
        (relay_msgs (proxy_task plain_json plain_http plain_url Inr sample_serve sample_ctx True True True
          sample_proxy_request))) sample_state = (st', sent)"
    by fastforce
  let ?e = "sample_env\<lparr>in_polls := [(5, Some (Some (hd (events_to 20 sent))))],
                  in_events := map Some (tl (events_to 20 sent))\<rparr>"
  have h: "headers_ok plain_http [(''etag'', as_bytes ''x''), (''te'', as_bytes ''y'')]"
    and v: "status_valid plain_http 201" and c: "tbl_get (inflight sample_state) (pr_id sample_proxy_request) = Some 20"
    by (simp_all add: headers_ok_def plain_http_def sample_state_def sample_proxy_request_def tbl_get_def)
  have e: "in_agent ?e = Some sample_agent" "in_start_open ?e" "in_end_open ?e"
    "in_body ?e = map (\<lambda>b. (Chunk b, True)) [[1], [2, 3]]" "5 < nanos (in_timeout ?e)"
    "in_polls ?e = [(5, Some (Some (hd (events_to 20 sent))))]" "in_events ?e = map Some (tl (events_to 20 sent))"
    by (simp_all add: sample_env_def nanos_def)
  obtain chunks where "snd (handle_ingress plain_json plain_http sample_request ?e) =
      Some \<lparr>rsp_status = 201, rsp_headers = filter (\<lambda>(n, b). to_ascii_lowercase n \<notin> set hop_headers \<and>
          value_to_str plain_http b \<noteq> None) [(''etag'', as_bytes ''x''), (''te'', as_bytes ''y'')],
        rsp_body = chunks, rsp_complete = True\<rparr>" "concat chunks = concat [[1], [], [2, 3]]"
    using response_end_to_end [where rx = "\<lambda>_. True" and c = 20, OF plain_json_ok sample_ctx_version sample_outcome
        h v c TrueI s e] by blast
  then show ?thesis unfolding s
    by (simp add: plain_http_def hop_headers_def to_ascii_lowercase_def ascii_lower_def)
qed

theorem handshake_agrees_witness:
  "\<exists>st' ms r ta. open_session plain_json (\<lambda>_. True) 50 9
      (FirstRead (ReadMsg (MText (register_message ''new'' ''tok'')))) sample_state = (st', ms, r) \<and>
    agent_msgs 50 ms = [MText ta]"
proof -
  obtain st' ms r where o: "open_session plain_json (\<lambda>_. True) 50 9
      (FirstRead (ReadMsg (MText (register_message ''new'' ''tok'')))) sample_state = (st', ms, r)"
    by (metis prod_cases3)
  have "to_string plain_json (register_message ''new'' ''tok'') = Inr (register_message ''new'' ''tok'')"
    by (simp add: plain_json_def)
  from handshake_agrees [where rx = "\<lambda>_. True" and out = 50, OF plain_json_ok this TrueI o] o show ?thesis by blast
qed

section \<open>A WebSocket, end to end\<close>

text \<open>
  C9: the local server receives the client's WebSocket messages. While the stream is open at both
  ends, any text, binary, ping and pong messages of the client, copied by the relay, read by the
  agent and copied by the stream's task, arrive at the local server's socket as the same messages,
  in order, none lost, split or merged.
\<close>

theorem client_messages_end_to_end:
  assumes "is_supported_protocol_version v" and "list_all carried ms"
    and "tbl_get (ag_ws_sessions st) sid = Some tx"
  shows "\<exists>evs. agent_loop J ctx (agent_rounds bc (agent_msgs c (to_agent (fst
        (tunnel_loop J c sid v (map (\<lambda>m. ClientRead (\<lambda>_. True) (Some (ReadMsg m))) ms)))))) st =
      (Inr (), st, map (ToSession tx) evs) \<and>
    stream_to_local (fst (stream_loop J sid w (map (\<lambda>ev. Inbound True (Some ev)) evs))) = ms"
  by (rule client_messages_carried [OF assms])

text \<open>
  C10: the client receives the local server's WebSocket messages. In the other direction the same
  holds: copied by the agent's task, read by the relay's session and copied by the tunnel's task,
  they arrive at the client's socket as the same messages, in order.
\<close>

theorem local_messages_end_to_end:
  fixes rx :: "chan \<Rightarrow> bool"
  assumes "is_supported_protocol_version v" and "list_all carried ms"
    and "tbl_get (ws_streams st) sid = Some h" and "rx (ws_sender h)"
  shows "\<exists>evs. session_loop J out (map (\<lambda>m. (rx, ReadMsg m)) (relay_msgs (stream_to_relay (fst
        (stream_loop J sid v (map (\<lambda>m. LocalRead True (Some (ReadMsg m))) ms)))))) st =
      (st, map (ToStream (ws_sender h)) evs) \<and>
    to_client (fst (tunnel_loop J c sid w (map (\<lambda>ev. RelayRead True (Some ev)) evs))) = ms"
  by (rule local_messages_carried [where rx = rx, OF assms])

definition sample_messages :: "string message list" where
  "sample_messages = [MText ''hi'', MPing [1], MBinary [0, 255], MPong []]"

lemma sample_carried: "list_all carried sample_messages"
  by (simp add: sample_messages_def carried_def as_bytes_def)

theorem client_messages_end_to_end_witness:
  "\<exists>evs. agent_loop plain_json sample_ctx (agent_rounds 5 (agent_msgs 10 (to_agent (fst
        (tunnel_loop plain_json 10 9 1 (map (\<lambda>m. ClientRead (\<lambda>_. True) (Some (ReadMsg m))) sample_messages))))))
      \<lparr>ag_inflight = [], ag_ws_sessions = [(9, 70)]\<rparr> =
      (Inr (), \<lparr>ag_inflight = [], ag_ws_sessions = [(9, 70)]\<rparr>, map (ToSession 70) evs)"
proof -
  have "tbl_get (ag_ws_sessions \<lparr>ag_inflight = [], ag_ws_sessions = [(9, 70)]\<rparr>) 9 = Some 70"
    by (simp add: tbl_get_def)
  from client_messages_end_to_end [OF sample_supported sample_carried this] show ?thesis by blast
qed

theorem local_messages_end_to_end_witness:
  "\<exists>evs. session_loop plain_json 10 (map (\<lambda>m. (\<lambda>_. True, ReadMsg m)) (relay_msgs (stream_to_relay (fst
        (stream_loop plain_json 300 1 (map (\<lambda>m. LocalRead True (Some (ReadMsg m))) sample_messages)))))) sample_state =
      (sample_state, map (ToStream 40) evs) \<and>
    to_client (fst (tunnel_loop plain_json 10 300 1 (map (\<lambda>ev. RelayRead True (Some ev)) evs))) = sample_messages"
proof -
  have h: "tbl_get (ws_streams sample_state) 300 = Some \<lparr>ws_tunnel_id = ''demo'', ws_sender = 40\<rparr>"
    by (simp add: sample_state_def tbl_get_def)
  show ?thesis
    using local_messages_end_to_end [where rx = "\<lambda>_. True", OF sample_supported sample_carried h TrueI]
    by (simp only: ws_stream_handle.select_convs)
qed

text \<open>
  C33: a close travels through the tunnel. When the client closes with a frame, the relay leaves its
  loop and tells the agent, whose task closes the local server's socket with the same code and
  reason and leaves its loop; when the local server closes, its stream's task tells the relay and leaves
  its loop, the relay's stream entry is gone at once, and the relay's task gives the client the same
  code and reason and leaves its loop. A close without a frame becomes 1000.
\<close>

theorem close_end_to_end:
  fixes J :: "'t json" and rx :: "chan \<Rightarrow> bool"
  assumes "json_ok J" and "tbl_get (ag_ws_sessions ast) sid = Some tx"
    and "tbl_get (ws_streams st) sid = Some h" and "rx (ws_sender h)"
  shows "(\<exists>ev. tunnel_loop J c sid v [ClientRead (\<lambda>_. True) (Some (ReadMsg (MClose cl)))]
        = (map TPut (snd (send_control J (\<lambda>_. True) c (WsClose sid (Some (case cl of None \<Rightarrow> 1000 | Some f \<Rightarrow> close_code f))
             (map_option close_reason cl)))), True) \<and>
      agent_loop J ctx (agent_rounds bc (agent_msgs c (to_agent (fst
        (tunnel_loop J c sid v [ClientRead (\<lambda>_. True) (Some (ReadMsg (MClose cl)))]))))) ast
        = (Inr (), ast, [ToSession tx ev]) \<and>
      stream_loop J sid w [Inbound True (Some ev)] =
        ([WLocal (MClose (Some (case cl of None \<Rightarrow> \<lparr>close_code = 1000, close_reason = []\<rparr> | Some f \<Rightarrow> f)))], True)) \<and>
    (\<exists>ev. snd (stream_loop J sid w [LocalRead True (Some (ReadMsg (MClose cl)))]
          :: 't stream_action list \<times> bool) \<and>
      session_loop J out (map (\<lambda>m. (rx, ReadMsg m)) (relay_msgs (stream_to_relay (fst
        (stream_loop J sid w [LocalRead True (Some (ReadMsg (MClose cl)))]))))) st
        = (remove_ws_stream sid st, [ToStream (ws_sender h) ev]) \<and>
      tunnel_loop J c sid v [RelayRead True (Some ev)] =
        ([TClient (MClose (Some (case cl of None \<Rightarrow> \<lparr>close_code = 1000, close_reason = ''closed''\<rparr> | Some f \<Rightarrow> f)))], True))"
proof
  define code and reason where "code = (case cl of None \<Rightarrow> 1000 | Some f \<Rightarrow> close_code f)"
    and "reason = map_option close_reason cl"
  have eta: "\<lparr>close_code = close_code f, close_reason = close_reason f\<rparr> = f" for f :: close_frame
    by (cases f) simp
  obtain t where t: "from_str J t = Inr (WsClose sid (Some code) reason)"
    "send_control J (\<lambda>_. True) c (WsClose sid (Some code) reason) = (Inr (), [ToAgent c (MText t)])"
    using send_control_ok [OF assms(1), of "WsClose sid (Some code) reason" "\<lambda>_. True" c] by auto
  have "from_client J (\<lambda>_. True) c sid v (Some (ReadMsg (MClose cl))) = (False, [ToAgent c (MText t)])"
    using t(2) by (cases cl) (simp_all add: from_client_def code_def reason_def Let_def)
  then show "\<exists>ev. tunnel_loop J c sid v [ClientRead (\<lambda>_. True) (Some (ReadMsg (MClose cl)))]
        = (map TPut (snd (send_control J (\<lambda>_. True) c (WsClose sid (Some (case cl of None \<Rightarrow> 1000 | Some f \<Rightarrow> close_code f))
             (map_option close_reason cl)))), True) \<and>
      agent_loop J ctx (agent_rounds bc (agent_msgs c (to_agent (fst
        (tunnel_loop J c sid v [ClientRead (\<lambda>_. True) (Some (ReadMsg (MClose cl)))]))))) ast
        = (Inr (), ast, [ToSession tx ev]) \<and>
      stream_loop J sid w [Inbound True (Some ev)] =
        ([WLocal (MClose (Some (case cl of None \<Rightarrow> \<lparr>close_code = 1000, close_reason = []\<rparr> | Some f \<Rightarrow> f)))], True)"
    using t assms(2) unfolding code_def [symmetric] reason_def [symmetric]
    by (intro exI [of _ "InClose (Some code) reason"])
       (cases cl; simp add: agent_read_def agent_handle_text_def from_inbound_def code_def reason_def eta)
  obtain u where u: "from_str J u = Inr (WsClose sid (Some code) reason)"
    "agent_send_control J True (WsClose sid (Some code) reason) = (Inr (), [ToRelay (MText u)])"
    using agent_send_control_ok [OF assms(1)] by blast
  have "from_local J True sid w (Some (ReadMsg (MClose cl))) = (False, [ToRelay (MText u)])"
    using u(2) by (cases cl) (simp_all add: from_local_def code_def reason_def Let_def)
  then show "\<exists>ev. snd (stream_loop J sid w [LocalRead True (Some (ReadMsg (MClose cl)))]
          :: 't stream_action list \<times> bool) \<and>
      session_loop J out (map (\<lambda>m. (rx, ReadMsg m)) (relay_msgs (stream_to_relay (fst
        (stream_loop J sid w [LocalRead True (Some (ReadMsg (MClose cl)))]))))) st
        = (remove_ws_stream sid st, [ToStream (ws_sender h) ev]) \<and>
      tunnel_loop J c sid v [RelayRead True (Some ev)] =
        ([TClient (MClose (Some (case cl of None \<Rightarrow> \<lparr>close_code = 1000, close_reason = ''closed''\<rparr> | Some f \<Rightarrow> f)))], True)"
    using u(1) assms(3,4)
    by (intro exI [of _ "WsEvClose (Some code) reason"])
       (cases cl; simp add: session_read_def handle_text_message_def notify_ws_close_def from_relay_def
          code_def reason_def eta)
qed

theorem close_end_to_end_witness:
  "\<exists>ev. agent_loop plain_json sample_ctx (agent_rounds 5 (agent_msgs 10 (to_agent (fst
        (tunnel_loop plain_json 10 300 1 [ClientRead (\<lambda>_. True)
          (Some (ReadMsg (MClose (Some \<lparr>close_code = 4000, close_reason = ''bye''\<rparr>))))])))))
      \<lparr>ag_inflight = [], ag_ws_sessions = [(300, 70)]\<rparr>
      = (Inr (), \<lparr>ag_inflight = [], ag_ws_sessions = [(300, 70)]\<rparr>, [ToSession 70 ev]) \<and>
    stream_loop plain_json 300 1 [Inbound True (Some ev)] =
      ([WLocal (MClose (Some \<lparr>close_code = 4000, close_reason = ''bye''\<rparr>))], True)"
proof -
  have a: "tbl_get (ag_ws_sessions \<lparr>ag_inflight = [], ag_ws_sessions = [(300, 70)]\<rparr>) 300 = Some 70"
    and h: "tbl_get (ws_streams sample_state) 300 = Some \<lparr>ws_tunnel_id = ''demo'', ws_sender = 40\<rparr>"
    by (simp_all add: sample_state_def tbl_get_def)
  show ?thesis
    using close_end_to_end [where rx = "\<lambda>_. True" and cl = "Some \<lparr>close_code = 4000, close_reason = ''bye''\<rparr>",
        OF plain_json_ok a h TrueI, of 10 1 sample_ctx 5 1]
    unfolding option.case by blast
qed

end
